(* ===== verification/Prelude.thy ===== *)
theory Prelude
  imports Main "HOL-Library.Word"
begin

text \<open>
  Shared vocabulary of the development: the characters the shell treats specially, the parts of
  the C and C++ standard library that the sources call on strings and integers
  (\<open>isspace\<close>, \<open>std::to_string\<close>, \<open>strtol\<close>, \<open>std::stol\<close>, \<open>std::stoi\<close>, \<open>std::stoull\<close>,
  \<open>std::getline\<close>), and the generic lemmas on lists and digits that the component theories use.
  A \<open>std::string\<close> is a \<^typ>\<open>string\<close> (a list of bytes); \<open>int\<close>, \<open>long\<close> and \<open>pid_t\<close> values are
  \<^typ>\<open>int\<close> with the range checks and wrap-around written out; \<open>unsigned long long\<close> values are
  \<^typ>\<open>64 word\<close>.
\<close>

named_theorems char_defs \<open>definitions of the character classes\<close>
named_theorems scan_simps \<open>scanning facts about takeWhile, dropWhile and the number readers\<close>


section \<open>Characters\<close>

abbreviation bslash :: char where "bslash \<equiv> CHR 0x5C"
abbreviation squote :: char where "squote \<equiv> CHR 0x27"
abbreviation dquote :: char where "dquote \<equiv> CHR 0x22"
abbreviation newline :: char where "newline \<equiv> CHR 0x0A"
abbreviation tab :: char where "tab \<equiv> CHR 0x09"
abbreviation blank :: char where "blank \<equiv> CHR 0x20"
abbreviation nul :: char where "nul \<equiv> CHR 0x00"

text \<open>\<open>std::isspace\<close> in the C locale: blank, tab, newline, vertical tab, form feed, return.\<close>

definition isspace :: "char \<Rightarrow> bool" where
  "isspace c \<longleftrightarrow> c = blank \<or> c = tab \<or> c = newline \<or> c = CHR 0x0B \<or> c = CHR 0x0C \<or> c = CHR 0x0D"

definition isdigit :: "char \<Rightarrow> bool" where
  "isdigit c \<longleftrightarrow> 48 \<le> (of_char c :: nat) \<and> (of_char c :: nat) \<le> 57"

declare isspace_def [char_defs] isdigit_def [char_defs]

lemma isspace_blank [simp]: "isspace blank" "isspace newline" "isspace tab"
  by (simp_all add: isspace_def)

lemma isdigit_not_isspace: "isdigit c \<Longrightarrow> \<not> isspace c"
  by (auto simp: isdigit_def isspace_def)


section \<open>Decimal numerals\<close>

definition digit_char :: "nat \<Rightarrow> char" where
  "digit_char d = char_of (48 + d)"

definition digit_val :: "char \<Rightarrow> nat" where
  "digit_val c = of_char c - 48"

fun digits_of :: "nat \<Rightarrow> string" where
  "digits_of n = (if n < 10 then [digit_char n] else digits_of (n div 10) @ [digit_char (n mod 10)])"

declare digits_of.simps [simp del]

definition digits_val :: "string \<Rightarrow> nat" where
  "digits_val ds = foldl (\<lambda>acc c. 10 * acc + digit_val c) 0 ds"

text \<open>\<open>std::to_string\<close> on a signed and on an unsigned value.\<close>

definition to_string :: "int \<Rightarrow> string" where
  "to_string i = (if i < 0 then CHR ''-'' # digits_of (nat (- i)) else digits_of (nat i))"

definition nat_to_string :: "nat \<Rightarrow> string" where
  "nat_to_string n = digits_of n"

lemma of_char_digit_char: "d < 10 \<Longrightarrow> of_char (digit_char d) = 48 + d"
  by (simp add: digit_char_def)

lemma isdigit_digit_char [simp]: "d < 10 \<Longrightarrow> isdigit (digit_char d)"
  by (simp add: isdigit_def of_char_digit_char)

lemma digit_val_digit_char [simp]: "d < 10 \<Longrightarrow> digit_val (digit_char d) = d"
  by (simp add: digit_val_def of_char_digit_char)

lemma digits_of_nonempty [simp]: "digits_of n \<noteq> []"
  by (subst digits_of.simps) simp

lemma digits_of_isdigit: "list_all isdigit (digits_of n)"
proof (induction n rule: digits_of.induct)
  case (1 n)
  then show ?case by (subst digits_of.simps) auto
qed

lemma digits_val_snoc: "digits_val (ds @ [c]) = 10 * digits_val ds + digit_val c"
  by (simp add: digits_val_def)

text \<open>Printing a number and reading the digits back gives the number.\<close>

lemma digits_val_digits_of [simp]: "digits_val (digits_of n) = n"
proof (induction n rule: digits_of.induct)
  case (1 n)
  show ?case
  proof (cases "n < 10")
    case True
    then show ?thesis by (simp add: digits_of.simps [of n] digits_val_def)
  next
    case False
    with "1" have "digits_val (digits_of (n div 10)) = n div 10" by simp
    with False show ?thesis
      by (simp add: digits_of.simps [of n] digits_val_snoc)
  qed
qed

lemma takeWhile_all [scan_simps]: "list_all P xs \<Longrightarrow> takeWhile P xs = xs"
  by (simp add: list_all_iff)

lemma dropWhile_all [scan_simps]: "list_all P xs \<Longrightarrow> dropWhile P xs = []"
  by (simp add: list_all_iff)

lemma drop_add_Cons: "drop i xs = y # ys \<Longrightarrow> drop (i + k) xs = (if k = 0 then y # ys else drop (k - 1) ys)"
proof -
  assume *: "drop i xs = y # ys"
  have "drop (i + k) xs = drop k (drop i xs)" by (simp add: add.commute)
  with * show ?thesis by (cases k) simp_all
qed

lemma drop_Suc_Cons [simp]: "drop i xs = y # ys \<Longrightarrow> drop (Suc i) xs = ys"
  using drop_add_Cons [of i xs y ys 1] by simp

lemma hd_digits_of: "isdigit (hd (digits_of n))"
  using digits_of_isdigit [of n] by (cases "digits_of n") simp_all


section \<open>Reading integers: strtol, stol, stoi, stoull\<close>

text \<open>
  The common front of the C readers with base 10: skip white space, take an optional sign, take
  the longest run of digits. \<open>None\<close> is ``no conversion''. The result is the sign, the digits and
  the text that was not consumed.
\<close>

definition scan_sign :: "string \<Rightarrow> bool \<times> string" where
  "scan_sign s =
     (case s of [] \<Rightarrow> (False, s)
      | c # cs \<Rightarrow> if c = CHR ''-'' then (True, cs) else if c = CHR ''+'' then (False, cs) else (False, s))"

definition scan_number :: "string \<Rightarrow> (bool \<times> nat \<times> string) option" where
  "scan_number s =
     (let (neg, body) = scan_sign (dropWhile isspace s); ds = takeWhile isdigit body
      in if ds = [] then None else Some (neg, digits_val ds, dropWhile isdigit body))"

abbreviation (input) LONG_MAX :: int where "LONG_MAX \<equiv> 2 ^ 63 - 1"
abbreviation (input) LONG_MIN :: int where "LONG_MIN \<equiv> - (2 ^ 63)"
abbreviation (input) INT_MAX :: int where "INT_MAX \<equiv> 2 ^ 31 - 1"
abbreviation (input) INT_MIN :: int where "INT_MIN \<equiv> - (2 ^ 31)"

definition signed_value :: "bool \<Rightarrow> nat \<Rightarrow> int" where
  "signed_value neg n = (if neg then - int n else int n)"

text \<open>\<open>strtol (text, &end, 10)\<close>: the value saturates; no conversion leaves \<open>end\<close> at the start.\<close>

definition strtol :: "string \<Rightarrow> int \<times> string" where
  "strtol s =
     (case scan_number s of None \<Rightarrow> (0, s)
      | Some (neg, n, rest) \<Rightarrow> (max LONG_MIN (min LONG_MAX (signed_value neg n)), rest))"

text \<open>
  \<open>std::stol\<close> and \<open>std::stoi\<close>: \<open>None\<close> stands for the exceptions (\<open>invalid_argument\<close> without a
  conversion, \<open>out_of_range\<close> otherwise); the second component is the number of characters consumed.
\<close>

definition sto_range :: "int \<Rightarrow> int \<Rightarrow> string \<Rightarrow> (int \<times> nat) option" where
  "sto_range lo hi s =
     (case scan_number s of None \<Rightarrow> None
      | Some (neg, n, rest) \<Rightarrow>
          (let v = signed_value neg n
           in if lo \<le> v \<and> v \<le> hi then Some (v, length s - length rest) else None))"

definition stol :: "string \<Rightarrow> (int \<times> nat) option" where
  "stol = sto_range LONG_MIN LONG_MAX"

definition stoi :: "string \<Rightarrow> (int \<times> nat) option" where
  "stoi = sto_range INT_MIN INT_MAX"

text \<open>
  \<open>std::stoull\<close>: a magnitude of at least \<open>2 ^ 64\<close> raises \<open>out_of_range\<close>; a leading minus sign is
  accepted and negates the value in the unsigned type, as \<open>strtoull\<close> specifies.
\<close>

definition stoull :: "string \<Rightarrow> (64 word \<times> nat) option" where
  "stoull s =
     (case scan_number s of None \<Rightarrow> None
      | Some (neg, n, rest) \<Rightarrow>
          if int n < 2 ^ 64
          then Some (if neg then - of_nat n else of_nat n, length s - length rest)
          else None)"

lemma scan_sign_noop: "s \<noteq> [] \<Longrightarrow> isdigit (hd s) \<Longrightarrow> scan_sign s = (False, s)"
  by (cases s) (auto simp: scan_sign_def isdigit_def)

lemma scan_number_digits:
  assumes "ds \<noteq> []" "list_all isdigit ds"
  shows "scan_number ds = Some (False, digits_val ds, [])"
proof -
  from assms have "isdigit (hd ds)" by (cases ds) simp_all
  with assms have "dropWhile isspace ds = ds"
    by (cases ds) (simp_all add: isdigit_not_isspace)
  with assms \<open>isdigit (hd ds)\<close> show ?thesis
    by (simp add: scan_number_def scan_sign_noop scan_simps)
qed

lemma stoull_digits:
  assumes "ds \<noteq> []" "list_all isdigit ds"
  shows "stoull ds = (if digits_val ds < 2 ^ 64 then Some (of_nat (digits_val ds), length ds) else None)"
  using assms by (simp add: stoull_def scan_number_digits)

lemma scan_sign_length: "length (snd (scan_sign s)) \<le> length s"
  by (auto simp: scan_sign_def split: list.splits)


text \<open>\<open>static_cast<int>\<close> of a wider integer: the value modulo \<open>2 ^ 32\<close>, as a signed number.\<close>

definition int32_cast :: "int \<Rightarrow> int" where
  "int32_cast v = sint (word_of_int v :: 32 word)"


section \<open>Splitting a stream with getline\<close>

text \<open>
  \<open>while (std::getline (stream, piece, delim))\<close> over a stream that holds \<open>s\<close>: the pieces between
  the delimiters; a delimiter at the very end does not give an empty last piece, and an empty
  stream gives none.
\<close>

function getline_all :: "char \<Rightarrow> string \<Rightarrow> string list" where
  "getline_all d s =
     (if s = [] then []
      else takeWhile (\<lambda>c. c \<noteq> d) s # getline_all d (drop 1 (dropWhile (\<lambda>c. c \<noteq> d) s)))"
  by pat_completeness auto
termination
proof (relation "measure (\<lambda>(d, s). length s)")
  fix d :: char and s :: string
  assume "s \<noteq> []"
  then show "((d, drop 1 (dropWhile (\<lambda>c. c \<noteq> d) s)), (d, s)) \<in> measure (\<lambda>(d, s). length s)"
    using length_dropWhile_le [of "\<lambda>c. c \<noteq> d" s] by (cases s) auto
qed simp

declare getline_all.simps [simp del]

lemma getline_all_Nil [simp]: "getline_all d [] = []"
  by (simp add: getline_all.simps)

lemma getline_all_line: "d \<notin> set l \<Longrightarrow> getline_all d (l @ d # s) = l # getline_all d s"
  by (subst getline_all.simps) (auto simp: takeWhile_append dropWhile_append)

text \<open>A list of components with separators between them is read back, unless the last one is empty.\<close>

fun joined :: "char \<Rightarrow> string list \<Rightarrow> string" where
  "joined d [] = []"
| "joined d [x] = x"
| "joined d (x # y # xs) = x @ d # joined d (y # xs)"

lemma getline_all_joined:
  "list_all (\<lambda>x. d \<notin> set x) xs \<Longrightarrow> (xs = [] \<or> last xs \<noteq> []) \<Longrightarrow> getline_all d (joined d xs) = xs"
proof (induction d xs rule: joined.induct)
  case (2 d x)
  then have "takeWhile (\<lambda>c. c \<noteq> d) x = x" "dropWhile (\<lambda>c. c \<noteq> d) x = []" by auto
  with 2 show ?case by (subst getline_all.simps) (simp del: takeWhile_eq_all_conv dropWhile_eq_Nil_conv)
qed (simp_all add: getline_all_line)



section \<open>Options\<close>

lemma bind_returns:
  "\<exists>r. m = Some r \<Longrightarrow> (\<And>a. \<exists>r. f a = Some r) \<Longrightarrow> \<exists>r. Option.bind m f = Some r"
  by auto

section \<open>Order of strings\<close>

text \<open>\<open>operator<\<close> on \<open>std::string\<close>: lexicographic, bytes compared as unsigned.\<close>

fun str_less :: "string \<Rightarrow> string \<Rightarrow> bool" where
  "str_less s [] = False"
| "str_less [] (b # bs) = True"
| "str_less (a # as) (b # bs) =
     ((of_char a :: nat) < of_char b \<or> (a = b \<and> str_less as bs))"

lemma str_less_irrefl [simp]: "\<not> str_less s s"
  by (induction s) auto

lemma str_less_total: "str_less s t \<or> s = t \<or> str_less t s"
proof (induction s t rule: str_less.induct)
  case (2 b bs)
  then show ?case by simp
next
  case (1 s)
  then show ?case by (cases s) simp_all
next
  case (3 a s b t)
  have "a \<noteq> b \<Longrightarrow> (of_char a :: nat) < of_char b \<or> (of_char b :: nat) < of_char a"
    by (metis char_of_char linorder_neqE_nat)
  with 3 show ?case by (cases "a = b") auto
qed

lemma str_less_trans: "str_less s t \<Longrightarrow> str_less t u \<Longrightarrow> str_less s u"
proof (induction s t arbitrary: u rule: str_less.induct)
  case (2 b bs)
  then show ?case by (cases u) simp_all
next
  case (3 a s b t)
  then show ?case by (cases u) auto
qed simp

end
