(* ===== verification/Kernel.thy ===== *)
theory Kernel
  imports Prelude
begin

text \<open>
  The operating system as a parameter. A process issues system calls one after the other; the
  list of the calls it has issued is its \<open>trace\<close>, and a \<open>kernel\<close> is any function that answers a
  call in the light of the trace so far. Every behaviour of the system (including scheduling and
  failures) is some kernel, and no property of the kernel is assumed unless a theorem names it.
  A completed call of the shell's own \<open>write_all\<close> appears in a trace as one \<open>WriteAll\<close> event
  (its loop is verified in \<open>Shell_Utils\<close>); its result is not used by any caller.
\<close>

section \<open>Constants of the Linux interface\<close>

type_synonym termios = nat

abbreviation (input) STDIN_FILENO :: int where "STDIN_FILENO \<equiv> 0"
abbreviation (input) STDOUT_FILENO :: int where "STDOUT_FILENO \<equiv> 1"
abbreviation (input) STDERR_FILENO :: int where "STDERR_FILENO \<equiv> 2"

abbreviation (input) EPERM :: int where "EPERM \<equiv> 1"
abbreviation (input) ENOENT :: int where "ENOENT \<equiv> 2"
abbreviation (input) ESRCH :: int where "ESRCH \<equiv> 3"
abbreviation (input) EINTR :: int where "EINTR \<equiv> 4"
abbreviation (input) ECHILD :: int where "ECHILD \<equiv> 10"
abbreviation (input) EACCES :: int where "EACCES \<equiv> 13"

abbreviation (input) SIGINT :: int where "SIGINT \<equiv> 2"
abbreviation (input) SIGQUIT :: int where "SIGQUIT \<equiv> 3"
abbreviation (input) SIGKILL :: int where "SIGKILL \<equiv> 9"
abbreviation (input) SIGTERM :: int where "SIGTERM \<equiv> 15"
abbreviation (input) SIGCHLD :: int where "SIGCHLD \<equiv> 17"
abbreviation (input) SIGCONT :: int where "SIGCONT \<equiv> 18"
abbreviation (input) SIGSTOP :: int where "SIGSTOP \<equiv> 19"
abbreviation (input) SIGTSTP :: int where "SIGTSTP \<equiv> 20"
abbreviation (input) SIGTTIN :: int where "SIGTTIN \<equiv> 21"
abbreviation (input) SIGTTOU :: int where "SIGTTOU \<equiv> 22"

datatype wait_flag = WNOHANG | WUNTRACED | WCONTINUED

datatype handler = SIG_DFL | SIG_IGN | On_sigchld | Handle_prompt_sigint

abbreviation (input) RLIMIT_CPU :: int where "RLIMIT_CPU \<equiv> 0"
abbreviation (input) RLIMIT_CORE :: int where "RLIMIT_CORE \<equiv> 4"
abbreviation (input) RLIMIT_NPROC :: int where "RLIMIT_NPROC \<equiv> 6"
abbreviation (input) RLIMIT_NOFILE :: int where "RLIMIT_NOFILE \<equiv> 7"
abbreviation (input) RLIMIT_AS :: int where "RLIMIT_AS \<equiv> 9"

datatype open_flag = O_RDONLY | O_WRONLY | O_CREAT | O_APPEND | O_TRUNC | O_CLOEXEC

datatype clone_flag = CLONE_NEWUSER | CLONE_NEWPID | CLONE_NEWNS | CLONE_NEWNET | CLONE_NEWUTS

datatype mount_flag = MS_REC | MS_PRIVATE | MS_NOSUID | MS_NODEV | MS_NOEXEC

text \<open>
  Calls of the sandbox: namespaces, identities, mounts, and the operations of \<open>std::filesystem\<close> on
  the cgroup directory (\<open>exists\<close> answers 1 or 0, and a negative value when it cannot tell; \<open>Read_text\<close> is the whole
  contents of a file through a \<open>std::ifstream\<close>, \<open>-1\<close> when it cannot be opened).
\<close>

datatype isolation_call =
    Unshare "clone_flag list"
  | Getuid
  | Getgid
  | Setresuid int int int
  | Setresgid int int int
  | Mount "string option" string "string option" "mount_flag list"
  | Sethostname string
  | Prctl_pdeathsig int
  | Statfs string
  | Exists string
  | Create_directory string
  | Remove string
  | Usleep int
  | Steady_clock
  | Read_text string

text \<open>Requests of the tracer on one process.\<close>

datatype ptrace_request =
    PTRACE_TRACEME
  | PTRACE_SETOPTIONS
  | PTRACE_SYSCALL int
  | PTRACE_GET_SYSCALL_INFO
  | PTRACE_PEEKDATA "64 word"


section \<open>System calls, replies and kernels\<close>

datatype syscall =
    WriteAll int string
  | Write int string
  | Isatty int
  | Getpgrp
  | Getpid
  | Setpgid int int
  | Tcgetpgrp int
  | Tcsetpgrp int int
  | Tcgetattr int
  | Tcsetattr int termios
  | Sigaction int handler
  | Kill int int
  | Waitpid int "wait_flag list"
  | Open string "open_flag list" int
  | Close int
  | Dup2 int int
  | MkPipe
  | Fork nat
  | Execv string "string list"
  | Exit int
  | Getrlimit int
  | Setrlimit int "64 word" "64 word"
  | Getpriority
  | Setpriority int
  | Getcwd
  | Chdir string
  | Nanosleep int int
  | Read int int
  | Readlink string int
  | List_dir string
  | Sysconf_clk_tck
  | Getppid
  | Raise int
  | Isolation isolation_call
  | Ptrace ptrace_request int

datatype file_kind = Regular | Directory | Special

text \<open>
  What the program sees of the file system and of its environment at one moment: \<open>getenv\<close>, \<open>stat\<close>
  (\<open>None\<close> when it fails), \<open>access\<close> with \<open>X_OK\<close>, the names that \<open>opendir\<close> and \<open>readdir\<close> give
  (\<open>None\<close> when the directory cannot be opened), and \<open>strerror\<close>.
\<close>

record environ =
  getenv :: "string \<Rightarrow> string option"
  stat_kind :: "string \<Rightarrow> file_kind option"
  access_x :: "string \<Rightarrow> bool"
  read_dir :: "string \<Rightarrow> string list option"
  strerror :: "int \<Rightarrow> string"

text \<open>The bytes that a C function sees of a \<open>std::string\<close> through \<open>c_str\<close>.\<close>

definition c_str :: "string \<Rightarrow> string" where
  "c_str s = takeWhile (\<lambda>c. c \<noteq> nul) s"

lemma c_str_id: "nul \<notin> set s \<Longrightarrow> c_str s = s"
  unfolding c_str_def by (rule takeWhile_eq_all_conv [THEN iffD2]) auto

text \<open>
  A reply: the returned integer, \<open>errno\<close>, and what the call stores through its pointer
  arguments (a wait status, terminal modes, the second descriptor of a pipe, resource limits, a
  path, the rest of an interrupted sleep, bytes read, the names of a directory, the type of a file
  system, what \<open>PTRACE_GET_SYSCALL_INFO\<close> and \<open>PTRACE_PEEKDATA\<close> report). \<open>execv\<close> returns only when it fails: an answer other than \<open>-1\<close> stands for the program
  being replaced. \<open>pipe\<close> answers its read end in \<open>ret\<close> and its write end in \<open>ret2\<close>; \<open>fork\<close> answers 0
  in the child.
\<close>

record reply =
  ret :: int
  errno :: int
  wstatus :: "32 word"
  modes :: termios
  ret2 :: int
  rlim_cur :: "64 word"
  rlim_max :: "64 word"
  path_text :: string
  remain :: "int \<times> int"
  bytes :: string
  listing :: "string list option"
  fs_type :: int
  info_op :: int
  info_nr :: "64 word"
  info_args :: "64 word list"
  info_rval :: "64 word"
  peeked :: "64 word"

type_synonym trace = "syscall list"
type_synonym kernel = "trace \<Rightarrow> syscall \<Rightarrow> reply"

definition reply_ok :: reply where
  "reply_ok = \<lparr>ret = 0, errno = 0, wstatus = 0, modes = 0, ret2 = 0, rlim_cur = 0, rlim_max = 0, path_text = [], remain = (0, 0),
     bytes = [], listing = None, fs_type = 0, info_op = 0, info_nr = 0, info_args = [], info_rval = 0, peeked = 0\<rparr>"

definition syscall :: "kernel \<Rightarrow> syscall \<Rightarrow> trace \<Rightarrow> reply \<times> trace" where
  "syscall K c h = (K h c, h @ [c])"

text \<open>A call whose reply the program ignores.\<close>

definition emit :: "syscall \<Rightarrow> trace \<Rightarrow> trace" where
  "emit c h = h @ [c]"

lemma syscall_simps [simp]: "fst (syscall K c h) = K h c" "snd (syscall K c h) = h @ [c]"
  by (simp_all add: syscall_def)


text \<open>
  How a child process leaves the shell's code: with an exit status, replaced by a program, or by an
  exception that nothing catches.
\<close>

datatype child_end = Exited int | Replaced string "string list" | Aborted

text \<open>A step of a process that may end the process (\<open>Inl\<close>), and the sequence of two such steps.\<close>

type_synonym 'a step_end = "child_end + 'a"

definition and_then :: "'a step_end \<times> trace \<Rightarrow> ('a \<Rightarrow> trace \<Rightarrow> 'b step_end \<times> trace) \<Rightarrow> 'b step_end \<times> trace" where
  "and_then m f = (case m of (Inl c, h) \<Rightarrow> (Inl c, h) | (Inr a, h) \<Rightarrow> f a h)"

text \<open>The same for steps that may not return (\<open>None\<close>).\<close>

definition then_step ::
  "('a step_end \<times> trace) option \<Rightarrow> ('a \<Rightarrow> trace \<Rightarrow> ('b step_end \<times> trace) option) \<Rightarrow> ('b step_end \<times> trace) option" where
  "then_step m f = Option.bind m (\<lambda>(e, h). case e of Inl c \<Rightarrow> Some (Inl c, h) | Inr a \<Rightarrow> f a h)"

text \<open>\<open>while (waitpid (pid, &status, 0) == -1 && errno == EINTR)\<close>: the last reply.\<close>

partial_function (option) wait_eintr :: "kernel \<Rightarrow> int \<Rightarrow> trace \<Rightarrow> (reply \<times> trace) option" where
  "wait_eintr K pid h =
     (let (r, h1) = syscall K (Waitpid pid []) h
      in if ret r = -1 \<and> errno r = EINTR then wait_eintr K pid h1 else Some (r, h1))"

declare wait_eintr.simps [code]

text \<open>\<open>UniqueFd::reset\<close> of \<open>src/include/unique_fd.hpp\<close>, which its destructor also runs.\<close>

definition close_fd :: "int \<Rightarrow> trace \<Rightarrow> trace" where
  "close_fd fd h = (if 0 \<le> fd then emit (Close fd) h else h)"

definition execv :: "kernel \<Rightarrow> string \<Rightarrow> string list \<Rightarrow> trace \<Rightarrow> reply \<times> trace" where
  "execv K path argv h = syscall K (Execv (c_str path) (map c_str argv)) h"


section \<open>Wait statuses\<close>

unbundle bit_operations_syntax

text \<open>The status macros of \<open>sys/wait.h\<close> on Linux.\<close>

definition WTERMSIG :: "32 word \<Rightarrow> int" where
  "WTERMSIG s = uint (s AND 0x7F)"

definition WEXITSTATUS :: "32 word \<Rightarrow> int" where
  "WEXITSTATUS s = uint (drop_bit 8 (s AND 0xFF00))"

definition WSTOPSIG :: "32 word \<Rightarrow> int" where
  "WSTOPSIG s = WEXITSTATUS s"

definition WIFEXITED :: "32 word \<Rightarrow> bool" where
  "WIFEXITED s \<longleftrightarrow> WTERMSIG s = 0"

text \<open>\<open>((signed char) ((status & 0x7f) + 1) >> 1) > 0\<close>.\<close>

definition WIFSIGNALED :: "32 word \<Rightarrow> bool" where
  "WIFSIGNALED s \<longleftrightarrow> 0 < sint (signed_drop_bit 1 (ucast ((s AND 0x7F) + 1) :: 8 word))"

definition WIFSTOPPED :: "32 word \<Rightarrow> bool" where
  "WIFSTOPPED s \<longleftrightarrow> s AND 0xFF = 0x7F"

definition WIFCONTINUED :: "32 word \<Rightarrow> bool" where
  "WIFCONTINUED s \<longleftrightarrow> s = 0xFFFF"

text \<open>The statuses that the kernel encodes for an exit, a fatal signal, a stop and a resumption.\<close>

definition exit_status :: "8 word \<Rightarrow> 32 word" where
  "exit_status code = push_bit 8 (ucast code)"

definition signal_status :: "7 word \<Rightarrow> 32 word" where
  "signal_status sig = ucast sig"

definition stop_status :: "8 word \<Rightarrow> 32 word" where
  "stop_status sig = push_bit 8 (ucast sig) OR 0x7F"

definition continued_status :: "32 word" where
  "continued_status = 0xFFFF"


lemma mask_7F: "(0x7F :: 32 word) = mask 7"
  by (simp add: mask_eq_exp_minus_1)

lemma mask_FF: "(0xFF :: 32 word) = mask 8"
  by (simp add: mask_eq_exp_minus_1)

lemma mask_FF00: "(0xFF00 :: 32 word) = push_bit 8 (mask 8)"
  by (simp add: mask_eq_exp_minus_1 push_bit_eq_mult)

lemmas status_masks = mask_7F mask_FF mask_FF00

lemma exit_status_low: "exit_status c AND 0x7F = 0"
  unfolding exit_status_def status_masks by (rule bit_word_eqI) (auto simp: bit_simps)

lemma exit_status_high: "drop_bit 8 (exit_status c AND 0xFF00) = ucast c"
  unfolding exit_status_def status_masks
  by (rule bit_word_eqI) (auto simp: bit_simps dest: bit_imp_le_length)

lemma stop_status_low: "stop_status c AND 0x7F = 0x7F" "stop_status c AND 0xFF = 0x7F"
  unfolding stop_status_def status_masks by (rule bit_word_eqI, auto simp: bit_simps)+

lemma stop_status_high: "drop_bit 8 (stop_status c AND 0xFF00) = ucast c"
  unfolding stop_status_def status_masks
  by (rule bit_word_eqI) (auto simp: bit_simps dest: bit_imp_le_length)

lemma signal_status_low: "signal_status s AND 0x7F = ucast s"
  unfolding signal_status_def status_masks
  by (rule bit_word_eqI) (auto simp: bit_simps dest: bit_imp_le_length)

lemma WTERMSIG_range: "0 \<le> WTERMSIG s" "WTERMSIG s < 128"
proof -
  have "s AND 0x7F = take_bit 7 s" unfolding status_masks by (simp add: take_bit_eq_mask)
  then show "WTERMSIG s < 128"
    using take_bit_int_less_exp [of 7 "uint s"] by (simp add: WTERMSIG_def unsigned_take_bit_eq)
qed (simp add: WTERMSIG_def)

lemma WEXITSTATUS_range: "0 \<le> WEXITSTATUS s" "WEXITSTATUS s < 256"
proof -
  have "drop_bit 8 (s AND 0xFF00) = take_bit 8 (drop_bit 8 s)"
    unfolding status_masks by (rule bit_word_eqI) (auto simp: bit_simps dest: bit_imp_le_length)
  then show "WEXITSTATUS s < 256"
    using take_bit_int_less_exp [of 8 "uint (drop_bit 8 s)"]
    by (simp add: WEXITSTATUS_def unsigned_take_bit_eq)
qed (simp add: WEXITSTATUS_def)

text \<open>The signed-char test of \<open>WIFSIGNALED\<close> singles out the values strictly between 0 and 127.\<close>

lemma WIFSIGNALED_iff: "WIFSIGNALED s \<longleftrightarrow> 0 < WTERMSIG s \<and> WTERMSIG s < 127"
proof -
  define x where "x = unat (s AND 0x7F)"
  have t: "WTERMSIG s = int x" by (simp add: WTERMSIG_def x_def)
  have "s AND 0x7F = of_nat x" by (simp add: x_def)
  moreover have "x < 128" using WTERMSIG_range [of s] t by simp
  moreover have "list_all (\<lambda>n. (0 < sint (signed_drop_bit 1 (ucast ((of_nat n :: 32 word) + 1) :: 8 word)))
      = (0 < n \<and> n < 127)) [0..<128]"
    by code_simp
  ultimately show ?thesis by (simp add: WIFSIGNALED_def t list_all_iff)
qed



section \<open>A concrete kernel\<close>

text \<open>
  A kernel that plays a script: the shell is process 100 on a terminal, \<open>fork\<close> of the \<open>n\<close>-th
  command gives process \<open>200 + n\<close>, the \<open>n\<close>-th \<open>waitpid\<close> reports the \<open>n\<close>-th event of the script, and
  once the script is over there are no more children. It shows that the hypotheses of the
  theorems can hold and lets their statements be evaluated.
\<close>

definition is_waitpid :: "syscall \<Rightarrow> bool" where
  "is_waitpid c = (case c of Waitpid _ _ \<Rightarrow> True | _ \<Rightarrow> False)"

definition scripted_kernel :: "(int \<times> 32 word) list \<Rightarrow> kernel" where
  "scripted_kernel evs h c =
     (case c of
        Isatty _ \<Rightarrow> reply_ok\<lparr>ret := 1\<rparr>
      | Getpgrp \<Rightarrow> reply_ok\<lparr>ret := 100\<rparr>
      | Getpid \<Rightarrow> reply_ok\<lparr>ret := 100\<rparr>
      | Tcgetpgrp _ \<Rightarrow> reply_ok\<lparr>ret := 100\<rparr>
      | Fork i \<Rightarrow> reply_ok\<lparr>ret := 200 + int i\<rparr>
      | Waitpid _ _ \<Rightarrow>
          (case drop (length (filter is_waitpid h)) evs of
             (pid, st) # _ \<Rightarrow> reply_ok\<lparr>ret := pid, wstatus := st\<rparr>
           | [] \<Rightarrow> reply_ok\<lparr>ret := -1, errno := ECHILD\<rparr>)
      | Open _ _ _ \<Rightarrow> reply_ok\<lparr>ret := 5\<rparr>
      | MkPipe \<Rightarrow>
          (let n = int (length (filter (\<lambda>c. c = MkPipe) h)) in reply_ok\<lparr>ret := 10 + 2 * n, ret2 := 11 + 2 * n\<rparr>)
      | Getrlimit _ \<Rightarrow> reply_ok\<lparr>rlim_cur := -1, rlim_max := -1\<rparr>
      | Execv _ _ \<Rightarrow> reply_ok\<lparr>ret := -1, errno := ENOENT\<rparr>
      | _ \<Rightarrow> reply_ok)"

end
