(* ===== verification/Shell_Utils.thy ===== *)
theory Shell_Utils
  imports Kernel "HOL-Library.Sublist"
begin

text \<open>
  \<open>src/shell_utils.cpp\<close>: the list of built-ins, the search of \<open>PATH\<close>, the listing of its
  executables, the escapes of \<open>echo\<close> and the loop that writes a whole buffer.
\<close>

section \<open>Built-in names\<close>

definition builtin_commands :: "string list" where
  "builtin_commands = [''echo'', ''exit'', ''type'', ''pwd'', ''cd'', ''history'', ''jobs'', ''fg'', ''bg'',
     ''pinfo'', ''run'', ''limits'', ''sandbox'', ''trace'']"

definition is_builtin :: "string \<Rightarrow> bool" where
  "is_builtin command = List.member builtin_commands command"


section \<open>Searching PATH\<close>

definition runnable :: "environ \<Rightarrow> string \<Rightarrow> bool" where
  "runnable e path \<longleftrightarrow> stat_kind e (c_str path) = Some Regular \<and> access_x e (c_str path)"

fun search_path :: "environ \<Rightarrow> string \<Rightarrow> string list \<Rightarrow> string" where
  "search_path e command [] = []"
| "search_path e command (directory # dirs) =
     (let full_path = (if directory = [] then ''.'' else directory) @ ''/'' @ command
      in if runnable e full_path then full_path else search_path e command dirs)"

definition find_executable :: "environ \<Rightarrow> string \<Rightarrow> string" where
  "find_executable e command =
     (if CHR ''/'' \<in> set command then (if runnable e command then command else [])
      else case getenv e ''PATH'' of
             None \<Rightarrow> []
           | Some path \<Rightarrow> search_path e command (getline_all CHR '':'' path))"

fun add_entries :: "environ \<Rightarrow> string \<Rightarrow> string list \<Rightarrow> string list \<Rightarrow> string list" where
  "add_entries e directory [] executables = executables"
| "add_entries e directory (name # names) executables =
     add_entries e directory names
       (if take 1 name = ''.'' then executables
        else if runnable e (directory @ ''/'' @ name) \<and> name \<notin> set executables then executables @ [name]
        else executables)"

fun list_directories :: "environ \<Rightarrow> string list \<Rightarrow> string list \<Rightarrow> string list" where
  "list_directories e [] executables = executables"
| "list_directories e (directory # dirs) executables =
     list_directories e dirs
       (if directory = [] then executables
        else case read_dir e (c_str directory) of
               None \<Rightarrow> executables
             | Some names \<Rightarrow> add_entries e directory names executables)"

definition get_path_executables :: "environ \<Rightarrow> string list" where
  "get_path_executables e =
     (case getenv e ''PATH'' of None \<Rightarrow> [] | Some path \<Rightarrow> list_directories e (getline_all CHR '':'' path) [])"


section \<open>Escapes of echo\<close>

fun process_echo_escapes :: "string \<Rightarrow> string" where
  "process_echo_escapes [] = []"
| "process_echo_escapes [c] = [c]"
| "process_echo_escapes (c # d # cs) =
     (if c = bslash then
        (if d = CHR ''n'' then newline # process_echo_escapes cs
         else if d = CHR ''t'' then tab # process_echo_escapes cs
         else if d = bslash then bslash # process_echo_escapes cs
         else c # process_echo_escapes (d # cs))
      else c # process_echo_escapes (d # cs))"


section \<open>Writing a buffer\<close>

partial_function (option) write_loop :: "kernel \<Rightarrow> int \<Rightarrow> string \<Rightarrow> nat \<Rightarrow> trace \<Rightarrow> (bool \<times> trace) option" where
  "write_loop K fd data written h =
     (if written < length data then
        (let (r, h1) = syscall K (Write fd (drop written data)) h
         in if ret r < 0 then
              (if errno r = EINTR then write_loop K fd data written h1 else Some (False, h1))
            else write_loop K fd data (written + nat (ret r)) h1)
      else Some (True, h))"

declare write_loop.simps [code]

definition write_all :: "kernel \<Rightarrow> int \<Rightarrow> string \<Rightarrow> trace \<Rightarrow> (bool \<times> trace) option" where
  "write_all K fd data h = write_loop K fd data 0 h"


section \<open>Lemmas on the search\<close>

lemma search_path_Nil_iff:
  "search_path e c dirs = [] \<longleftrightarrow>
     (\<forall>d \<in> set dirs. \<not> runnable e ((if d = [] then ''.'' else d) @ ''/'' @ c))"
  by (induction dirs) (auto simp: Let_def)

lemma search_path_first:
  assumes "search_path e c dirs = p" "p \<noteq> []"
  obtains pre d post where "dirs = pre @ d # post" "p = (if d = [] then ''.'' else d) @ ''/'' @ c" "runnable e p"
    "\<forall>q \<in> set pre. \<not> runnable e ((if q = [] then ''.'' else q) @ ''/'' @ c)"
  using assms
proof (induction dirs arbitrary: thesis)
  case (Cons d dirs)
  show ?case
  proof (cases "runnable e ((if d = [] then ''.'' else d) @ ''/'' @ c)")
    case True
    with Cons.prems show ?thesis by (intro Cons.prems(1) [of "[]" d dirs]) (auto simp: Let_def)
  next
    case False
    with Cons.prems have s: "search_path e c dirs = p" by (simp add: Let_def)
    obtain pre d' post where "dirs = pre @ d' # post" "p = (if d' = [] then ''.'' else d') @ ''/'' @ c"
      "runnable e p" "\<forall>q \<in> set pre. \<not> runnable e ((if q = [] then ''.'' else q) @ ''/'' @ c)"
      using Cons.IH [OF _ s Cons.prems(3)] by blast
    with False show ?thesis by (intro Cons.prems(1) [of "d # pre" d' post]) auto
  qed
qed simp

lemma add_entries_set:
  "set (add_entries e d names ex) =
     set ex \<union> {n \<in> set names. take 1 n \<noteq> ''.'' \<and> runnable e (d @ ''/'' @ n)}"
  by (induction names arbitrary: ex) auto

lemma add_entries_distinct: "distinct ex \<Longrightarrow> distinct (add_entries e d names ex)"
  by (induction names arbitrary: ex) auto

definition listed_in :: "environ \<Rightarrow> string \<Rightarrow> string \<Rightarrow> bool" where
  "listed_in e d n \<longleftrightarrow> d \<noteq> [] \<and> take 1 n \<noteq> ''.'' \<and> runnable e (d @ ''/'' @ n) \<and>
     (\<exists>names. read_dir e (c_str d) = Some names \<and> n \<in> set names)"

lemma list_directories_set:
  "set (list_directories e dirs ex) = set ex \<union> {n. \<exists>d \<in> set dirs. listed_in e d n}"
proof (induction dirs arbitrary: ex)
  case (Cons d dirs)
  then show ?case by (auto simp: listed_in_def add_entries_set split: option.splits)
qed simp

lemma list_directories_distinct: "distinct ex \<Longrightarrow> distinct (list_directories e dirs ex)"
  by (induction dirs arbitrary: ex) (auto simp: add_entries_distinct split: option.splits)

section \<open>Lemmas on the write loop\<close>

text \<open>The bytes that the kernel accepted during the calls \<open>cs\<close> issued after \<open>h\<close>, in order.\<close>

fun delivered :: "kernel \<Rightarrow> trace \<Rightarrow> trace \<Rightarrow> string" where
  "delivered K h [] = []"
| "delivered K h (c # cs) =
     (case c of Write fd d \<Rightarrow> (if 0 \<le> ret (K h c) then take (nat (ret (K h c))) d else []) | _ \<Rightarrow> []) @
     delivered K (h @ [c]) cs"

lemma delivered_append: "delivered K h (as @ cs) = delivered K h as @ delivered K (h @ as) cs"
  by (induction "as" arbitrary: h) auto

text \<open>\<open>write\<close> never accepts more bytes than it is given.\<close>

definition write_bounded :: "kernel \<Rightarrow> bool" where
  "write_bounded K \<longleftrightarrow> (\<forall>h fd d. ret (K h (Write fd d)) \<le> int (length d))"

text \<open>\<open>write\<close> of a non-empty buffer makes progress, and after \<open>N\<close> calls it is no longer interrupted.\<close>

definition write_progress :: "kernel \<Rightarrow> nat \<Rightarrow> bool" where
  "write_progress K N \<longleftrightarrow>
     (\<forall>h fd d. d \<noteq> [] \<longrightarrow> ret (K h (Write fd d)) \<noteq> 0 \<and>
        (N \<le> length h \<longrightarrow> ret (K h (Write fd d)) < 0 \<longrightarrow> errno (K h (Write fd d)) \<noteq> EINTR))"

definition only_writes :: "int \<Rightarrow> trace \<Rightarrow> bool" where
  "only_writes fd cs \<longleftrightarrow> (\<forall>c \<in> set cs. \<exists>d. c = Write fd d)"

definition write_inv :: "kernel \<Rightarrow> int \<Rightarrow> string \<Rightarrow> trace \<Rightarrow> nat \<Rightarrow> trace \<Rightarrow> bool" where
  "write_inv K fd data h0 written h \<longleftrightarrow>
     (\<exists>cs. h = h0 @ cs \<and> only_writes fd cs \<and> written \<le> length data \<and> delivered K h0 cs = take written data)"

lemma write_inv_step:
  assumes "write_inv K fd data h0 written h" "write_bounded K"
    and "c = Write fd (drop written data)" "r = K h c"
  shows "ret r < 0 \<Longrightarrow> write_inv K fd data h0 written (h @ [c])"
    "0 \<le> ret r \<Longrightarrow> write_inv K fd data h0 (written + nat (ret r)) (h @ [c])"
proof -
  from assms(1) obtain cs where cs: "h = h0 @ cs" "only_writes fd cs" "written \<le> length data"
    "delivered K h0 cs = take written data" by (auto simp: write_inv_def)
  have w: "only_writes fd (cs @ [c])" using cs(2) assms(3) by (auto simp: only_writes_def)
  show "write_inv K fd data h0 written (h @ [c])" if "ret r < 0"
    using cs w that assms(3,4) unfolding write_inv_def
    by (intro exI [of _ "cs @ [c]"]) (simp add: delivered_append)
  have "ret r \<le> int (length data - written)"
    using assms(2) [unfolded write_bounded_def, rule_format, of h fd "drop written data"] assms(3,4)
    by (simp only: length_drop)
  then show "write_inv K fd data h0 (written + nat (ret r)) (h @ [c])" if "0 \<le> ret r"
    using cs w that assms(3,4) unfolding write_inv_def
    by (intro exI [of _ "cs @ [c]"]) (auto simp: delivered_append take_add)
qed

lemma write_loop_inv:
  assumes "write_loop K fd data written h = Some (ok, h')" "write_inv K fd data h0 written h" "write_bounded K"
  shows "\<exists>w. write_inv K fd data h0 w h' \<and> (ok \<longleftrightarrow> w = length data)"
proof -
  have "write_bounded K \<longrightarrow> write_inv K fd data h0 written h \<longrightarrow>
      (\<exists>w. write_inv K fd data h0 w (snd (ok, h')) \<and> (fst (ok, h') \<longleftrightarrow> w = length data))"
  proof (rule write_loop.raw_induct [where P = "\<lambda>K fd data written h r. write_bounded K \<longrightarrow>
        write_inv K fd data h0 written h \<longrightarrow> (\<exists>w. write_inv K fd data h0 w (snd r) \<and> (fst r \<longleftrightarrow> w = length data))",
        OF _ assms(1)], intro impI)
    fix f K fd data written h r
    assume IH: "\<And>K fd data written h r. f K fd data written h = Some r \<Longrightarrow> write_bounded K \<longrightarrow>
        write_inv K fd data h0 written h \<longrightarrow> (\<exists>w. write_inv K fd data h0 w (snd r) \<and> (fst r \<longleftrightarrow> w = length data))"
      and body: "(if written < length data then
          (let (q, h1) = syscall K (Write fd (drop written data)) h
           in if ret q < 0 then (if errno q = EINTR then f K fd data written h1 else Some (False, h1))
              else f K fd data (written + nat (ret q)) h1)
        else Some (True, h)) = Some r"
      and b: "write_bounded K" and inv: "write_inv K fd data h0 written h"
    define c where "c = Write fd (drop written data)"
    note step = write_inv_step [OF inv b c_def refl]
    consider "\<not> written < length data" "r = (True, h)"
      | "ret (K h c) < 0" "f K fd data written (h @ [c]) = Some r"
      | "written < length data" "ret (K h c) < 0" "r = (False, h @ [c])"
      | "0 \<le> ret (K h c)" "f K fd data (written + nat (ret (K h c))) (h @ [c]) = Some r"
    proof -
      have "(if written < length data then
          (if ret (K h c) < 0 then (if errno (K h c) = EINTR then f K fd data written (h @ [c]) else Some (False, h @ [c]))
           else f K fd data (written + nat (ret (K h c))) (h @ [c]))
        else Some (True, h)) = Some r"
        using body unfolding c_def syscall_def Let_def prod.case .
      then show thesis using that by (metis linorder_not_le option.inject)
    qed
    then show "\<exists>w. write_inv K fd data h0 w (snd r) \<and> (fst r \<longleftrightarrow> w = length data)"
    proof cases
      case 1
      with inv show ?thesis by (auto simp: write_inv_def intro!: exI [of _ written])
    next
      case 2
      from IH [OF 2(2)] b step(1) [OF 2(1)] show ?thesis by blast
    next
      case 3
      with step(1) [OF 3(2)] show ?thesis by (auto intro!: exI [of _ written])
    next
      case 4
      from IH [OF 4(2)] b step(2) [OF 4(1)] show ?thesis by blast
    qed
  qed
  with assms(2,3) show ?thesis by simp
qed

lemma write_loop_returns:
  assumes "write_progress K N"
  shows "\<exists>r. write_loop K fd data written h = Some r"
proof (induction "(N - length h) + (length data - written)" arbitrary: written h rule: less_induct)
  case less
  show ?case
  proof (cases "written < length data")
    case False
    then show ?thesis by (subst write_loop.simps) auto
  next
    case True
    define c where "c = Write fd (drop written data)"
    have p: "ret (K h c) \<noteq> 0" "N \<le> length h \<Longrightarrow> ret (K h c) < 0 \<Longrightarrow> errno (K h c) \<noteq> EINTR"
      using assms True by (auto simp: write_progress_def c_def)
    have "\<exists>r. write_loop K fd data (written + nat (ret (K h c))) (h @ [c]) = Some r" if "\<not> ret (K h c) < 0"
      using that p(1) True by (intro less) simp
    moreover have "\<exists>r. write_loop K fd data written (h @ [c]) = Some r"
      if "ret (K h c) < 0" "errno (K h c) = EINTR"
    proof -
      have "\<not> N \<le> length h" using that p(2) by blast
      then show ?thesis by (intro less) simp
    qed
    ultimately show ?thesis
      using True by (subst write_loop.simps) (auto simp: syscall_def simp flip: c_def)
  qed
qed

section \<open>Properties\<close>

text \<open>What POSIX asks of a file that can be run, and the place of a command in a directory of \<open>PATH\<close>.\<close>

definition usable :: "environ \<Rightarrow> string \<Rightarrow> bool" where
  "usable e path \<longleftrightarrow> stat_kind e (c_str path) = Some Regular \<and> access_x e (c_str path)"

fun place_in :: "string \<Rightarrow> string \<Rightarrow> string" where
  "place_in [] command = CHR ''.'' # CHR ''/'' # command"
| "place_in (c # cs) command = c # cs @ CHR ''/'' # command"

lemma place_in_eq: "(if d = [] then ''.'' else d) @ ''/'' @ command = place_in d command"
  by (cases d) simp_all

lemma runnable_usable: "runnable e = usable e"
  by (simp add: runnable_def usable_def fun_eq_iff)

lemma search_path_places:
  "search_path e command [] = []"
  "search_path e command (d # dirs) = (if usable e (place_in d command) then place_in d command else search_path e command dirs)"
  by (simp_all add: Let_def flip: place_in_eq runnable_usable)

lemma search_path_skips:
  "\<forall>d' \<in> set pre. \<not> usable e (place_in d' command) \<Longrightarrow> search_path e command (pre @ dirs) = search_path e command dirs"
  by (induction pre) (simp_all add: search_path_places del: search_path.simps)

lemma place_in_not_Nil [simp]: "place_in d command \<noteq> []"
  by (cases d) simp_all

text \<open>
  C30. The search for a command finds the right file. Let \<open>PATH\<close> be a list of directories separated by colons (the last
  one not empty), where an empty directory means the current one. A name without a slash is found as \<open>p\<close> precisely
  if \<open>p\<close> is the place of the command in some directory and a regular file with execute permission, and no
  directory before it has such a file; nothing is found precisely if no directory has one. A name with a
  slash is found as itself precisely if it is such a file.
\<close>

theorem find_executable_first:
  assumes "getenv e ''PATH'' = Some (joined CHR '':'' dirs)" "\<forall>d \<in> set dirs. CHR '':'' \<notin> set d" "dirs \<noteq> []" "last dirs \<noteq> []"
  shows "if CHR ''/'' \<in> set command then find_executable e command = (if usable e command then command else [])
    else (find_executable e command = [] \<longleftrightarrow> (\<forall>d \<in> set dirs. \<not> usable e (place_in d command))) \<and>
      (\<forall>p. p \<noteq> [] \<longrightarrow> (find_executable e command = p \<longleftrightarrow>
         (\<exists>pre d post. dirs = pre @ d # post \<and> p = place_in d command \<and> usable e p \<and>
            (\<forall>d' \<in> set pre. \<not> usable e (place_in d' command)))))"
proof (cases "CHR ''/'' \<in> set command")
  case True
  then show ?thesis by (simp add: find_executable_def runnable_def usable_def)
next
  case False
  have "getline_all CHR '':'' (joined CHR '':'' dirs) = dirs" using assms by (intro getline_all_joined) (auto simp: list_all_iff)
  with False assms(1) have f: "find_executable e command = search_path e command dirs" by (simp add: find_executable_def)
  note none = search_path_Nil_iff [of e command dirs, unfolded place_in_eq runnable_usable]
  have first: "search_path e command dirs = p \<longleftrightarrow> (\<exists>pre d post. dirs = pre @ d # post \<and> p = place_in d command \<and> usable e p \<and>
      (\<forall>d' \<in> set pre. \<not> usable e (place_in d' command)))" if "p \<noteq> []" for p
  proof
    assume "search_path e command dirs = p"
    from search_path_first [OF this that] show "\<exists>pre d post. dirs = pre @ d # post \<and> p = place_in d command \<and> usable e p \<and>
        (\<forall>d' \<in> set pre. \<not> usable e (place_in d' command))" unfolding place_in_eq runnable_usable by blast
  qed (auto simp: search_path_skips search_path_places simp del: search_path.simps)
  show ?thesis using False f none first by simp
qed

text \<open>
  C31. Completion and execution agree: the names offered from the directories of \<open>PATH\<close> are
  distinct, do not start with a dot, and each of them (a directory entry has no slash) is found
  when it is run.
\<close>

theorem path_executables_found:
  assumes "name \<in> set (get_path_executables e)" "CHR ''/'' \<notin> set name"
  shows "runnable e (find_executable e name) \<and> take 1 name \<noteq> ''.'' \<and> distinct (get_path_executables e)"
proof -
  obtain path where path: "getenv e ''PATH'' = Some path"
    using assms(1) by (cases "getenv e ''PATH''") (auto simp: get_path_executables_def)
  then obtain d where d: "d \<in> set (getline_all CHR '':'' path)" "listed_in e d name"
    using assms(1) by (auto simp: get_path_executables_def list_directories_set)
  then have ne: "search_path e name (getline_all CHR '':'' path) \<noteq> []"
    by (auto simp: search_path_Nil_iff listed_in_def)
  have "runnable e (search_path e name (getline_all CHR '':'' path))"
    by (rule search_path_first [OF refl ne]) metis
  with assms(2) d path show ?thesis
    by (simp add: find_executable_def listed_in_def get_path_executables_def list_directories_distinct)
qed

definition demo_environ :: environ where
  "demo_environ =
     \<lparr>getenv = (\<lambda>v. if v = ''PATH'' then Some ''/usr/local/bin:/bin'' else if v = ''HOME'' then Some ''/root'' else None),
      stat_kind = (\<lambda>p. if p = ''/bin/ls'' \<or> p = ''/bin/cat'' then Some Regular else if p = ''/bin'' then Some Directory else None),
      access_x = (\<lambda>p. True),
      read_dir = (\<lambda>d. if d = ''/bin'' then Some [''.'', ''..'', ''ls'', ''cat''] else None),
      strerror = (\<lambda>n. ''error '' @ to_string n)\<rparr>"

theorem find_executable_first_witness:
  "find_executable demo_environ ''cat'' = ''/bin/cat'' \<and> \<not> usable demo_environ (place_in ''/usr/local/bin'' ''cat'')"
proof -
  have "getenv demo_environ ''PATH'' = Some (joined CHR '':'' [''/usr/local/bin'', ''/bin''])" by code_simp
  note first = find_executable_first [OF this, of "''cat''"]
  have u: "usable demo_environ (place_in ''/bin'' ''cat'')" "\<not> usable demo_environ (place_in ''/usr/local/bin'' ''cat'')"
    "place_in ''/bin'' ''cat'' = ''/bin/cat''" by code_simp+
  have "\<exists>pre d post. [''/usr/local/bin'', ''/bin''] = pre @ d # post \<and> ''/bin/cat'' = place_in d ''cat'' \<and> usable demo_environ ''/bin/cat'' \<and>
      (\<forall>d' \<in> set pre. \<not> usable demo_environ (place_in d' ''cat''))"
    using u by (intro exI [of _ "[''/usr/local/bin'']"] exI [of _ "''/bin''"] exI [of _ "[]"]) simp
  with first u(2) show ?thesis by simp
qed

theorem path_executables_found_witness:
  "get_path_executables demo_environ = [''ls'', ''cat''] \<and>
   runnable demo_environ (find_executable demo_environ ''cat'') \<and> find_executable demo_environ ''cat'' = ''/bin/cat''"
proof -
  have p: "get_path_executables demo_environ = [''ls'', ''cat'']" "find_executable demo_environ ''cat'' = ''/bin/cat''"
    by code_simp+
  with path_executables_found [of "''cat''" demo_environ] show ?thesis by simp
qed

text \<open>Writing a text with the escapes that \<open>echo\<close> understands.\<close>

fun echo_escape :: "string \<Rightarrow> string" where
  "echo_escape [] = []"
| "echo_escape (c # cs) =
     (if c = newline then [bslash, CHR ''n''] else if c = tab then [bslash, CHR ''t'']
      else if c = bslash then [bslash, bslash] else [c]) @ echo_escape cs"

lemma process_echo_plain:
  "c \<noteq> bslash \<Longrightarrow> process_echo_escapes (c # cs) = c # process_echo_escapes cs"
  by (cases cs) simp_all

text \<open>
  \<open>echo\<close> can print any text: escaping newlines, tabs and backslashes and then processing the
  escapes gives the text back; a text without a backslash is printed as it is.
\<close>

lemma echo_escapes_roundtrip:
  "process_echo_escapes (echo_escape s) = s \<and> (bslash \<notin> set s \<longrightarrow> process_echo_escapes s = s)"
proof
  show "process_echo_escapes (echo_escape s) = s" by (induction s) (auto simp: process_echo_plain)
  show "bslash \<notin> set s \<longrightarrow> process_echo_escapes s = s" by (induction s) (auto simp: process_echo_plain)
qed

lemma echo_escapes_roundtrip_witness: "process_echo_escapes ''a b'' = ''a b''"
  using echo_escapes_roundtrip [of "''a b''"] by simp

text \<open>
  C32. Writing a buffer is complete and in order: on a kernel whose \<open>write\<close> accepts at most what it
  is given, a successful \<open>write_all\<close> has delivered exactly the buffer, over however many partial
  or interrupted writes, and a failed one has delivered a proper prefix; on a kernel whose
  \<open>write\<close> makes progress it always returns.
\<close>

theorem write_all_complete:
  assumes "write_bounded K"
  shows "(write_all K fd data h = Some (ok, h') \<longrightarrow>
      (\<exists>cs. h' = h @ cs \<and> only_writes fd cs \<and>
         (if ok then delivered K h cs = data else strict_prefix (delivered K h cs) data))) \<and>
    (write_progress K N \<longrightarrow> (\<exists>r. write_all K fd data h = Some r))"
proof (intro conjI impI)
  assume "write_all K fd data h = Some (ok, h')"
  then have "write_loop K fd data 0 h = Some (ok, h')" by (simp add: write_all_def)
  moreover have "write_inv K fd data h 0 h" by (simp add: write_inv_def only_writes_def)
  ultimately obtain w where "write_inv K fd data h w h'" "ok \<longleftrightarrow> w = length data"
    using write_loop_inv assms by blast
  then obtain cs where "h' = h @ cs" "only_writes fd cs" "w \<le> length data" "delivered K h cs = take w data"
    by (auto simp: write_inv_def)
  moreover have "strict_prefix (take w data) data" if "w < length data"
    using that by (metis take_is_prefix append_take_drop_id drop_eq_Nil linorder_not_le self_append_conv strict_prefix_def)
  ultimately show "\<exists>cs. h' = h @ cs \<and> only_writes fd cs \<and>
         (if ok then delivered K h cs = data else strict_prefix (delivered K h cs) data)"
    using \<open>ok \<longleftrightarrow> w = length data\<close> by auto
qed (use write_loop_returns in \<open>unfold write_all_def, blast\<close>)

text \<open>A kernel that is interrupted on the first write and then accepts two bytes at a time.\<close>

definition slow_kernel :: kernel where
  "slow_kernel h c =
     (case c of Write fd d \<Rightarrow>
        if h = [] then reply_ok\<lparr>ret := -1, errno := EINTR\<rparr> else reply_ok\<lparr>ret := int (min 2 (length d))\<rparr>
      | _ \<Rightarrow> reply_ok)"

theorem write_all_complete_witness:
  "\<exists>cs. write_all slow_kernel 1 ''hello'' [] = Some (True, cs) \<and> delivered slow_kernel [] cs = ''hello'' \<and> length cs = 4"
proof -
  have "case write_all slow_kernel 1 ''hello'' [] of Some (ok, cs) \<Rightarrow> ok \<and> length cs = 4 | None \<Rightarrow> False" by code_simp
  then obtain cs where w: "write_all slow_kernel 1 ''hello'' [] = Some (True, cs)" "length cs = 4"
    by (auto split: option.splits)
  moreover have "write_bounded slow_kernel" by (simp add: write_bounded_def slow_kernel_def reply_ok_def)
  ultimately show ?thesis using write_all_complete [of slow_kernel 1 "''hello''" "[]" True cs 1] by auto
qed

end
