(* ===== verification/Lexer.thy ===== *)
theory Lexer
  imports Prelude
begin

text \<open>
  The lexer of \<open>src/lexer.cpp\<close>: tokens with their source positions, the word buffer and quote
  flags as an explicit state, and the main loop as a recursion over the unread input.
\<close>

section \<open>Tokens\<close>

datatype TokenType =
    Word | Pipe | AndIf | Background | OrIf | Semicolon
  | RedirectIn | RedirectOut | RedirectAppend | RedirectErr | RedirectErrAppend | End

record Token =
  tok_type :: TokenType
  tok_text :: string
  tok_position :: nat

record LexResult =
  lex_tokens :: "Token list"
  lex_error :: string

definition lex_ok :: "LexResult \<Rightarrow> bool" where
  "lex_ok r \<longleftrightarrow> lex_error r = []"

abbreviation mk_token :: "TokenType \<Rightarrow> string \<Rightarrow> nat \<Rightarrow> Token" where
  "mk_token ty txt pos \<equiv> \<lparr>tok_type = ty, tok_text = txt, tok_position = pos\<rparr>"


section \<open>The lexer state\<close>

record LexState =
  ls_tokens :: "Token list"
  ls_current :: string
  ls_word_start :: nat
  ls_in_single :: bool
  ls_in_double :: bool
  ls_word_started :: bool

definition lex_init :: LexState where
  "lex_init = \<lparr>ls_tokens = [], ls_current = [], ls_word_start = 0, ls_in_single = False,
     ls_in_double = False, ls_word_started = False\<rparr>"

definition flush_word :: "LexState \<Rightarrow> LexState" where
  "flush_word st =
     (if ls_word_started st
      then st\<lparr>ls_tokens := ls_tokens st @ [mk_token Word (ls_current st) (ls_word_start st)],
              ls_current := [], ls_word_started := False\<rparr>
      else st)"

definition begin_word_if_needed :: "nat \<Rightarrow> LexState \<Rightarrow> LexState" where
  "begin_word_if_needed position st =
     (if ls_word_started st then st
      else st\<lparr>ls_word_start := position, ls_word_started := True\<rparr>)"

definition append_current :: "string \<Rightarrow> LexState \<Rightarrow> LexState" where
  "append_current s st = st\<lparr>ls_current := ls_current st @ s\<rparr>"

text \<open>\<open>emit_operator (type, length)\<close> at position \<open>i\<close>, where \<open>inp\<close> is the input from \<open>i\<close> on.\<close>

definition emit_operator :: "TokenType \<Rightarrow> nat \<Rightarrow> nat \<Rightarrow> string \<Rightarrow> LexState \<Rightarrow> LexState" where
  "emit_operator ty len i inp st =
     (let st' = flush_word st
      in st'\<lparr>ls_tokens := ls_tokens st' @ [mk_token ty (take len inp) i]\<rparr>)"

text \<open>Which operator starts here, and how long it is; a digit prefix only counts between words.\<close>

definition next_is :: "char \<Rightarrow> string \<Rightarrow> bool" where
  "next_is c s \<longleftrightarrow> s \<noteq> [] \<and> hd s = c"

definition operator_at :: "bool \<Rightarrow> char \<Rightarrow> string \<Rightarrow> (TokenType \<times> nat) option" where
  "operator_at started c rest =
     (if c = CHR ''&'' \<and> next_is (CHR ''&'') rest then Some (AndIf, 2)
      else if c = CHR ''&'' then Some (Background, 1)
      else if c = CHR ''|'' \<and> next_is (CHR ''|'') rest then Some (OrIf, 2)
      else if c = CHR ''|'' then Some (Pipe, 1)
      else if c = CHR '';'' then Some (Semicolon, 1)
      else if c = CHR ''<'' then Some (RedirectIn, 1)
      else if c = CHR ''2'' \<and> \<not> started \<and> next_is (CHR ''>'') rest then
        (if next_is (CHR ''>'') (tl rest) then Some (RedirectErrAppend, 3) else Some (RedirectErr, 2))
      else if c = CHR ''1'' \<and> \<not> started \<and> next_is (CHR ''>'') rest then
        (if next_is (CHR ''>'') (tl rest) then Some (RedirectAppend, 3) else Some (RedirectOut, 2))
      else if c = CHR ''>'' then
        (if next_is (CHR ''>'') rest then Some (RedirectAppend, 2) else Some (RedirectOut, 1))
      else None)"

text \<open>What a backslash followed by \<open>next\<close> adds to the word outside single quotes.\<close>

definition escaped :: "bool \<Rightarrow> char \<Rightarrow> string" where
  "escaped dq nxt =
     (if dq
      then (if nxt = dquote \<or> nxt = bslash \<or> nxt = CHR ''$'' \<or> nxt = CHR 0x60 \<or> nxt = newline
            then [nxt] else [bslash, nxt])
      else [nxt])"


section \<open>The main loop\<close>

text \<open>\<open>Inl\<close> is the early return inside the loop, with the tokens that were emitted before it.\<close>

function lex_loop :: "LexState \<Rightarrow> nat \<Rightarrow> string \<Rightarrow> LexResult + LexState" where
  "lex_loop st i [] = Inr st"
| "lex_loop st i (c # rest) =
     (if c = bslash then
        (let st1 = begin_word_if_needed i st
         in if ls_in_single st1 then lex_loop (append_current [c] st1) (i + 1) rest
            else (case rest of
                    [] \<Rightarrow> Inl \<lparr>lex_tokens = ls_tokens st1, lex_error = ''syntax error: trailing escape''\<rparr>
                  | nxt # rest' \<Rightarrow>
                      lex_loop (append_current (escaped (ls_in_double st1) nxt) st1) (i + 2) rest'))
      else if c = squote \<and> \<not> ls_in_double st then
        (let st1 = begin_word_if_needed i st
         in lex_loop (st1\<lparr>ls_in_single := \<not> ls_in_single st1\<rparr>) (i + 1) rest)
      else if c = dquote \<and> \<not> ls_in_single st then
        (let st1 = begin_word_if_needed i st
         in lex_loop (st1\<lparr>ls_in_double := \<not> ls_in_double st1\<rparr>) (i + 1) rest)
      else if ls_in_single st \<or> ls_in_double st then lex_loop (append_current [c] st) (i + 1) rest
      else if isspace c then lex_loop (flush_word st) (i + 1) rest
      else (case operator_at (ls_word_started st) c rest of
              Some (ty, len) \<Rightarrow>
                lex_loop (emit_operator ty len i (c # rest) st) (i + len) (drop (len - 1) rest)
            | None \<Rightarrow> lex_loop (append_current [c] (begin_word_if_needed i st)) (i + 1) rest))"
  by pat_completeness auto
termination
  by (relation "measure (\<lambda>(st, i, s). length s)") auto

definition lex :: "string \<Rightarrow> LexResult" where
  "lex input =
     (case lex_loop lex_init 0 input of
        Inl r \<Rightarrow> r
      | Inr st \<Rightarrow>
          if ls_in_single st then
            \<lparr>lex_tokens = ls_tokens st, lex_error = ''syntax error: unmatched single quote''\<rparr>
          else if ls_in_double st then
            \<lparr>lex_tokens = ls_tokens st, lex_error = ''syntax error: unmatched double quote''\<rparr>
          else
            \<lparr>lex_tokens = ls_tokens (flush_word st) @ [mk_token End [] (length input)],
             lex_error = []\<rparr>)"


declare lex_loop.simps(2) [simp del]


section \<open>Primitive steps\<close>

lemmas lex_primitive_defs =
  flush_word_def begin_word_if_needed_def append_current_def emit_operator_def Let_def

lemma flush_word_idem [simp]: "flush_word (flush_word st) = flush_word st"
  by (simp add: flush_word_def)

lemma flush_word_started [simp]: "\<not> ls_word_started (flush_word st)"
  by (simp add: flush_word_def)

lemma flush_word_quotes [simp]:
  "ls_in_single (flush_word st) = ls_in_single st" "ls_in_double (flush_word st) = ls_in_double st"
  by (simp_all add: flush_word_def)

lemma begin_word_quotes [simp]:
  "ls_in_single (begin_word_if_needed i st) = ls_in_single st"
  "ls_in_double (begin_word_if_needed i st) = ls_in_double st"
  by (simp_all add: begin_word_if_needed_def)

lemma begin_word_started [simp]:
  "ls_word_started st \<Longrightarrow> begin_word_if_needed i st = st"
  by (simp add: begin_word_if_needed_def)

lemma operator_at_length:
  "operator_at b c rest = Some (ty, len) \<Longrightarrow> 1 \<le> len \<and> len \<le> Suc (length rest)"
  by (cases rest; cases "tl rest") (auto simp: operator_at_def next_is_def split: if_splits)

lemma operator_at_type: "operator_at b c rest = Some (ty, len) \<Longrightarrow> ty \<noteq> Word \<and> ty \<noteq> End"
  by (auto simp: operator_at_def split: if_splits)

lemma operator_at_blank:
  assumes "isspace b"
  shows "operator_at st c (rest @ b # tail) = operator_at st c rest"
proof -
  have nb: "b \<noteq> CHR ''&''" "b \<noteq> CHR ''|''" "b \<noteq> CHR ''>''"
    using assms by (auto simp: isspace_def)
  consider "rest = []" | x where "rest = [x]" | x y zs where "rest = x # y # zs"
    by (cases rest; cases "tl rest") auto
  then show ?thesis
    using nb by cases (simp_all add: operator_at_def next_is_def)
qed

text \<open>The loop body, one equation per branch.\<close>

abbreviation special_here :: "LexState \<Rightarrow> char \<Rightarrow> bool" where
  "special_here st c \<equiv>
     c = bslash \<or> (c = squote \<and> \<not> ls_in_double st) \<or> (c = dquote \<and> \<not> ls_in_single st)"

lemma lex_step_bslash_quoted:
  "ls_in_single st \<Longrightarrow>
     lex_loop st i (bslash # rest) = lex_loop (append_current [bslash] (begin_word_if_needed i st)) (i + 1) rest"
  by (simp add: lex_loop.simps(2))

lemma lex_step_escape:
  "\<not> ls_in_single st \<Longrightarrow>
     lex_loop st i (bslash # nxt # rest) =
       lex_loop (append_current (escaped (ls_in_double st) nxt) (begin_word_if_needed i st)) (i + 2) rest"
  by (simp add: lex_loop.simps(2))

lemma lex_step_trailing:
  "\<not> ls_in_single st \<Longrightarrow>
     lex_loop st i [bslash] =
       Inl \<lparr>lex_tokens = ls_tokens st, lex_error = ''syntax error: trailing escape''\<rparr>"
  by (simp add: lex_loop.simps(2) begin_word_if_needed_def)

lemma lex_step_squote:
  "\<not> ls_in_double st \<Longrightarrow>
     lex_loop st i (squote # rest) =
       lex_loop ((begin_word_if_needed i st)\<lparr>ls_in_single := \<not> ls_in_single st\<rparr>) (i + 1) rest"
  by (simp add: lex_loop.simps(2))

lemma lex_step_dquote:
  "\<not> ls_in_single st \<Longrightarrow>
     lex_loop st i (dquote # rest) =
       lex_loop ((begin_word_if_needed i st)\<lparr>ls_in_double := \<not> ls_in_double st\<rparr>) (i + 1) rest"
  by (simp add: lex_loop.simps(2))

lemma lex_step_quoted:
  "\<not> special_here st c \<Longrightarrow> ls_in_single st \<or> ls_in_double st \<Longrightarrow>
     lex_loop st i (c # rest) = lex_loop (append_current [c] st) (i + 1) rest"
  by (auto simp: lex_loop.simps(2))

lemma lex_step_space:
  "isspace c \<Longrightarrow> \<not> ls_in_single st \<Longrightarrow> \<not> ls_in_double st \<Longrightarrow>
     lex_loop st i (c # rest) = lex_loop (flush_word st) (i + 1) rest"
  by (auto simp: lex_loop.simps(2) isspace_def)

lemma lex_step_operator:
  "\<not> special_here st c \<Longrightarrow> \<not> isspace c \<Longrightarrow> \<not> ls_in_single st \<Longrightarrow> \<not> ls_in_double st \<Longrightarrow>
     operator_at (ls_word_started st) c rest = Some (ty, len) \<Longrightarrow>
     lex_loop st i (c # rest) =
       lex_loop (emit_operator ty len i (c # rest) st) (i + len) (drop (len - 1) rest)"
  by (auto simp: lex_loop.simps(2))

lemma lex_step_plain:
  "\<not> special_here st c \<Longrightarrow> \<not> isspace c \<Longrightarrow> \<not> ls_in_single st \<Longrightarrow> \<not> ls_in_double st \<Longrightarrow>
     operator_at (ls_word_started st) c rest = None \<Longrightarrow>
     lex_loop st i (c # rest) = lex_loop (append_current [c] (begin_word_if_needed i st)) (i + 1) rest"
  by (auto simp: lex_loop.simps(2))

text \<open>An induction rule with one case per branch of the loop body.\<close>

lemma lex_branches [case_names bslash_quoted trailing escape squote dquote quoted space operator plain]:
  obtains "c = bslash" "ls_in_single st"
  | "c = bslash" "\<not> ls_in_single st" "rest = []"
  | nxt rest' where "c = bslash" "\<not> ls_in_single st" "rest = nxt # rest'"
  | "c = squote" "\<not> ls_in_double st"
  | "c = dquote" "\<not> ls_in_single st"
  | "\<not> special_here st c" "ls_in_single st \<or> ls_in_double st"
  | "isspace c" "\<not> ls_in_single st" "\<not> ls_in_double st" "\<not> special_here st c"
  | ty len where "\<not> special_here st c" "\<not> isspace c" "\<not> ls_in_single st" "\<not> ls_in_double st"
      "operator_at (ls_word_started st) c rest = Some (ty, len)"
  | "\<not> special_here st c" "\<not> isspace c" "\<not> ls_in_single st" "\<not> ls_in_double st"
      "operator_at (ls_word_started st) c rest = None"
  by (cases "operator_at (ls_word_started st) c rest"; cases rest) auto

lemma lex_loop_induct [case_names Nil bslash_quoted trailing escape squote dquote quoted space operator plain]:
  assumes "\<And>st i. P st i []"
    and "\<And>st i rest. ls_in_single st \<Longrightarrow>
      P (append_current [bslash] (begin_word_if_needed i st)) (i + 1) rest \<Longrightarrow> P st i (bslash # rest)"
    and "\<And>st i. \<not> ls_in_single st \<Longrightarrow> P st i [bslash]"
    and "\<And>st i nxt rest. \<not> ls_in_single st \<Longrightarrow>
      P (append_current (escaped (ls_in_double st) nxt) (begin_word_if_needed i st)) (i + 2) rest \<Longrightarrow>
      P st i (bslash # nxt # rest)"
    and "\<And>st i rest. \<not> ls_in_double st \<Longrightarrow>
      P ((begin_word_if_needed i st)\<lparr>ls_in_single := \<not> ls_in_single st\<rparr>) (i + 1) rest \<Longrightarrow> P st i (squote # rest)"
    and "\<And>st i rest. \<not> ls_in_single st \<Longrightarrow>
      P ((begin_word_if_needed i st)\<lparr>ls_in_double := \<not> ls_in_double st\<rparr>) (i + 1) rest \<Longrightarrow> P st i (dquote # rest)"
    and "\<And>st i c rest. \<not> special_here st c \<Longrightarrow> ls_in_single st \<or> ls_in_double st \<Longrightarrow>
      P (append_current [c] st) (i + 1) rest \<Longrightarrow> P st i (c # rest)"
    and "\<And>st i c rest. isspace c \<Longrightarrow> \<not> ls_in_single st \<Longrightarrow> \<not> ls_in_double st \<Longrightarrow>
      P (flush_word st) (i + 1) rest \<Longrightarrow> P st i (c # rest)"
    and "\<And>st i c rest ty len. \<not> special_here st c \<Longrightarrow> \<not> isspace c \<Longrightarrow>
      \<not> ls_in_single st \<Longrightarrow> \<not> ls_in_double st \<Longrightarrow>
      operator_at (ls_word_started st) c rest = Some (ty, len) \<Longrightarrow>
      P (emit_operator ty len i (c # rest) st) (i + len) (drop (len - 1) rest) \<Longrightarrow> P st i (c # rest)"
    and "\<And>st i c rest. \<not> special_here st c \<Longrightarrow> \<not> isspace c \<Longrightarrow>
      \<not> ls_in_single st \<Longrightarrow> \<not> ls_in_double st \<Longrightarrow> operator_at (ls_word_started st) c rest = None \<Longrightarrow>
      P (append_current [c] (begin_word_if_needed i st)) (i + 1) rest \<Longrightarrow> P st i (c # rest)"
  shows "P st i s"
proof (induction "length s" arbitrary: st i s rule: less_induct)
  case less
  show ?case
  proof (cases s)
    case Nil
    then show ?thesis using assms(1) by simp
  next
    case (Cons c rest)
    have IH: "P st' j s'" if "length s' \<le> length rest" for st' j s'
      using less that Cons by simp
    have "P st i (c # rest)"
    proof (rule lex_branches [of c st _ rest])
      show "P st i (c # rest)" if "c = bslash" "ls_in_single st"
        using that assms(2) IH by simp
      show "P st i (c # rest)" if "c = bslash" "\<not> ls_in_single st" "rest = []"
        using that assms(3) by simp
      show "P st i (c # rest)" if "c = bslash" "\<not> ls_in_single st" "rest = nxt # rest'" for nxt rest'
        using that assms(4) IH by simp
      show "P st i (c # rest)" if "c = squote" "\<not> ls_in_double st"
        using that assms(5) IH by simp
      show "P st i (c # rest)" if "c = dquote" "\<not> ls_in_single st"
        using that assms(6) IH by simp
      show "P st i (c # rest)" if "\<not> special_here st c" "ls_in_single st \<or> ls_in_double st"
        using assms(7) [OF that IH] by simp
      show "P st i (c # rest)" if "isspace c" "\<not> ls_in_single st" "\<not> ls_in_double st" "\<not> special_here st c"
        using assms(8) [OF that(1-3) IH] by simp
      show "P st i (c # rest)" if "\<not> special_here st c" "\<not> isspace c" "\<not> ls_in_single st"
        "\<not> ls_in_double st" "operator_at (ls_word_started st) c rest = Some (ty, len)" for ty len
        using assms(9) [OF that IH] by simp
      show "P st i (c # rest)" if "\<not> special_here st c" "\<not> isspace c" "\<not> ls_in_single st"
        "\<not> ls_in_double st" "operator_at (ls_word_started st) c rest = None"
        using assms(10) [OF that IH] by simp
    qed
    with Cons show ?thesis by simp
  qed
qed

lemmas lex_steps = lex_step_bslash_quoted lex_step_trailing lex_step_escape lex_step_squote
  lex_step_dquote lex_step_quoted lex_step_space lex_step_operator lex_step_plain

lemma lex_ok_Inr:
  assumes "lex_ok (lex input)"
  obtains st where "lex_loop lex_init 0 input = Inr st" "\<not> ls_in_single st" "\<not> ls_in_double st"
    "lex_tokens (lex input) = ls_tokens (flush_word st) @ [mk_token End [] (length input)]"
proof -
  have err: "lex_error r \<noteq> []" if "lex_loop st i s = Inl r" for st i s r
    using that
    by (induction st i s rule: lex_loop_induct) (auto simp: lex_steps)
  show ?thesis
  proof (cases "lex_loop lex_init 0 input")
    case (Inl r)
    with assms err [OF Inl] show ?thesis by (simp add: lex_ok_def lex_def)
  next
    case (Inr st)
    with assms that [OF Inr] show ?thesis by (auto simp: lex_ok_def lex_def split: if_splits)
  qed
qed


section \<open>Invariants of the main loop\<close>

text \<open>
  A property that every primitive step keeps is kept by the whole loop. The steps are: extend or
  start a word, toggle a quote, flush a word at white space, emit an operator.
\<close>

locale lex_invariant =
  fixes inp :: string
    and I :: "nat \<Rightarrow> LexState \<Rightarrow> bool"
  assumes I_quoted: "I i st \<Longrightarrow> ls_in_single st \<or> ls_in_double st \<Longrightarrow> ls_word_started st"
    and I_word: "I i st \<Longrightarrow> i < j \<Longrightarrow> I j (append_current s (begin_word_if_needed i st))"
    and I_single: "I i st \<Longrightarrow> I (i + 1) ((begin_word_if_needed i st)\<lparr>ls_in_single := b\<rparr>)"
    and I_double: "I i st \<Longrightarrow> I (i + 1) ((begin_word_if_needed i st)\<lparr>ls_in_double := b\<rparr>)"
    and I_flush: "I i st \<Longrightarrow> \<not> ls_in_single st \<Longrightarrow> \<not> ls_in_double st \<Longrightarrow> I (i + 1) (flush_word st)"
    and I_operator: "I i st \<Longrightarrow> \<not> ls_in_single st \<Longrightarrow> \<not> ls_in_double st \<Longrightarrow>
      drop i inp = c # rest \<Longrightarrow> operator_at (ls_word_started st) c rest = Some (ty, len) \<Longrightarrow>
      I (i + len) (emit_operator ty len i (c # rest) st)"
begin

lemma loop_keeps:
  assumes "I i st" "drop i inp = s" "lex_loop st i s = Inr st'"
  shows "I (i + length s) st'"
  using assms
proof (induction st i s rule: lex_loop_induct)
  case (bslash_quoted st i rest)
  have "I (i + 1) (append_current [bslash] (begin_word_if_needed i st))"
    using bslash_quoted.prems(1) by (simp add: I_word)
  moreover have "drop (i + 1) inp = rest" using bslash_quoted.prems(2) by (simp add: drop_add_Cons)
  ultimately show ?case using bslash_quoted by (simp add: lex_steps)
next
  case (escape st i nxt rest)
  have "I (i + 2) (append_current (escaped (ls_in_double st) nxt) (begin_word_if_needed i st))"
    using escape.prems(1) by (simp add: I_word)
  moreover have "drop (i + 2) inp = rest"
    using escape.prems(2) by (simp add: drop_add_Cons numeral_2_eq_2)
  ultimately show ?case using escape by (simp add: lex_steps)
next
  case (squote st i rest)
  then show ?case using I_single [OF squote.prems(1)] by (simp add: lex_steps drop_add_Cons)
next
  case (dquote st i rest)
  then show ?case using I_double [OF dquote.prems(1)] by (simp add: lex_steps drop_add_Cons)
next
  case (quoted st i c rest)
  have "begin_word_if_needed i st = st" using I_quoted quoted by simp
  then have "I (i + 1) (append_current [c] st)"
    using I_word [OF quoted.prems(1), of "i + 1" "[c]"] by simp
  then show ?case using quoted by (simp add: lex_steps drop_add_Cons)
next
  case (space st i c rest)
  then show ?case using I_flush [OF space.prems(1)] by (simp add: lex_steps drop_add_Cons)
next
  case (operator st i c rest ty len)
  from operator_at_length [OF operator(5)] have len: "1 \<le> len" "len \<le> Suc (length rest)" by auto
  have "I (i + len) (emit_operator ty len i (c # rest) st)"
    using I_operator [OF operator.prems(1) operator(3,4) operator.prems(2) operator(5)] .
  moreover have "drop (i + len) inp = drop (len - 1) rest"
    using operator.prems(2) len by (simp add: drop_add_Cons)
  ultimately have "I (i + len + length (drop (len - 1) rest)) st'"
    using operator by (simp add: lex_steps)
  moreover have "i + len + length (drop (len - 1) rest) = i + length (c # rest)" using len by simp
  ultimately show ?case by simp
next
  case (plain st i c rest)
  then show ?case
    using I_word [OF plain.prems(1), of "i + 1" "[c]"] by (simp add: lex_steps drop_add_Cons)
qed (simp_all add: lex_steps)

lemma final_state:
  assumes "I 0 lex_init" "lex_loop lex_init 0 inp = Inr st"
  shows "I (length inp) st"
  using loop_keeps [OF assms(1) _ assms(2)] by simp

end


text \<open>
  The invariant of the loop at position \<open>i\<close> of the input: the emitted tokens have strictly
  increasing positions below \<open>i\<close>, and below the start of the word being built; an open quote
  belongs to a word; no end token has been emitted; operator tokens carry the input text found at
  their position.
\<close>

definition token_wf :: "string \<Rightarrow> Token \<Rightarrow> bool" where
  "token_wf inp t \<longleftrightarrow> tok_type t \<noteq> End \<and>
     (tok_type t \<noteq> Word \<longrightarrow>
        tok_text t \<noteq> [] \<and> tok_text t = take (length (tok_text t)) (drop (tok_position t) inp))"

definition positions_below :: "nat \<Rightarrow> Token list \<Rightarrow> bool" where
  "positions_below n ts \<longleftrightarrow> list_all (\<lambda>t. tok_position t < n) ts"

definition lex_inv :: "string \<Rightarrow> nat \<Rightarrow> LexState \<Rightarrow> bool" where
  "lex_inv inp i st \<longleftrightarrow>
     sorted_wrt (<) (map tok_position (ls_tokens st)) \<and>
     list_all (token_wf inp) (ls_tokens st) \<and>
     positions_below i (ls_tokens st) \<and>
     (ls_word_started st \<longrightarrow> ls_word_start st < i \<and> positions_below (ls_word_start st) (ls_tokens st)) \<and>
     (\<not> ls_word_started st \<longrightarrow> ls_current st = []) \<and>
     (ls_in_single st \<or> ls_in_double st \<longrightarrow> ls_word_started st)"

lemma positions_below_mono: "positions_below i ts \<Longrightarrow> i \<le> j \<Longrightarrow> positions_below j ts"
  by (auto simp: positions_below_def list_all_iff)

lemma positions_below_snoc:
  "positions_below n (ts @ [t]) \<longleftrightarrow> positions_below n ts \<and> tok_position t < n"
  by (simp add: positions_below_def)

lemma sorted_positions_snoc:
  "sorted_wrt (<) (map tok_position (ts @ [t])) \<longleftrightarrow>
     sorted_wrt (<) (map tok_position ts) \<and> positions_below (tok_position t) ts"
  by (auto simp: sorted_wrt_append positions_below_def list_all_iff)

lemma lex_inv_flush: "lex_inv inp i st \<Longrightarrow> \<not> ls_in_single st \<Longrightarrow> \<not> ls_in_double st \<Longrightarrow> lex_inv inp i (flush_word st)"
  by (auto simp: lex_inv_def flush_word_def sorted_positions_snoc positions_below_snoc token_wf_def
      simp del: map_append)

lemma lex_inv_init: "lex_inv inp 0 lex_init"
  by (simp add: lex_inv_def lex_init_def positions_below_def)

lemma lex_inv_mono: "lex_inv inp i st \<Longrightarrow> i \<le> j \<Longrightarrow> lex_inv inp j st"
  by (auto simp: lex_inv_def intro: positions_below_mono)

lemma lex_inv_emit:
  assumes "lex_inv inp i st" "\<not> ls_in_single st" "\<not> ls_in_double st" "drop i inp = c # rest"
    "operator_at (ls_word_started st) c rest = Some (ty, len)"
  shows "lex_inv inp (i + len) (emit_operator ty len i (c # rest) st)"
proof -
  let ?st = "flush_word st" and ?t = "mk_token ty (take len (c # rest)) i"
  from operator_at_length [OF assms(5)] have len: "1 \<le> len" "len \<le> Suc (length rest)" by auto
  from operator_at_type [OF assms(5)] have ty: "ty \<noteq> Word" "ty \<noteq> End" by auto
  have inv: "lex_inv inp i ?st" using lex_inv_flush [OF assms(1-3)] .
  have wf: "token_wf inp ?t" using assms(4) len ty by (cases len) (auto simp: token_wf_def min_def)
  have "lex_inv inp (i + len) (?st\<lparr>ls_tokens := ls_tokens ?st @ [?t]\<rparr>)"
    using inv wf len(1) assms(2,3)
    by (auto simp: lex_inv_def sorted_positions_snoc positions_below_snoc
        intro: positions_below_mono simp del: map_append)
  then show ?thesis by (simp add: emit_operator_def Let_def)
qed

interpretation lexinv: lex_invariant inp "lex_inv inp" for inp
proof unfold_locales
  fix i st assume "lex_inv inp i st" "ls_in_single st \<or> ls_in_double st"
  then show "ls_word_started st" by (simp add: lex_inv_def)
next
  fix i st j s assume "lex_inv inp i st" "i < (j::nat)"
  then show "lex_inv inp j (append_current s (begin_word_if_needed i st))"
    by (auto simp: lex_inv_def lex_primitive_defs intro: positions_below_mono)
next
  fix i st b assume "lex_inv inp i st"
  then show "lex_inv inp (i + 1) ((begin_word_if_needed i st)\<lparr>ls_in_single := b\<rparr>)"
    by (auto simp: lex_inv_def lex_primitive_defs intro: positions_below_mono)
next
  fix i st b assume "lex_inv inp i st"
  then show "lex_inv inp (i + 1) ((begin_word_if_needed i st)\<lparr>ls_in_double := b\<rparr>)"
    by (auto simp: lex_inv_def lex_primitive_defs intro: positions_below_mono)
next
  fix i st assume "lex_inv inp i st" "\<not> ls_in_single st" "\<not> ls_in_double st"
  then show "lex_inv inp (i + 1) (flush_word st)" by (auto intro: lex_inv_mono lex_inv_flush)
next
  fix i st c rest ty len
  assume "lex_inv inp i st" "\<not> ls_in_single st" "\<not> ls_in_double st" "drop i inp = c # rest"
    "operator_at (ls_word_started st) c rest = Some (ty, len)"
  then show "lex_inv inp (i + len) (emit_operator ty len i (c # rest) st)" by (rule lex_inv_emit)
qed

lemma lex_ok_body:
  assumes "lex_ok (lex input)"
  obtains st where "lex_inv input (length input) st" "\<not> ls_word_started st"
    "lex_tokens (lex input) = ls_tokens st @ [mk_token End [] (length input)]"
proof -
  obtain st where st: "lex_loop lex_init 0 input = Inr st" "\<not> ls_in_single st" "\<not> ls_in_double st"
    "lex_tokens (lex input) = ls_tokens (flush_word st) @ [mk_token End [] (length input)]"
    using lex_ok_Inr [OF assms] .
  have "lex_inv input (length input) st"
    by (rule lexinv.final_state [OF lex_inv_init st(1)])
  then have "lex_inv input (length input) (flush_word st)" using st(2,3) by (rule lex_inv_flush)
  with that st(4) show ?thesis by simp
qed


section \<open>Lexing a text piece by piece\<close>

text \<open>Lexing up to a blank and going on after it.\<close>

lemma lex_loop_blank:
  assumes "isspace b"
  shows "lex_loop st i a = Inr st' \<Longrightarrow> \<not> ls_in_single st' \<Longrightarrow> \<not> ls_in_double st' \<Longrightarrow>
    lex_loop st i (a @ b # tail) = lex_loop (flush_word st') (i + length a + 1) tail"
proof (induction st i a rule: lex_loop_induct)
  case (Nil st i)
  then show ?case using assms by (simp add: lex_step_space)
next
  case (operator st i c rest ty len)
  from operator_at_length [OF operator(5)] have len: "1 \<le> len" "len \<le> Suc (length rest)" by auto
  then have eq: "drop (len - 1) (rest @ b # tail) = drop (len - 1) rest @ b # tail"
    and tk: "take len (c # rest @ b # tail) = take len (c # rest)"
    by (cases len; simp)+
  have "emit_operator ty len i (c # rest @ b # tail) st = emit_operator ty len i (c # rest) st"
    by (simp add: emit_operator_def tk)
  moreover have "i + len + length (drop (len - 1) rest) = i + length (c # rest)" using len by simp
  ultimately show ?case
    using operator len eq by (simp add: lex_steps operator_at_blank [OF assms])
qed (simp_all add: lex_steps operator_at_blank [OF assms])

text \<open>Position-free view of tokens, and texts that lex to a given sequence wherever they start.\<close>

definition kind :: "Token \<Rightarrow> TokenType \<times> string" where
  "kind t = (tok_type t, tok_text t)"

definition between_words :: "LexState \<Rightarrow> bool" where
  "between_words st \<longleftrightarrow>
     \<not> ls_word_started st \<and> ls_current st = [] \<and> \<not> ls_in_single st \<and> \<not> ls_in_double st"

definition lexes_as :: "string \<Rightarrow> (TokenType \<times> string) list \<Rightarrow> bool" where
  "lexes_as s ks \<longleftrightarrow>
     (\<forall>st i. between_words st \<longrightarrow>
        (\<exists>st'. lex_loop st i s = Inr st' \<and> \<not> ls_in_single st' \<and> \<not> ls_in_double st' \<and>
           between_words (flush_word st') \<and>
           map kind (ls_tokens (flush_word st')) = map kind (ls_tokens st) @ ks))"

lemma between_words_init: "between_words lex_init"
  by (simp add: between_words_def lex_init_def)

lemma lexes_as_blank:
  assumes "lexes_as a ks" "lexes_as b ls" "isspace c"
  shows "lexes_as (a @ c # b) (ks @ ls)"
  unfolding lexes_as_def
proof (intro allI impI)
  fix st i assume "between_words st"
  then obtain st1 where st1: "lex_loop st i a = Inr st1" "\<not> ls_in_single st1" "\<not> ls_in_double st1"
    "between_words (flush_word st1)"
    "map kind (ls_tokens (flush_word st1)) = map kind (ls_tokens st) @ ks"
    using assms(1) by (auto simp: lexes_as_def)
  obtain st2 where st2: "lex_loop (flush_word st1) (i + length a + 1) b = Inr st2"
    "\<not> ls_in_single st2" "\<not> ls_in_double st2" "between_words (flush_word st2)"
    "map kind (ls_tokens (flush_word st2)) = map kind (ls_tokens (flush_word st1)) @ ls"
    using assms(2) st1(4) by (auto simp: lexes_as_def)
  show "\<exists>st'. lex_loop st i (a @ c # b) = Inr st' \<and> \<not> ls_in_single st' \<and> \<not> ls_in_double st' \<and>
      between_words (flush_word st') \<and>
      map kind (ls_tokens (flush_word st')) = map kind (ls_tokens st) @ ks @ ls"
    using st1 st2 lex_loop_blank [OF assms(3) st1(1-3)] by auto
qed

lemma lexes_as_lex:
  assumes "lexes_as s ks"
  shows "lex_ok (lex s)" "map kind (lex_tokens (lex s)) = ks @ [(End, [])]"
proof -
  obtain st' where "lex_loop lex_init 0 s = Inr st'" "\<not> ls_in_single st'" "\<not> ls_in_double st'"
    "map kind (ls_tokens (flush_word st')) = map kind (ls_tokens lex_init) @ ks"
    using assms between_words_init by (auto simp: lexes_as_def)
  then show "lex_ok (lex s)" "map kind (lex_tokens (lex s)) = ks @ [(End, [])]"
    by (simp_all add: lex_def lex_ok_def kind_def lex_init_def)
qed

lemma lexes_as_operator:
  assumes "operator_at False c rest = Some (ty, Suc (length rest))" "\<not> isspace c"
    "c \<noteq> bslash" "c \<noteq> squote" "c \<noteq> dquote"
  shows "lexes_as (c # rest) [(ty, c # rest)]"
  unfolding lexes_as_def
proof (intro allI impI)
  fix st i assume b: "between_words st"
  then have "lex_loop st i (c # rest) = Inr (emit_operator ty (Suc (length rest)) i (c # rest) st)"
    using assms by (simp add: lex_step_operator between_words_def)
  with b show "\<exists>st'. lex_loop st i (c # rest) = Inr st' \<and> \<not> ls_in_single st' \<and> \<not> ls_in_double st' \<and>
      between_words (flush_word st') \<and>
      map kind (ls_tokens (flush_word st')) = map kind (ls_tokens st) @ [(ty, c # rest)]"
    by (simp add: emit_operator_def flush_word_def between_words_def kind_def)
qed

text \<open>A state in the middle of a word \<open>w\<close> that started at \<open>p\<close>.\<close>

definition in_word :: "LexState \<Rightarrow> nat \<Rightarrow> string \<Rightarrow> LexState" where
  "in_word st p w = st\<lparr>ls_word_started := True, ls_word_start := p, ls_current := w\<rparr>"

lemma append_in_word [simp]: "append_current s (in_word st p w) = in_word st p (w @ s)"
  by (simp add: append_current_def in_word_def)

lemma in_word_started [simp]: "ls_word_started (in_word st p w)"
  by (simp add: in_word_def)

lemma in_word_quotes [simp]:
  "ls_in_single (in_word st p w) = ls_in_single st" "ls_in_double (in_word st p w) = ls_in_double st"
  by (simp_all add: in_word_def)

lemma begin_between [simp]: "between_words st \<Longrightarrow> begin_word_if_needed p st = in_word st p []"
  by (simp add: begin_word_if_needed_def between_words_def in_word_def)

lemma lexes_as_wordI:
  assumes "\<And>st i. between_words st \<Longrightarrow> lex_loop st i s = Inr (in_word st i w)"
  shows "lexes_as s [(Word, w)]"
  unfolding lexes_as_def
proof (intro allI impI)
  fix st i assume b: "between_words st"
  with assms [OF b, of i] show "\<exists>st'. lex_loop st i s = Inr st' \<and> \<not> ls_in_single st' \<and>
      \<not> ls_in_double st' \<and> between_words (flush_word st') \<and>
      map kind (ls_tokens (flush_word st')) = map kind (ls_tokens st) @ [(Word, w)]"
    by (simp add: in_word_def flush_word_def between_words_def kind_def)
qed

text \<open>Characters that stand for themselves in an unquoted word.\<close>

definition plain_char :: "char \<Rightarrow> bool" where
  "plain_char c \<longleftrightarrow> c \<notin> {bslash, squote, dquote, CHR ''&'', CHR ''|'', CHR '';'', CHR ''<'', CHR ''>''}
     \<and> \<not> isspace c"

lemma operator_at_plain:
  "plain_char c \<Longrightarrow> list_all plain_char rest \<Longrightarrow> operator_at b c rest = None"
  by (cases rest) (auto simp: operator_at_def plain_char_def next_is_def)

lemma lex_loop_plain:
  "list_all plain_char s \<Longrightarrow> \<not> ls_in_single st \<Longrightarrow> \<not> ls_in_double st \<Longrightarrow>
     lex_loop (in_word st p w) i s = Inr (in_word st p (w @ s))"
proof (induction s arbitrary: w i)
  case (Cons c s)
  then have "operator_at True c s = None" by (simp add: operator_at_plain)
  with Cons show ?case
    by (simp add: lex_step_plain plain_char_def)
qed simp

lemma lexes_as_plain:
  assumes "s \<noteq> []" "list_all plain_char s"
  shows "lexes_as s [(Word, s)]"
proof (rule lexes_as_wordI)
  fix st i assume b: "between_words st"
  obtain c rest where s: "s = c # rest" using assms(1) by (cases s) auto
  have "lex_loop st i (c # rest) = lex_loop (in_word st i [c]) (i + 1) rest"
    using b assms s operator_at_plain [of c rest] by (simp add: lex_step_plain plain_char_def between_words_def)
  with b assms(2) s show "lex_loop st i s = Inr (in_word st i s)"
    by (simp add: lex_loop_plain between_words_def)
qed

text \<open>Single quoting: each quote inside is closed, escaped and reopened.\<close>

definition requote :: "string \<Rightarrow> string" where
  "requote w = concat (map (\<lambda>c. if c = squote then [squote, bslash, squote, squote] else [c]) w)"

definition single_quote :: "string \<Rightarrow> string" where
  "single_quote w = squote # requote w @ [squote]"

lemma lex_loop_requote:
  assumes "\<not> ls_in_double st"
  shows "ls_in_single st \<Longrightarrow> lex_loop (in_word st p w) i (requote v @ tail) =
    lex_loop (in_word st p (w @ v)) (i + length (requote v)) tail"
  using assms
proof (induction v arbitrary: w i)
  case Nil
  then show ?case by (simp add: requote_def)
next
  case (Cons c v)
  note IH = Cons.IH [OF Cons.prems]
  show ?case
  proof (cases "c = squote")
    case False
    then have "lex_loop (in_word st p w) i (requote (c # v) @ tail) =
        lex_loop (in_word st p (w @ [c])) (i + 1) (requote v @ tail)"
      using Cons.prems
      by (cases "c = bslash") (simp_all add: requote_def lex_step_bslash_quoted lex_step_quoted)
    with False show ?thesis by (simp add: IH) (simp add: requote_def)
  next
    case True
    have st': "(in_word st p u)\<lparr>ls_in_single := True\<rparr> = in_word st p u" for u
      using Cons.prems by (simp add: in_word_def)
    have "lex_loop (in_word st p w) i (requote (c # v) @ tail) =
        lex_loop (in_word st p (w @ [squote])) (i + 4) (requote v @ tail)"
      using Cons.prems True
      by (simp add: requote_def lex_step_squote lex_step_escape append_current_def escaped_def
          st' [unfolded in_word_def] in_word_def numeral_eq_Suc)
    with True show ?thesis by (simp add: IH) (simp add: requote_def numeral_eq_Suc)
  qed
qed

lemma lexes_as_single_quote: "lexes_as (single_quote w) [(Word, w)]"
proof (rule lexes_as_wordI)
  fix st i assume b: "between_words st"
  let ?st = "st\<lparr>ls_in_single := True\<rparr>"
  have eq: "(begin_word_if_needed i st)\<lparr>ls_in_single := True\<rparr> = in_word ?st i []"
    using b by (cases st) (simp add: between_words_def in_word_def begin_word_if_needed_def)
  have "lex_loop st i (single_quote w) = lex_loop (in_word ?st i []) (i + 1) (requote w @ [squote])"
  proof -
    have "\<not> ls_in_double st" "\<not> ls_in_single st" using b by (simp_all add: between_words_def)
    then show ?thesis using eq by (simp add: single_quote_def lex_step_squote del: begin_between)
  qed
  also have "\<dots> = lex_loop (in_word ?st i w) (i + 1 + length (requote w)) [squote]"
    using b lex_loop_requote [of ?st i "[]" "i + 1" w "[squote]"] by (simp add: between_words_def)
  also have "\<dots> = Inr (in_word st i w)"
    using b by (simp add: lex_step_squote between_words_def in_word_def)
  finally show "lex_loop st i (single_quote w) = Inr (in_word st i w)" .
qed



section \<open>Properties\<close>

lemma lex_error_cases:
  "lex_loop st i s = Inl r \<Longrightarrow> lex_error r = ''syntax error: trailing escape''"
  by (induction st i s rule: lex_loop_induct) (auto simp: lex_steps)

text \<open>
  C8. A successful lexing ends with exactly one end token, at the end of the input; the token
  positions are strictly increasing; and every operator token is non-empty and carries the text
  that stands in the input at its position.
\<close>

theorem lex_ok_tokens:
  assumes "lex_ok (lex input)"
  shows "\<exists>ts. lex_tokens (lex input) = ts @ [mk_token End [] (length input)] \<and>
    list_all (token_wf input) ts \<and>
    sorted_wrt (<) (map tok_position (lex_tokens (lex input)))"
proof -
  obtain st where st: "lex_inv input (length input) st"
    "lex_tokens (lex input) = ls_tokens st @ [mk_token End [] (length input)]"
    using lex_ok_body [OF assms] .
  then have "sorted_wrt (<) (map tok_position (lex_tokens (lex input)))"
    by (simp add: lex_inv_def sorted_positions_snoc del: map_append)
  with st show ?thesis by (auto simp: lex_inv_def)
qed

theorem lex_ok_tokens_witness:
  "lex_ok (lex ''cat<in|grep x 2>>err'') \<and>
   (\<exists>ts. lex_tokens (lex ''cat<in|grep x 2>>err'') = ts @ [mk_token End [] (length ''cat<in|grep x 2>>err'')] \<and>
     list_all (token_wf ''cat<in|grep x 2>>err'') ts \<and>
     sorted_wrt (<) (map tok_position (lex_tokens (lex ''cat<in|grep x 2>>err''))))"
proof -
  have ok: "lex_ok (lex ''cat<in|grep x 2>>err'')" by code_simp
  from lex_ok_tokens [OF ok] ok show ?thesis by (rule conjI [rotated])
qed

text \<open>
  C23. A word put in single quotes, with every single quote inside it closed, escaped and reopened,
  is read back as exactly that one word, whatever bytes it holds.
\<close>

theorem lex_single_quote:
  "lex_ok (lex (single_quote w)) \<and>
   map kind (lex_tokens (lex (single_quote w))) = [(Word, w), (End, [])]"
  using lexes_as_lex [OF lexes_as_single_quote [of w]] by simp

end
