(* ===== verification/Parser.thy ===== *)
theory Parser
  imports Lexer
begin

text \<open>
  The recursive-descent parser of \<open>src/parser.cpp\<close> and the data of \<open>src/include/command.hpp\<close>.
  The parser reads a token vector through an index (\<open>peek\<close>, \<open>advance\<close>); its loops are
  \<^theory_text>\<open>partial_function\<close>s, so that a token stream on which the code does not return has the value
  \<^const>\<open>None\<close>. A grammar, given as inductive relations, is the specification of the parser.
\<close>

section \<open>Commands, pipelines and plans\<close>

record Command =
  args :: "string list"
  input_file :: string
  output_file :: string
  error_file :: string
  has_input_redirect :: bool
  has_output_redirect :: bool
  has_error_redirect :: bool
  append_output :: bool
  append_error :: bool

record Pipeline =
  commands :: "Command list"
  background :: bool

datatype ChainOperator = Always | And | Or

record PipelineStep =
  connector :: ChainOperator
  pipeline :: Pipeline

record ExecutionPlan =
  steps :: "PipelineStep list"

record ParseResult =
  plan :: ExecutionPlan
  parse_error :: string

definition parse_ok :: "ParseResult \<Rightarrow> bool" where
  "parse_ok r \<longleftrightarrow> parse_error r = []"

definition empty_command :: Command where
  "empty_command = \<lparr>args = [], input_file = [], output_file = [], error_file = [],
     has_input_redirect = False, has_output_redirect = False, has_error_redirect = False,
     append_output = False, append_error = False\<rparr>"


section \<open>The parser\<close>

definition peek :: "Token list \<Rightarrow> nat \<Rightarrow> Token" where
  "peek ts i = ts ! i"

definition advance :: "Token list \<Rightarrow> nat \<Rightarrow> nat" where
  "advance ts i = (if i + 1 < length ts then i + 1 else i)"

definition syntax_error :: "string \<Rightarrow> string" where
  "syntax_error message = ''syntax error: '' @ message"

definition is_redirection :: "TokenType \<Rightarrow> bool" where
  "is_redirection ty \<longleftrightarrow> ty = RedirectIn \<or> ty = RedirectOut \<or> ty = RedirectAppend \<or>
     ty = RedirectErr \<or> ty = RedirectErrAppend"

fun apply_redirect :: "TokenType \<Rightarrow> string \<Rightarrow> Command \<Rightarrow> Command" where
  "apply_redirect RedirectIn filename c = c\<lparr>has_input_redirect := True, input_file := filename\<rparr>"
| "apply_redirect RedirectOut filename c =
     c\<lparr>has_output_redirect := True, append_output := False, output_file := filename\<rparr>"
| "apply_redirect RedirectAppend filename c =
     c\<lparr>has_output_redirect := True, append_output := True, output_file := filename\<rparr>"
| "apply_redirect RedirectErr filename c =
     c\<lparr>has_error_redirect := True, append_error := False, error_file := filename\<rparr>"
| "apply_redirect RedirectErrAppend filename c =
     c\<lparr>has_error_redirect := True, append_error := True, error_file := filename\<rparr>"
| "apply_redirect _ filename c = c"

definition add_arg :: "string \<Rightarrow> Command \<Rightarrow> Command" where
  "add_arg w c = c\<lparr>args := args c @ [w]\<rparr>"

text \<open>\<open>Inl\<close> is \<open>return fail (...)\<close>; \<open>Inr\<close> is the parsed command and the index behind it.\<close>

partial_function (option) parse_command_loop ::
  "Token list \<Rightarrow> Command \<Rightarrow> bool \<Rightarrow> nat \<Rightarrow> (string + Command \<times> nat) option" where
  "parse_command_loop ts command saw_word i =
     (let token = peek ts i
      in if tok_type token = Word then
           parse_command_loop ts (add_arg (tok_text token) command) True (advance ts i)
         else if is_redirection (tok_type token) then
           (let j = advance ts i
            in if tok_type (peek ts j) \<noteq> Word
               then Some (Inl (syntax_error ''expected filename after redirection''))
               else parse_command_loop ts
                      (apply_redirect (tok_type token) (tok_text (peek ts j)) command)
                      saw_word (advance ts j))
         else if \<not> saw_word then Some (Inl (syntax_error ''expected command''))
         else Some (Inr (command, i)))"

definition parse_command :: "Token list \<Rightarrow> nat \<Rightarrow> (string + Command \<times> nat) option" where
  "parse_command ts i = parse_command_loop ts empty_command False i"

definition ends_command :: "TokenType \<Rightarrow> bool" where
  "ends_command ty \<longleftrightarrow> ty = Pipe \<or> ty = AndIf \<or> ty = OrIf \<or> ty = Semicolon \<or> ty = Background \<or> ty = End"

partial_function (option) parse_pipe_loop ::
  "Token list \<Rightarrow> Command list \<Rightarrow> nat \<Rightarrow> (string + Command list \<times> nat) option" where
  "parse_pipe_loop ts cmds i =
     (if tok_type (peek ts i) = Pipe then
        (let j = advance ts i
         in if ends_command (tok_type (peek ts j))
            then Some (Inl (syntax_error ''expected command after pipe''))
            else Option.bind (parse_command ts j) (\<lambda>r.
                   case r of Inl e \<Rightarrow> Some (Inl e)
                   | Inr p \<Rightarrow> parse_pipe_loop ts (cmds @ [fst p]) (snd p)))
      else Some (Inr (cmds, i)))"

definition parse_pipeline :: "Token list \<Rightarrow> nat \<Rightarrow> (string + Command list \<times> nat) option" where
  "parse_pipeline ts i =
     Option.bind (parse_command ts i) (\<lambda>r.
       case r of Inl e \<Rightarrow> Some (Inl e) | Inr p \<Rightarrow> parse_pipe_loop ts [fst p] (snd p))"

abbreviation mk_step :: "ChainOperator \<Rightarrow> Command list \<Rightarrow> bool \<Rightarrow> PipelineStep" where
  "mk_step k cs bg \<equiv> \<lparr>connector = k, pipeline = \<lparr>commands = cs, background = bg\<rparr>\<rparr>"

abbreviation mk_result :: "PipelineStep list \<Rightarrow> string \<Rightarrow> ParseResult" where
  "mk_result ss e \<equiv> \<lparr>plan = \<lparr>steps = ss\<rparr>, parse_error = e\<rparr>"

text \<open>The connector that a list operator sets for the following pipeline.\<close>

definition chain_operator :: "TokenType \<Rightarrow> ChainOperator option" where
  "chain_operator ty =
     (if ty = AndIf then Some And else if ty = OrIf then Some Or
      else if ty = Semicolon then Some Always else None)"

partial_function (option) run_loop ::
  "Token list \<Rightarrow> ChainOperator \<Rightarrow> PipelineStep list \<Rightarrow> nat \<Rightarrow> ParseResult option" where
  "run_loop ts conn done i =
     (if tok_type (peek ts i) = End then Some (mk_result done [])
      else Option.bind (parse_pipeline ts i) (\<lambda>r.
        case r of Inl e \<Rightarrow> Some (mk_result done e)
        | Inr p \<Rightarrow>
            (let cs = fst p; j = snd p; ty = tok_type (peek ts j)
             in if ty = Background then
                  (let j' = advance ts j; done' = done @ [mk_step conn cs True]
                   in if tok_type (peek ts j') = End then Some (mk_result done' [])
                      else run_loop ts Always done' j')
                else
                  (let done' = done @ [mk_step conn cs False]
                   in case chain_operator ty of
                        Some conn' \<Rightarrow>
                          (let j' = advance ts j
                           in if tok_type (peek ts j') = End
                              then Some (mk_result done' (syntax_error ''expected command after operator''))
                              else run_loop ts conn' done' j')
                      | None \<Rightarrow>
                          if ty = End then Some (mk_result done' [])
                          else Some (mk_result done'
                                 (syntax_error (''unexpected token '' @ [squote] @ tok_text (peek ts j) @ [squote])))))))"

declare parse_command_loop.simps [code] parse_pipe_loop.simps [code] run_loop.simps [code]

definition parse :: "Token list \<Rightarrow> ParseResult option" where
  "parse tokens =
     (if tokens = [] then Some (mk_result [] ''syntax error: empty token stream'')
      else run_loop tokens Always [] 0)"

definition parse_line :: "string \<Rightarrow> ParseResult option" where
  "parse_line input =
     (let lexed = lex input
      in if \<not> lex_ok lexed then Some (mk_result [] (lex_error lexed))
         else parse (lex_tokens lexed))"



section \<open>The parser as a function of the unread tokens\<close>

text \<open>
  A reference parser: total functions over the tokens that are still to be read, where the empty
  list stands for the end token. It is what the index-based code computes on every token vector
  that the lexer hands to it.
\<close>

definition head_type :: "Token list \<Rightarrow> TokenType" where
  "head_type us = (case us of [] \<Rightarrow> End | t # _ \<Rightarrow> tok_type t)"

lemma head_type_simps [simp]: "head_type [] = End" "head_type (t # us) = tok_type t"
  by (simp_all add: head_type_def)

fun ref_command :: "Command \<Rightarrow> bool \<Rightarrow> Token list \<Rightarrow> string + Command \<times> Token list" where
  "ref_command c saw [] = (if saw then Inr (c, []) else Inl (syntax_error ''expected command''))"
| "ref_command c saw (t # us) =
     (if tok_type t = Word then ref_command (add_arg (tok_text t) c) True us
      else if is_redirection (tok_type t) then
        (case us of
           [] \<Rightarrow> Inl (syntax_error ''expected filename after redirection'')
         | f # vs \<Rightarrow>
             if tok_type f \<noteq> Word then Inl (syntax_error ''expected filename after redirection'')
             else ref_command (apply_redirect (tok_type t) (tok_text f) c) saw vs)
      else if saw then Inr (c, t # us) else Inl (syntax_error ''expected command''))"

lemma ref_command_length:
  "ref_command c saw us = Inr (c', rest) \<Longrightarrow> length rest + (if saw then 0 else 1) \<le> length us"
proof (induction c saw us rule: ref_command.induct)
  case (2 c saw t us)
  then show ?case
    by (cases us) (fastforce split: if_splits)+
qed (simp split: if_splits)

function ref_pipes :: "Command list \<Rightarrow> Token list \<Rightarrow> string + Command list \<times> Token list" where
  "ref_pipes cs us =
     (if head_type us = Pipe then
        (if ends_command (head_type (tl us)) then Inl (syntax_error ''expected command after pipe'')
         else case ref_command empty_command False (tl us) of
                Inl e \<Rightarrow> Inl e
              | Inr (c, rest) \<Rightarrow> ref_pipes (cs @ [c]) rest)
      else Inr (cs, us))"
  by pat_completeness auto
termination
proof (relation "measure (\<lambda>(cs, us). length us)")
  fix cs :: "Command list" and us b c rest
  assume "ref_command empty_command False (tl us) = Inr b" "(c, rest) = b"
  then have "length rest + 1 \<le> length (tl us)" using ref_command_length by fastforce
  then show "((cs @ [c], rest), cs, us) \<in> measure (\<lambda>(cs, us). length us)" by simp
qed simp

declare ref_pipes.simps [simp del]

definition ref_pipeline :: "Token list \<Rightarrow> string + Command list \<times> Token list" where
  "ref_pipeline us =
     (case ref_command empty_command False us of
        Inl e \<Rightarrow> Inl e | Inr (c, rest) \<Rightarrow> ref_pipes [c] rest)"

lemma ref_pipes_length: "ref_pipes cs us = Inr (cs', rest) \<Longrightarrow> length rest \<le> length us"
proof (induction cs us rule: ref_pipes.induct)
  case (1 cs us)
  show ?case
  proof (cases "head_type us = Pipe")
    case True
    with "1.prems" obtain c vs where c: "\<not> ends_command (head_type (tl us))"
      "ref_command empty_command False (tl us) = Inr (c, vs)" "ref_pipes (cs @ [c]) vs = Inr (cs', rest)"
      by (auto simp: ref_pipes.simps [of cs us] split: if_splits sum.splits)
    from "1.IH" [OF True c(1,2) refl c(3)] ref_command_length [OF c(2)] show ?thesis by simp
  next
    case False
    with "1.prems" show ?thesis by (simp add: ref_pipes.simps [of cs us])
  qed
qed

lemma ref_pipeline_length: "ref_pipeline us = Inr (cs, rest) \<Longrightarrow> length rest < length us"
  using ref_command_length [of empty_command False us] ref_pipes_length
  by (fastforce simp: ref_pipeline_def split: sum.splits)

function ref_run :: "ChainOperator \<Rightarrow> PipelineStep list \<Rightarrow> Token list \<Rightarrow> ParseResult" where
  "ref_run k ss us =
     (if us = [] then mk_result ss []
      else case ref_pipeline us of
        Inl e \<Rightarrow> mk_result ss e
      | Inr (cs, rest) \<Rightarrow>
          if head_type rest = Background then
            ref_run Always (ss @ [mk_step k cs True]) (tl rest)
          else (case chain_operator (head_type rest) of
                  Some k' \<Rightarrow>
                    if tl rest = []
                    then mk_result (ss @ [mk_step k cs False]) (syntax_error ''expected command after operator'')
                    else ref_run k' (ss @ [mk_step k cs False]) (tl rest)
                | None \<Rightarrow>
                    if rest = [] then mk_result (ss @ [mk_step k cs False]) []
                    else mk_result (ss @ [mk_step k cs False])
                           (syntax_error (''unexpected token '' @ [squote] @ tok_text (hd rest) @ [squote]))))"
  by pat_completeness auto
termination
proof (relation "measure (\<lambda>(k, ss, us). length us)")
  show "((Always, ss @ [mk_step k cs True], tl rest), k, ss, us) \<in> measure (\<lambda>(k, ss, us). length us)"
    if "ref_pipeline us = Inr b" "(cs, rest) = b" for k ss us b cs and rest :: "Token list"
    using ref_pipeline_length [of us cs rest] that by simp
  show "((k', ss @ [mk_step k cs False], tl rest), k, ss, us) \<in> measure (\<lambda>(k, ss, us). length us)"
    if "ref_pipeline us = Inr b" "(cs, rest) = b" for k ss us b cs k' and rest :: "Token list"
    using ref_pipeline_length [of us cs rest] that by simp
qed simp

declare ref_run.simps [simp del]


section \<open>The code computes the reference parser\<close>

text \<open>\<open>token_stream us e\<close>: a vector of tokens without an end token, closed by the end token \<open>e\<close>.\<close>

definition token_stream :: "Token list \<Rightarrow> Token \<Rightarrow> bool" where
  "token_stream us e \<longleftrightarrow> list_all (\<lambda>t. tok_type t \<noteq> End) us \<and> tok_type e = End"

lemma peek_stream:
  "i \<le> length us \<Longrightarrow> tok_type e = End \<Longrightarrow> tok_type (peek (us @ [e]) i) = head_type (drop i us)"
  by (cases "drop i us") (auto simp: peek_def nth_append dest: nth_via_drop)

lemma peek_stream_Cons: "drop i us = t # vs \<Longrightarrow> peek (us @ [e]) i = t"
  by (metis append_is_Nil_conv drop_append drop_eq_Nil linorder_le_cases list.discI list.sel(1)
      nth_append nth_via_drop order_less_le peek_def)

lemma advance_stream: "drop i us = t # vs \<Longrightarrow> advance (us @ [e]) i = i + 1"
  by (cases "i < length us") (simp_all add: advance_def)

lemma drop_Cons_length: "drop i us = t # vs \<Longrightarrow> i < length us"
  by (metis drop_eq_Nil leI list.discI)

definition index_result :: "nat \<Rightarrow> string + 'a \<times> Token list \<Rightarrow> string + 'a \<times> nat" where
  "index_result n r = (case r of Inl e \<Rightarrow> Inl e | Inr (x, rest) \<Rightarrow> Inr (x, n - length rest))"

lemma index_result_simps [simp]:
  "index_result n (Inl e) = Inl e" "index_result n (Inr (x, rest)) = Inr (x, n - length rest)"
  by (simp_all add: index_result_def)

lemma not_redirection [simp]: "\<not> is_redirection End" "\<not> is_redirection Word" "\<not> is_redirection Pipe"
  by (simp_all add: is_redirection_def)

lemma parse_command_loop_ref:
  assumes "tok_type e = End"
  shows "i \<le> length us \<Longrightarrow> parse_command_loop (us @ [e]) c saw i =
    Some (index_result (length us) (ref_command c saw (drop i us)))"
proof (induction "length us - i" arbitrary: i c saw rule: less_induct)
  case less
  show ?case
  proof (cases "drop i us")
    case Nil
    then have "i = length us" using less.prems by simp
    then show ?thesis
      using assms by (simp add: parse_command_loop.simps [of "us @ [e]" c saw "length us"] peek_def)
  next
    case (Cons t vs)
    note pk = peek_stream_Cons [OF Cons, of e] and adv = advance_stream [OF Cons, of e]
      and il = drop_Cons_length [OF Cons] and d1 = drop_Suc_Cons [OF Cons]
    have len: "length (t # vs) = length us - i" by (metis Cons length_drop)
    consider (word) "tok_type t = Word" | (redir) "is_redirection (tok_type t)"
      | (other) "tok_type t \<noteq> Word" "\<not> is_redirection (tok_type t)" by blast
    then show ?thesis
    proof cases
      case word
      then show ?thesis
        using less.hyps [of "i + 1" "add_arg (tok_text t) c" True] il Cons
        by (simp add: parse_command_loop.simps [of _ _ _ i] pk adv)
    next
      case other
      then show ?thesis
        using Cons il len by (simp add: parse_command_loop.simps [of _ _ _ i] pk)
    next
      case redir
      then have nw: "tok_type t \<noteq> Word" by auto
      show ?thesis
      proof (cases vs)
        case Nil
        then have "tok_type (peek (us @ [e]) (i + 1)) \<noteq> Word"
          using peek_stream [of "i + 1" us e] il d1 assms by simp
        then show ?thesis
          using redir nw Nil Cons by (simp add: parse_command_loop.simps [of _ _ _ i] pk adv)
      next
        case (Cons f vs')
        then have d: "drop (i + 1) us = f # vs'" using d1 by simp
        note pk' = peek_stream_Cons [OF d, of e] and adv' = advance_stream [OF d, of e]
          and il' = drop_Cons_length [OF d] and d2 = drop_Suc_Cons [OF d]
        show ?thesis
          using redir nw Cons \<open>drop i us = t # vs\<close> il' d2 pk' adv'
            less.hyps [of "i + 2" "apply_redirect (tok_type t) (tok_text f) c" saw]
          by (simp add: parse_command_loop.simps [of _ _ _ i] pk adv)
      qed
    qed
  qed
qed

text \<open>The unread tokens after a command, a pipeline or a run are a suffix of the unread tokens before.\<close>

lemma ref_command_suffix: "ref_command c saw us = Inr (c', rest) \<Longrightarrow> \<exists>vs. us = vs @ rest"
proof (induction c saw us rule: ref_command.induct)
  case (2 c saw t us)
  then show ?case
    by (cases us) (fastforce split: if_splits intro: exI [of _ "[]"] exI [of _ "t # _"])+
qed (auto split: if_splits)

lemma suffix_drop:
  assumes "drop i us = vs @ rest" "i \<le> length us"
  shows "drop (length us - length rest) us = rest" "length us - length rest \<le> length us"
proof -
  obtain pre where "us = pre @ rest" using assms(1) by (metis append_assoc append_take_drop_id)
  then show "drop (length us - length rest) us = rest" by simp
qed simp


lemma parse_command_ref:
  assumes "tok_type e = End" "i \<le> length us"
  shows "parse_command (us @ [e]) i = Some (index_result (length us) (ref_command empty_command False (drop i us)))"
  using parse_command_loop_ref [OF assms] by (simp add: parse_command_def)

lemma parse_pipe_loop_ref:
  assumes e: "tok_type e = End"
  shows "i \<le> length us \<Longrightarrow> parse_pipe_loop (us @ [e]) cs i =
    Some (index_result (length us) (ref_pipes cs (drop i us)))"
proof (induction cs "drop i us" arbitrary: i rule: ref_pipes.induct)
  case (1 cs)
  note pk = peek_stream [OF "1.prems" e]
  show ?case
  proof (cases "head_type (drop i us) = Pipe")
    case False
    then show ?thesis
      using "1.prems" by (simp add: parse_pipe_loop.simps [of _ cs i] ref_pipes.simps [of cs] pk)
  next
    case True
    then obtain t vs where d: "drop i us = t # vs" "tok_type t = Pipe" by (cases "drop i us") simp_all
    note adv = advance_stream [OF d(1), of e] and d1 = drop_Suc_Cons [OF d(1)]
      and il = drop_Cons_length [OF d(1)]
    have pk1: "tok_type (peek (us @ [e]) (i + 1)) = head_type vs"
      using peek_stream [of "i + 1" us e] il d1 e by simp
    have cmd: "parse_command (us @ [e]) (i + 1) =
        Some (index_result (length us) (ref_command empty_command False vs))"
      using parse_command_ref [OF e, of "i + 1" us] il d1 by simp
    show ?thesis
    proof (cases "ends_command (head_type vs)")
      case True
      then show ?thesis
        using d pk pk1 adv by (simp add: parse_pipe_loop.simps [of _ cs i] ref_pipes.simps [of cs])
    next
      case ne: False
      show ?thesis
      proof (cases "ref_command empty_command False vs")
        case (Inl err)
        then show ?thesis
          using d pk pk1 adv ne cmd
          by (simp add: parse_pipe_loop.simps [of _ cs i] ref_pipes.simps [of cs])
      next
        case (Inr r)
        then obtain c rest where r: "ref_command empty_command False vs = Inr (c, rest)"
          by (cases r) simp
        obtain ws where ws: "vs = ws @ rest" using ref_command_suffix [OF r] by blast
        have sf: "drop (length us - length rest) us = rest"
          using suffix_drop(1) [of "i + 1" us ws rest] d1 ws il by simp
        have "parse_pipe_loop (us @ [e]) (cs @ [c]) (length us - length rest) =
            Some (index_result (length us) (ref_pipes (cs @ [c]) (drop (length us - length rest) us)))"
        proof -
          have "\<not> ends_command (head_type (tl (drop i us)))"
            "ref_command empty_command False (tl (drop i us)) = Inr (c, rest)" using d ne r by simp_all
          moreover have "(c, drop (length us - length rest) us) = (c, rest)" using sf by simp
          ultimately show ?thesis using "1.hyps" [OF True] by auto
        qed
        then show ?thesis
          using d pk pk1 adv ne cmd r sf
          by (simp add: parse_pipe_loop.simps [of _ cs i] ref_pipes.simps [of cs "t # vs"])
      qed
    qed
  qed
qed

lemma parse_pipeline_ref:
  assumes e: "tok_type e = End" and i: "i \<le> length us"
  shows "parse_pipeline (us @ [e]) i = Some (index_result (length us) (ref_pipeline (drop i us)))"
proof (cases "ref_command empty_command False (drop i us)")
  case (Inl err)
  then show ?thesis by (simp add: parse_pipeline_def ref_pipeline_def parse_command_ref [OF e i])
next
  case (Inr r)
  then obtain c rest where r: "ref_command empty_command False (drop i us) = Inr (c, rest)"
    by (cases r) simp
  obtain ws where "drop i us = ws @ rest" using ref_command_suffix [OF r] by blast
  from suffix_drop [OF this i] r show ?thesis
    by (simp add: parse_pipeline_def ref_pipeline_def parse_command_ref [OF e i]
        parse_pipe_loop_ref [OF e])
qed

lemma ref_pipes_suffix: "ref_pipes cs us = Inr (cs', rest) \<Longrightarrow> \<exists>vs. us = vs @ rest"
proof (induction cs us rule: ref_pipes.induct)
  case (1 cs us)
  show ?case
  proof (cases "head_type us = Pipe")
    case True
    then obtain t vs where us: "us = t # vs" by (cases us) simp_all
    with "1.prems" True obtain c ws where c: "\<not> ends_command (head_type (tl us))"
      "ref_command empty_command False (tl us) = Inr (c, ws)" "ref_pipes (cs @ [c]) ws = Inr (cs', rest)"
      by (auto simp: ref_pipes.simps [of cs "t # vs"] split: if_splits sum.splits)
    obtain xs where "ws = xs @ rest" using "1.IH" [OF True c(1,2) refl c(3)] by blast
    moreover obtain ys where "tl us = ys @ ws" using ref_command_suffix [OF c(2)] by blast
    ultimately have "us = (t # ys @ xs) @ rest" using us by simp
    then show ?thesis by blast
  next
    case False
    with "1.prems" show ?thesis by (simp add: ref_pipes.simps [of cs us])
  qed
qed

lemma ref_pipeline_suffix: "ref_pipeline us = Inr (cs, rest) \<Longrightarrow> \<exists>vs. us = vs @ rest"
  using ref_command_suffix [of empty_command False us] ref_pipes_suffix
  by (fastforce simp: ref_pipeline_def split: sum.splits)

text \<open>What the loop of \<open>run\<close> does after a pipeline \<open>cs\<close> that ends before index \<open>j\<close>.\<close>

definition after_pipeline ::
  "Token list \<Rightarrow> ChainOperator \<Rightarrow> PipelineStep list \<Rightarrow> Command list \<Rightarrow> nat \<Rightarrow> ParseResult option" where
  "after_pipeline ts k ss cs j =
     (let ty = tok_type (peek ts j); j' = advance ts j; fg = ss @ [mk_step k cs False]
      in if ty = Background then
           if tok_type (peek ts j') = End then Some (mk_result (ss @ [mk_step k cs True]) [])
           else run_loop ts Always (ss @ [mk_step k cs True]) j'
         else (case chain_operator ty of
             Some k' \<Rightarrow>
               if tok_type (peek ts j') = End
               then Some (mk_result fg (syntax_error ''expected command after operator''))
               else run_loop ts k' fg j'
           | None \<Rightarrow>
               if ty = End then Some (mk_result fg [])
               else Some (mk_result fg (syntax_error
                 (''unexpected token '' @ [squote] @ tok_text (peek ts j) @ [squote])))))"

lemma run_loop_step:
  assumes "tok_type (peek ts i) \<noteq> End" "parse_pipeline ts i = Some (Inr (cs, j))"
  shows "run_loop ts k ss i = after_pipeline ts k ss cs j"
  using assms by (subst run_loop.simps) (simp add: after_pipeline_def Let_def split: option.split)

lemma head_end:
  assumes "token_stream us e"
  shows "head_type (drop j us) = End \<longleftrightarrow> drop j us = []"
proof (cases "drop j us")
  case (Cons a l)
  then have "a \<in> set us" by (metis in_set_dropD list.set_intros(1))
  with Cons assms show ?thesis by (auto simp: token_stream_def list_all_iff)
qed simp

lemma stream_next:
  assumes ok: "token_stream us e" and rest: "drop j us = rest" "rest \<noteq> []"
  shows "j + 1 \<le> length us" "advance (us @ [e]) j = j + 1" "drop (j + 1) us = tl rest"
    "tok_type (peek (us @ [e]) (j + 1)) = End \<longleftrightarrow> tl rest = []"
proof -
  obtain t vs where tv: "drop j us = t # vs" using rest by (cases rest) auto
  show a: "j + 1 \<le> length us" using drop_Cons_length [OF tv] by simp
  show "advance (us @ [e]) j = j + 1" using advance_stream [OF tv] .
  show b: "drop (j + 1) us = tl rest" using drop_Suc_Cons [OF tv] tv rest by simp
  show "tok_type (peek (us @ [e]) (j + 1)) = End \<longleftrightarrow> tl rest = []"
    using peek_stream [OF a, of e] head_end [OF ok, of "j + 1", unfolded b] ok by (simp only: b token_stream_def)
qed

text \<open>What follows a pipeline, when the rest of the loop is as in the reference parser.\<close>

lemma after_pipeline_ref:
  assumes ok: "token_stream us e" and rest: "drop j us = rest" "j \<le> length us"
    and r: "vs \<noteq> []" "ref_pipeline vs = Inr (cs, rest)"
    and bg: "head_type rest = Background \<Longrightarrow>
      run_loop (us @ [e]) Always (ss @ [mk_step k cs True]) (j + 1) = Some (ref_run Always (ss @ [mk_step k cs True]) (tl rest))"
    and op: "\<And>k'. head_type rest \<noteq> Background \<Longrightarrow> chain_operator (head_type rest) = Some k' \<Longrightarrow> tl rest \<noteq> [] \<Longrightarrow>
      run_loop (us @ [e]) k' (ss @ [mk_step k cs False]) (j + 1) = Some (ref_run k' (ss @ [mk_step k cs False]) (tl rest))"
  shows "after_pipeline (us @ [e]) k ss cs j = Some (ref_run k ss vs)"
proof -
  have pj: "tok_type (peek (us @ [e]) j) = head_type rest"
    using peek_stream [OF rest(2), of e] ok rest(1) by (simp add: token_stream_def)
  show ?thesis
  proof (cases "rest = []")
    case True
    then show ?thesis
      using r pj by (simp add: ref_run.simps [of k ss] chain_operator_def after_pipeline_def)
  next
    case nr: False
    note no = stream_next [OF ok rest(1) nr]
    have hr: "head_type rest \<noteq> End" using nr head_end [OF ok, of j] rest(1) by simp
    have pt: "peek (us @ [e]) j = hd rest" using nr rest(1) peek_stream_Cons by (metis list.collapse)
    consider (background) "head_type rest = Background"
      | (chain) k' where "head_type rest \<noteq> Background" "chain_operator (head_type rest) = Some k'"
      | (bad) "head_type rest \<noteq> Background" "chain_operator (head_type rest) = None"
      by (cases "chain_operator (head_type rest)") auto
    then show ?thesis
    proof cases
      case background
      then show ?thesis using bg no r pj
        by (simp add: after_pipeline_def ref_run.simps [of k ss vs] ref_run.simps [of Always _ "[]"])
    next
      case chain
      then show ?thesis using op no r pj by (simp add: after_pipeline_def ref_run.simps [of k ss vs])
    next
      case bad
      then show ?thesis using hr nr r pj pt by (simp add: after_pipeline_def ref_run.simps [of k ss vs])
    qed
  qed
qed

lemma run_loop_ref:
  assumes ok: "token_stream us e"
  shows "i \<le> length us \<Longrightarrow> run_loop (us @ [e]) k ss i = Some (ref_run k ss (drop i us))"
proof (induction k ss "drop i us" arbitrary: i rule: ref_run.induct)
  case (1 k ss)
  have e: "tok_type e = End" using ok by (simp add: token_stream_def)
  note pk = peek_stream [OF "1.prems" e] and pp = parse_pipeline_ref [OF e "1.prems"]
  consider (stop) "drop i us = []" | (err) e' where "drop i us \<noteq> []" "ref_pipeline (drop i us) = Inl e'"
    | (go) cs rest where "drop i us \<noteq> []" "ref_pipeline (drop i us) = Inr (cs, rest)"
    by (cases "ref_pipeline (drop i us)") auto
  then show ?case
  proof cases
    case stop
    then show ?thesis by (simp add: run_loop.simps [of _ k ss i] ref_run.simps [of k ss "[]"] pk)
  next
    case err
    then show ?thesis
      using pp head_end [OF ok, of i] by (simp add: run_loop.simps [of _ k ss i] ref_run.simps [of k ss] pk)
  next
    case go
    obtain ws where "drop i us = ws @ rest" using ref_pipeline_suffix [OF go(2)] by blast
    from suffix_drop [OF this "1.prems"]
    have j: "drop (length us - length rest) us = rest" "length us - length rest \<le> length us" by auto
    let ?j = "length us - length rest"
    have "run_loop (us @ [e]) k ss i = after_pipeline (us @ [e]) k ss cs ?j"
      using go head_end [OF ok, of i] pk by (intro run_loop_step) (simp_all add: pp)
    also have "\<dots> = Some (ref_run k ss (drop i us))"
    proof (rule after_pipeline_ref [OF ok j go])
      assume b: "head_type rest = Background"
      then have "rest \<noteq> []" by auto
      from stream_next(1,3) [OF ok j(1) this]
      show "run_loop (us @ [e]) Always (ss @ [mk_step k cs True]) (?j + 1) = Some (ref_run Always (ss @ [mk_step k cs True]) (tl rest))"
        using "1.hyps"(1) [OF go refl b, of "?j + 1"] by simp
    next
      fix k' assume o: "head_type rest \<noteq> Background" "chain_operator (head_type rest) = Some k'" "tl rest \<noteq> []"
      then have "rest \<noteq> []" by auto
      from stream_next(1,3) [OF ok j(1) this]
      show "run_loop (us @ [e]) k' (ss @ [mk_step k cs False]) (?j + 1) = Some (ref_run k' (ss @ [mk_step k cs False]) (tl rest))"
        using "1.hyps"(2) [OF go refl o, of "?j + 1"] by simp
    qed
    finally show ?thesis .
  qed
qed

lemma parse_ref:
  assumes "token_stream us e"
  shows "parse (us @ [e]) = Some (ref_run Always [] us)"
  using run_loop_ref [OF assms, of 0 Always "[]"] by (simp add: parse_def)

lemma lex_token_stream:
  assumes "lex_ok (lex s)"
  obtains us e where "lex_tokens (lex s) = us @ [e]" "token_stream us e" "tok_position e = length s"
proof -
  obtain st where st: "lex_inv s (length s) st"
    "lex_tokens (lex s) = ls_tokens st @ [mk_token End [] (length s)]"
    using lex_ok_body [OF assms] .
  then have "token_stream (ls_tokens st) (mk_token End [] (length s))"
    by (auto simp: lex_inv_def token_wf_def token_stream_def list_all_iff)
  with that st(2) show ?thesis by simp
qed



section \<open>The grammar of command lines\<close>

text \<open>
  \<open>g_command c saw us c'\<close>: the tokens \<open>us\<close>, read with the partial command \<open>c\<close> in hand, complete
  it to \<open>c'\<close>; words are arguments, a redirection is an operator followed by a word, and at least
  one argument is needed. A pipeline is a non-empty sequence of commands separated by pipes; a
  command list is a sequence of pipelines separated by \<open>&&\<close>, \<open>||\<close>, \<open>;\<close> or \<open>&\<close>, where \<open>&\<close> puts
  the pipeline before it into the background and may end the list.
\<close>

inductive g_command :: "Command \<Rightarrow> bool \<Rightarrow> Token list \<Rightarrow> Command \<Rightarrow> bool" where
  g_done: "g_command c True [] c"
| g_word: "tok_type t = Word \<Longrightarrow> g_command (add_arg (tok_text t) c) True us c' \<Longrightarrow>
    g_command c saw (t # us) c'"
| g_redirect: "is_redirection (tok_type r) \<Longrightarrow> tok_type f = Word \<Longrightarrow>
    g_command (apply_redirect (tok_type r) (tok_text f) c) saw us c' \<Longrightarrow>
    g_command c saw (r # f # us) c'"

inductive g_pipeline :: "Token list \<Rightarrow> Command list \<Rightarrow> bool" where
  g_single: "g_command empty_command False us c \<Longrightarrow> g_pipeline us [c]"
| g_pipe: "g_command empty_command False us c \<Longrightarrow> tok_type p = Pipe \<Longrightarrow> g_pipeline vs cs \<Longrightarrow>
    g_pipeline (us @ p # vs) (c # cs)"

inductive g_list :: "ChainOperator \<Rightarrow> Token list \<Rightarrow> PipelineStep list \<Rightarrow> bool" where
  g_last: "g_pipeline us cs \<Longrightarrow> g_list k us [mk_step k cs False]"
| g_last_background: "g_pipeline us cs \<Longrightarrow> tok_type b = Background \<Longrightarrow>
    g_list k (us @ [b]) [mk_step k cs True]"
| g_background: "g_pipeline us cs \<Longrightarrow> tok_type b = Background \<Longrightarrow> g_list Always vs ss \<Longrightarrow>
    g_list k (us @ b # vs) (mk_step k cs True # ss)"
| g_chain: "g_pipeline us cs \<Longrightarrow> chain_operator (tok_type x) = Some k' \<Longrightarrow> g_list k' vs ss \<Longrightarrow>
    g_list k (us @ x # vs) (mk_step k cs False # ss)"

definition g_plan :: "Token list \<Rightarrow> PipelineStep list \<Rightarrow> bool" where
  "g_plan us ss \<longleftrightarrow> us = [] \<and> ss = [] \<or> g_list Always us ss"

inductive_cases g_command_ConsE: "g_command c saw (t # us) c'"
inductive_cases g_command_NilE: "g_command c saw [] c'"

definition stops_command :: "TokenType \<Rightarrow> bool" where
  "stops_command ty \<longleftrightarrow> ty \<noteq> Word \<and> \<not> is_redirection ty"

lemma stops_command_iff: "stops_command ty \<longleftrightarrow> ends_command ty"
  by (cases ty) (simp_all add: stops_command_def ends_command_def is_redirection_def)

lemma ref_command_sound:
  "ref_command c saw us = Inr (c', rest) \<Longrightarrow>
     \<exists>vs. us = vs @ rest \<and> g_command c saw vs c' \<and> stops_command (head_type rest)"
proof (induction c saw us rule: ref_command.induct)
  case (1 c saw)
  then show ?case by (auto simp: stops_command_def g_done split: if_splits)
next
  case (2 c saw t us)
  consider (word) "tok_type t = Word"
    | (redir) "is_redirection (tok_type t)" "tok_type t \<noteq> Word"
    | (other) "tok_type t \<noteq> Word" "\<not> is_redirection (tok_type t)" by blast
  then show ?case
  proof cases
    case word
    with 2 obtain vs where "us = vs @ rest" "g_command (add_arg (tok_text t) c) True vs c'"
      "stops_command (head_type rest)" by auto
    with word show ?thesis by (intro exI [of _ "t # vs"]) (simp add: g_word)
  next
    case redir
    with "2.prems" obtain f ws where us: "us = f # ws" "tok_type f = Word"
      by (cases us) (auto split: if_splits)
    with redir 2 obtain vs where "ws = vs @ rest"
      "g_command (apply_redirect (tok_type t) (tok_text f) c) saw vs c'" "stops_command (head_type rest)"
      by auto
    with redir us show ?thesis by (intro exI [of _ "t # f # vs"]) (simp add: g_redirect)
  next
    case other
    with "2.prems" show ?thesis
      by (intro exI [of _ "[]"]) (auto simp: stops_command_def g_done split: if_splits)
  qed
qed

lemma ref_command_complete:
  "g_command c saw vs c' \<Longrightarrow> stops_command (head_type rest) \<Longrightarrow> ref_command c saw (vs @ rest) = Inr (c', rest)"
proof (induction rule: g_command.induct)
  case (g_done c)
  then show ?case by (cases rest) (simp_all add: stops_command_def)
next
  case (g_redirect r f c saw us c')
  then show ?case by (cases "tok_type r") (simp_all add: is_redirection_def)
qed simp

lemma g_command_nonempty: "g_command c saw us c' \<Longrightarrow> \<not> saw \<Longrightarrow> us \<noteq> []"
  by (auto elim: g_command_NilE)

lemma g_command_head: "g_command c False us c' \<Longrightarrow> \<not> ends_command (head_type us)"
  by (erule g_command.cases) (auto simp: stops_command_def simp flip: stops_command_iff)

lemma ref_pipes_sound:
  "ref_pipes cs us = Inr (cs', rest) \<Longrightarrow>
     (cs' = cs \<and> us = rest \<and> head_type us \<noteq> Pipe) \<or>
     (\<exists>p vs ds. us = p # vs @ rest \<and> tok_type p = Pipe \<and> g_pipeline vs ds \<and> cs' = cs @ ds \<and>
        stops_command (head_type rest) \<and> head_type rest \<noteq> Pipe)"
proof (induction cs us rule: ref_pipes.induct)
  case (1 cs us)
  show ?case
  proof (cases "head_type us = Pipe")
    case False
    with "1.prems" show ?thesis by (simp add: ref_pipes.simps [of cs us])
  next
    case True
    then obtain p us' where us: "us = p # us'" "tok_type p = Pipe" by (cases us) simp_all
    with "1.prems" obtain c ws where c: "\<not> ends_command (head_type (tl us))"
      "ref_command empty_command False (tl us) = Inr (c, ws)" "ref_pipes (cs @ [c]) ws = Inr (cs', rest)"
      by (auto simp: ref_pipes.simps [of cs "p # us'"] split: if_splits sum.splits)
    obtain vs where vs: "us' = vs @ ws" "g_command empty_command False vs c" "stops_command (head_type ws)"
      using ref_command_sound [OF c(2)] us by auto
    from "1.IH" [OF True c(1,2) refl c(3)] consider
      "cs' = cs @ [c]" "ws = rest" "head_type ws \<noteq> Pipe"
      | q ts ds where "ws = q # ts @ rest" "tok_type q = Pipe" "g_pipeline ts ds" "cs' = cs @ c # ds"
        "stops_command (head_type rest)" "head_type rest \<noteq> Pipe" by auto
    then show ?thesis
    proof cases
      case 1
      with us vs show ?thesis by (auto intro: g_single)
    next
      case 2
      with us vs have "us = p # (vs @ q # ts) @ rest" "g_pipeline (vs @ q # ts) (c # ds)"
        by (auto intro: g_pipe)
      with 2 us show ?thesis by fastforce
    qed
  qed
qed

lemma ref_pipeline_sound:
  assumes "ref_pipeline us = Inr (cs, rest)"
  shows "\<exists>vs. us = vs @ rest \<and> g_pipeline vs cs \<and> stops_command (head_type rest) \<and> head_type rest \<noteq> Pipe"
proof -
  from assms obtain c ws where c: "ref_command empty_command False us = Inr (c, ws)"
    "ref_pipes [c] ws = Inr (cs, rest)"
    by (auto simp: ref_pipeline_def split: sum.splits)
  obtain vs where vs: "us = vs @ ws" "g_command empty_command False vs c" "stops_command (head_type ws)"
    using ref_command_sound [OF c(1)] by auto
  from ref_pipes_sound [OF c(2)] consider
    "cs = [c]" "ws = rest" "head_type ws \<noteq> Pipe"
    | q ts ds where "ws = q # ts @ rest" "tok_type q = Pipe" "g_pipeline ts ds" "cs = c # ds"
      "stops_command (head_type rest)" "head_type rest \<noteq> Pipe" by auto
  then show ?thesis
  proof cases
    case 1
    with vs show ?thesis by (auto intro: g_single)
  next
    case 2
    with vs have "us = (vs @ q # ts) @ rest" "g_pipeline (vs @ q # ts) (c # ds)"
      by (auto intro: g_pipe)
    with 2 show ?thesis by blast
  qed
qed

lemma ref_pipeline_complete:
  "g_pipeline vs cs \<Longrightarrow> stops_command (head_type rest) \<Longrightarrow> head_type rest \<noteq> Pipe \<Longrightarrow>
     ref_pipeline (vs @ rest) = Inr (cs, rest) \<and>
     (\<forall>p bs. tok_type p = Pipe \<longrightarrow> ref_pipes bs (p # vs @ rest) = Inr (bs @ cs, rest))"
proof (induction rule: g_pipeline.induct)
  case (g_single us c)
  have r: "ref_command empty_command False (us @ rest) = Inr (c, rest)"
    using g_single by (simp add: ref_command_complete)
  have ps: "ref_pipes bs rest = Inr (bs, rest)" for bs
    using g_single by (simp add: ref_pipes.simps [of bs rest])
  have h: "\<not> ends_command (head_type (us @ rest))"
    using g_command_head [OF g_single(1)] g_command_nonempty [OF g_single(1)] by (cases us) simp_all
  have "ref_pipes bs (p # us @ rest) = Inr (bs @ [c], rest)" if "tok_type p = Pipe" for p bs
    using that h r ps by (subst ref_pipes.simps) simp
  with r ps show ?case by (simp add: ref_pipeline_def)
next
  case (g_pipe us c p vs cs)
  let ?tail = "p # vs @ rest"
  have IH: "ref_pipes bs ?tail = Inr (bs @ cs, rest)" for bs using g_pipe by simp
  have r: "ref_command empty_command False (us @ ?tail) = Inr (c, ?tail)"
    using g_pipe by (intro ref_command_complete) (simp_all add: stops_command_def)
  have h: "\<not> ends_command (head_type (us @ ?tail))"
    using g_command_head [OF g_pipe(1)] g_command_nonempty [OF g_pipe(1)] by (cases us) simp_all
  have "ref_pipes bs (q # us @ ?tail) = Inr (bs @ c # cs, rest)" if "tok_type q = Pipe" for q bs
    using that h r IH by (subst ref_pipes.simps) simp
  with r IH show ?case by (simp add: ref_pipeline_def)
qed

lemma g_pipeline_nonempty: "g_pipeline us cs \<Longrightarrow> us \<noteq> [] \<and> cs \<noteq> []"
  by (erule g_pipeline.cases) (auto dest: g_command_nonempty)

lemma g_list_nonempty: "g_list k us ss \<Longrightarrow> us \<noteq> [] \<and> ss \<noteq> []"
  by (erule g_list.cases) (auto dest: g_pipeline_nonempty)

lemma ref_command_error: "ref_command c saw us = Inl e \<Longrightarrow> e \<noteq> []"
proof (induction c saw us rule: ref_command.induct)
  case (2 c saw t us)
  then show ?case by (cases us) (auto simp: syntax_error_def split: if_splits)
qed (auto simp: syntax_error_def split: if_splits)

lemma ref_pipes_error: "ref_pipes cs us = Inl e \<Longrightarrow> e \<noteq> []"
proof (induction cs us rule: ref_pipes.induct)
  case (1 cs us)
  from "1.prems" have *: "head_type us = Pipe" by (auto simp: ref_pipes.simps [of cs us] split: if_splits)
  show ?case
  proof (cases "ends_command (head_type (tl us))")
    case True
    with "1.prems" * show ?thesis by (auto simp: ref_pipes.simps [of cs us] syntax_error_def)
  next
    case False
    with "1.prems" * "1.IH" [OF * False] show ?thesis
      by (auto simp: ref_pipes.simps [of cs us] dest: ref_command_error split: sum.splits)
  qed
qed

lemma ref_error_nonempty: "ref_pipeline us \<noteq> Inl []"
  using ref_command_error ref_pipes_error by (fastforce simp: ref_pipeline_def split: sum.splits)

lemma ref_run_sound:
  "ref_run k ss us = mk_result ss' [] \<Longrightarrow>
     (us = [] \<and> ss' = ss) \<or> (\<exists>ts. g_list k us ts \<and> ss' = ss @ ts)"
proof (induction k ss us rule: ref_run.induct)
  case (1 k ss us)
  show ?case
  proof (cases "us = []")
    case True
    with "1.prems" show ?thesis by (simp add: ref_run.simps)
  next
    case ne: False
    with "1.prems" obtain cs rest where r: "ref_pipeline us = Inr (cs, rest)"
      by (auto simp: ref_run.simps [of k ss us] syntax_error_def ref_error_nonempty split: sum.splits)
    then obtain vs where vs: "us = vs @ rest" "g_pipeline vs cs" using ref_pipeline_sound by blast
    consider (bg) b ws where "rest = b # ws" "tok_type b = Background"
      | (op) x ws k' where "rest = x # ws" "head_type rest \<noteq> Background"
          "chain_operator (head_type rest) = Some k'"
      | (other) "head_type rest \<noteq> Background" "chain_operator (head_type rest) = None"
      by (cases rest; cases "chain_operator (head_type rest)") (auto simp: chain_operator_def)
    then show ?thesis
    proof cases
      case bg
      then have h: "head_type rest = Background" by simp
      from "1.prems" ne r bg have "ref_run Always (ss @ [mk_step k cs True]) (tl rest) = mk_result ss' []"
        by (simp add: ref_run.simps [of k ss us])
      from "1.IH"(1) [OF ne r refl h this] vs bg show ?thesis
        by (auto intro: g_last_background g_background)
    next
      case op
      with "1.prems" ne r have t: "tl rest \<noteq> []"
        and "ref_run k' (ss @ [mk_step k cs False]) (tl rest) = mk_result ss' []"
        by (auto simp: ref_run.simps [of k ss us] syntax_error_def split: if_splits)
      from "1.IH"(2) [OF ne r refl op(2,3) t this(2)] t vs op show ?thesis
        by (auto intro: g_chain)
    next
      case other
      with "1.prems" ne r have "rest = []" "ss' = ss @ [mk_step k cs False]"
        by (auto simp: ref_run.simps [of k ss us] syntax_error_def split: if_splits)
      with vs show ?thesis by (auto intro: g_last)
    qed
  qed
qed

lemma chain_operator_stops:
  "chain_operator ty = Some k \<Longrightarrow> stops_command ty \<and> ty \<noteq> Pipe \<and> ty \<noteq> Background"
  by (auto simp: chain_operator_def stops_command_def is_redirection_def split: if_splits)

lemma ref_run_complete: "g_list k us ts \<Longrightarrow> ref_run k ss us = mk_result (ss @ ts) []"
proof (induction arbitrary: ss rule: g_list.induct)
  case (g_last us cs k)
  then have "ref_pipeline us = Inr (cs, [])"
    using ref_pipeline_complete [of us cs "[]"] by (simp add: stops_command_def)
  with g_last show ?case
    using g_pipeline_nonempty [of us cs] by (simp add: ref_run.simps [of k ss us] chain_operator_def)
next
  case (g_last_background us cs b k)
  then have "ref_pipeline (us @ [b]) = Inr (cs, [b])"
    using ref_pipeline_complete [of us cs "[b]"] by (simp add: stops_command_def is_redirection_def)
  with g_last_background show ?case by (simp add: ref_run.simps [of k ss] ref_run.simps [of _ _ "[]"])
next
  case (g_background us cs b vs ts k)
  then have "ref_pipeline (us @ b # vs) = Inr (cs, b # vs)"
    using ref_pipeline_complete [of us cs "b # vs"] by (simp add: stops_command_def is_redirection_def)
  with g_background show ?case by (simp add: ref_run.simps [of k ss])
next
  case (g_chain us cs x k' vs ts k)
  then have "ref_pipeline (us @ x # vs) = Inr (cs, x # vs)"
    using ref_pipeline_complete [of us cs "x # vs"] chain_operator_stops by simp
  with g_chain chain_operator_stops [OF g_chain(2)] show ?case
    using g_list_nonempty [OF g_chain(3)] by (simp add: ref_run.simps [of k ss])
qed



section \<open>Well-formed plans\<close>

definition redirects_wf :: "Command \<Rightarrow> bool" where
  "redirects_wf c \<longleftrightarrow>
     (\<not> has_input_redirect c \<longrightarrow> input_file c = []) \<and>
     (\<not> has_output_redirect c \<longrightarrow> output_file c = [] \<and> \<not> append_output c) \<and>
     (\<not> has_error_redirect c \<longrightarrow> error_file c = [] \<and> \<not> append_error c)"

definition command_wf :: "Command \<Rightarrow> bool" where
  "command_wf c \<longleftrightarrow> args c \<noteq> [] \<and> redirects_wf c"

definition step_wf :: "PipelineStep \<Rightarrow> bool" where
  "step_wf s \<longleftrightarrow> commands (pipeline s) \<noteq> [] \<and> list_all command_wf (commands (pipeline s))"

fun connectors_wf :: "ChainOperator \<Rightarrow> PipelineStep list \<Rightarrow> bool" where
  "connectors_wf k [] = True"
| "connectors_wf k (s # ss) =
     (connector s = k \<and>
      (case ss of [] \<Rightarrow> True
       | s' # _ \<Rightarrow> connectors_wf (if background (pipeline s) then Always else connector s') ss))"

definition plan_wf :: "PipelineStep list \<Rightarrow> bool" where
  "plan_wf ss \<longleftrightarrow> list_all step_wf ss \<and> connectors_wf Always ss"

lemma redirects_wf_step:
  "redirects_wf c \<Longrightarrow> redirects_wf (add_arg w c)"
  "redirects_wf c \<Longrightarrow> redirects_wf (apply_redirect ty f c)"
  by (simp add: redirects_wf_def add_arg_def) (cases ty; simp add: redirects_wf_def)

lemma args_apply_redirect [simp]: "args (apply_redirect ty f c) = args c"
  by (cases ty) simp_all

lemma g_command_wf:
  "g_command c saw us c' \<Longrightarrow> redirects_wf c \<Longrightarrow> (saw \<Longrightarrow> args c \<noteq> []) \<Longrightarrow> command_wf c'"
proof (induction rule: g_command.induct)
  case (g_done c)
  then show ?case by (simp add: command_wf_def)
next
  case (g_word t c us c' saw)
  then show ?case using redirects_wf_step(1) [of c "tok_text t"] by (simp add: add_arg_def)
next
  case (g_redirect r f c saw us c')
  then show ?case by (simp add: redirects_wf_step)
qed

lemma g_pipeline_wf: "g_pipeline us cs \<Longrightarrow> cs \<noteq> [] \<and> list_all command_wf cs"
proof (induction rule: g_pipeline.induct)
  case (g_single us c)
  then show ?case by (auto dest!: g_command_wf simp: redirects_wf_def empty_command_def)
next
  case (g_pipe us c p vs cs)
  then show ?case by (auto dest!: g_command_wf simp: redirects_wf_def empty_command_def)
qed

lemma g_list_wf: "g_list k us ss \<Longrightarrow> list_all step_wf ss \<and> connectors_wf k ss"
proof (induction rule: g_list.induct)
  case (g_background us cs b vs ss k)
  then show ?case
    using g_list_nonempty [of Always vs ss] by (cases ss) (auto simp: step_wf_def dest: g_pipeline_wf)
next
  case (g_chain us cs x k' vs ss k)
  then show ?case
    using g_list_nonempty [of k' vs ss] by (cases ss) (auto simp: step_wf_def dest: g_pipeline_wf)
qed (auto simp: step_wf_def dest: g_pipeline_wf)


section \<open>Properties\<close>

lemma parse_ok_grammar:
  assumes "token_stream us e"
  shows "parse (us @ [e]) = Some (mk_result ss []) \<longleftrightarrow> g_plan us ss"
proof
  assume "parse (us @ [e]) = Some (mk_result ss [])"
  then have "ref_run Always [] us = mk_result ss []" by (simp add: parse_ref [OF assms])
  from ref_run_sound [OF this] show "g_plan us ss" by (auto simp: g_plan_def)
next
  assume "g_plan us ss"
  then consider "us = []" "ss = []" | "g_list Always us ss" by (auto simp: g_plan_def)
  then show "parse (us @ [e]) = Some (mk_result ss [])"
  proof cases
    case 1
    then show ?thesis using parse_ref [OF assms] by (simp add: ref_run.simps)
  next
    case 2
    then show ?thesis using ref_run_complete [of Always us ss "[]"] by (simp add: parse_ref [OF assms])
  qed
qed

text \<open>
  C1. On a token stream closed by its end token, the parser accepts exactly the sentences of the
  grammar and builds exactly the plan that the grammar assigns to them.
\<close>

theorem parse_iff_grammar:
  assumes "token_stream us e"
  shows "parse (us @ [e]) = Some (mk_result ss []) \<longleftrightarrow> g_plan us ss"
  by (rule parse_ok_grammar [OF assms])

theorem parse_iff_grammar_witness:
  "parse ([mk_token Word ''ls'' 0] @ [mk_token End [] 2]) =
     Some (mk_result [mk_step Always [add_arg ''ls'' empty_command] False] [])"
proof -
  have ts: "token_stream [mk_token Word ''ls'' 0] (mk_token End [] 2)"
    by (simp add: token_stream_def)
  have "g_plan [mk_token Word ''ls'' 0] [mk_step Always [add_arg ''ls'' empty_command] False]"
    by (auto simp: g_plan_def intro!: g_last g_single g_word g_done)
  then show ?thesis using parse_iff_grammar [OF ts] by blast
qed

text \<open>What the parser makes of the tokens of a line: an error or a well-formed plan.\<close>

lemma parse_lexed:
  assumes "lex_ok (lex input)"
  obtains r where "parse (lex_tokens (lex input)) = Some r" "parse_ok r \<longrightarrow> plan_wf (steps (plan r))"
proof -
  obtain us e where ue: "lex_tokens (lex input) = us @ [e]" "token_stream us e"
    using lex_token_stream [OF assms] by blast
  then obtain r where r: "parse (us @ [e]) = Some r" by (simp add: parse_ref)
  have "plan_wf (steps (plan r))" if "parse_ok r"
  proof -
    have "r = mk_result (steps (plan r)) []" using that by (simp add: parse_ok_def)
    with r have "parse (us @ [e]) = Some (mk_result (steps (plan r)) [])" by simp
    then have "g_plan us (steps (plan r))" using parse_ok_grammar [OF ue(2)] by blast
    then show ?thesis using g_list_wf by (auto simp: g_plan_def plan_wf_def)
  qed
  with that r ue(1) show ?thesis by simp
qed

lemma parse_line_total: "\<exists>r. parse_line input = Some r"
proof (cases "lex_ok (lex input)")
  case True
  then show ?thesis using parse_lexed by (metis parse_line_def)
qed (simp add: parse_line_def)

text \<open>
  C25. Every plan that a line parses to is well formed: each pipeline has a command, each command
  has a program name, a file name is recorded only where the redirection flag is set, the first
  connector is \<open>Always\<close>, and so is the connector after a background pipeline.
\<close>

theorem parse_line_plan_wf:
  assumes "parse_line input = Some r" "parse_ok r"
  shows "plan_wf (steps (plan r))"
proof -
  have ok: "lex_ok (lex input)" using assms
    by (auto simp: parse_line_def parse_ok_def lex_ok_def Let_def split: if_splits)
  from parse_lexed [OF this] obtain r' where "parse (lex_tokens (lex input)) = Some r'"
    "parse_ok r' \<longrightarrow> plan_wf (steps (plan r'))" .
  with ok assms show ?thesis by (simp add: parse_line_def)
qed

theorem parse_line_plan_wf_witness:
  "parse_ok (the (parse_line ''ls -l | wc > out && pwd &'')) \<and>
   plan_wf (steps (plan (the (parse_line ''ls -l | wc > out && pwd &''))))"
proof -
  let ?r = "the (parse_line ''ls -l | wc > out && pwd &'')"
  have r: "parse_line ''ls -l | wc > out && pwd &'' = Some ?r"
    using parse_line_total by (metis option.sel)
  have ok: "parse_ok ?r" by code_simp
  show ?thesis using ok parse_line_plan_wf [OF r ok] by simp
qed

end
