(* ===== verification/Resource_Control.thy ===== *)
theory Resource_Control
  imports Shell_Utils Parser
begin

text \<open>
  \<open>src/resource_control.cpp\<close>: the value readers with their 64-bit overflow check, the option parser
  of \<open>run\<close>, the application of the limits in the child, and the report of the current limits.
  \<open>unsigned long long\<close> and \<open>rlim_t\<close> are \<^typ>\<open>64 word\<close>.
\<close>

section \<open>Reading values\<close>

definition parse_unsigned :: "string \<Rightarrow> bool \<Rightarrow> 64 word option" where
  "parse_unsigned txt allow_zero =
     (if txt = [] \<or> hd txt = CHR ''-'' then None
      else case stoull txt of
             None \<Rightarrow> None
           | Some (parsed, consumed) \<Rightarrow>
               if consumed \<noteq> length txt \<or> (\<not> allow_zero \<and> parsed = 0) then None else Some parsed)"

definition upper :: "char \<Rightarrow> char" where
  "upper c = (if of_char CHR ''a'' \<le> (of_char c :: nat) \<and> (of_char c :: nat) \<le> of_char CHR ''z''
              then char_of ((of_char c :: nat) - 32) else c)"

definition size_multiplier :: "string \<Rightarrow> 64 word option" where
  "size_multiplier sfx =
     (if sfx = [] \<or> sfx = ''B'' then Some 1
      else if sfx = ''K'' \<or> sfx = ''KB'' \<or> sfx = ''KIB'' then Some 1024
      else if sfx = ''M'' \<or> sfx = ''MB'' \<or> sfx = ''MIB'' then Some (1024 * 1024)
      else if sfx = ''G'' \<or> sfx = ''GB'' \<or> sfx = ''GIB'' then Some (1024 * 1024 * 1024)
      else None)"

definition parse_size :: "string \<Rightarrow> 64 word option" where
  "parse_size txt =
     (if txt = [] \<or> hd txt = CHR ''-'' then None
      else let number = takeWhile isdigit txt
        in if number = [] then None
           else case parse_unsigned number True of
                  None \<Rightarrow> None
                | Some value \<Rightarrow>
                    (case size_multiplier (map upper (dropWhile isdigit txt)) of
                       None \<Rightarrow> None
                     | Some multiplier \<Rightarrow>
                         if (- 1) div multiplier < value then None else Some (value * multiplier)))"

definition parse_nice_value :: "string \<Rightarrow> int option" where
  "parse_nice_value txt =
     (case stol txt of
        None \<Rightarrow> None
      | Some (parsed, consumed) \<Rightarrow>
          if consumed \<noteq> length txt \<or> parsed < -20 \<or> 19 < parsed then None else Some parsed)"


section \<open>Reporting limits\<close>

abbreviation (input) RLIM_INFINITY :: "64 word" where "RLIM_INFINITY \<equiv> -1"

definition limit_value :: "64 word \<Rightarrow> string" where
  "limit_value value = (if value = RLIM_INFINITY then ''unlimited'' else nat_to_string (unat value))"

definition format_limit_line :: "kernel \<Rightarrow> string \<Rightarrow> int \<Rightarrow> string \<Rightarrow> trace \<Rightarrow> string \<times> trace" where
  "format_limit_line K name resource unit_name h =
     (let (r, h1) = syscall K (Getrlimit resource) h
      in (if ret r = -1 then name @ '': unavailable'' @ [newline]
          else name @ '': soft='' @ limit_value (rlim_cur r) @ '' hard='' @ limit_value (rlim_max r) @
               '' '' @ unit_name @ [newline], h1))"

definition limit_lines :: "(string \<times> int \<times> string) list" where
  "limit_lines =
     [(''address-space'', RLIMIT_AS, ''bytes''), (''open-files'', RLIMIT_NOFILE, ''fds''),
      (''cpu-time'', RLIMIT_CPU, ''seconds''), (''processes'', RLIMIT_NPROC, ''processes''),
      (''core-size'', RLIMIT_CORE, ''bytes'')]"

fun format_limit_lines :: "kernel \<Rightarrow> (string \<times> int \<times> string) list \<Rightarrow> trace \<Rightarrow> string \<times> trace" where
  "format_limit_lines K [] h = ([], h)"
| "format_limit_lines K ((name, resource, unit_name) # rest) h =
     (let (line, h1) = format_limit_line K name resource unit_name h;
          (lines, h2) = format_limit_lines K rest h1
      in (line @ lines, h2))"

definition render_current_limits :: "kernel \<Rightarrow> trace \<Rightarrow> string \<times> trace" where
  "render_current_limits K h =
     (let (lines, h1) = format_limit_lines K limit_lines h;
          (r, h2) = syscall K Getpriority h1
      in (''Current process resource limits'' @ [newline] @ lines @
          (if ret r = -1 \<and> errno r \<noteq> 0 then ''nice: unavailable'' @ [newline]
           else ''nice: '' @ to_string (ret r) @ [newline]), h2))"


section \<open>The options of run\<close>

record ResourceRunConfig =
  show_help :: bool
  has_max_memory :: bool
  max_memory_bytes :: "64 word"
  has_max_fds :: bool
  max_fds :: "64 word"
  has_cpu_time :: bool
  cpu_time_seconds :: "64 word"
  has_max_procs :: bool
  max_procs :: "64 word"
  has_core_size :: bool
  core_size_bytes :: "64 word"
  has_nice :: bool
  nice_value :: int
  program_args :: "string list"

record ResourceRunParseResult =
  run_config :: ResourceRunConfig
  run_error :: string

definition run_ok :: "ResourceRunParseResult \<Rightarrow> bool" where
  "run_ok r \<longleftrightarrow> run_error r = []"

definition empty_run_config :: ResourceRunConfig where
  "empty_run_config =
     \<lparr>show_help = False, has_max_memory = False, max_memory_bytes = 0, has_max_fds = False, max_fds = 0,
      has_cpu_time = False, cpu_time_seconds = 0, has_max_procs = False, max_procs = 0,
      has_core_size = False, core_size_bytes = 0, has_nice = False, nice_value = 0, program_args = []\<rparr>"

definition resource_run_usage :: string where
  "resource_run_usage =
     ''usage: run [OPTIONS] -- PROGRAM [ARGS...]'' @ [newline] @
     ''       run [OPTIONS] PROGRAM [ARGS...]'' @ [newline] @ [newline] @
     ''Run PROGRAM in a child process with per-process resource controls.'' @ [newline] @ [newline] @
     ''Options:'' @ [newline] @
     ''  --max-memory SIZE   address-space limit (B/K/M/G suffixes)'' @ [newline] @
     ''  --max-fds N         maximum open file descriptors'' @ [newline] @
     ''  --cpu-time SEC      CPU-time limit in seconds'' @ [newline] @
     ''  --max-procs N       maximum processes for this real user (RLIMIT_NPROC)'' @ [newline] @
     ''  --core-size SIZE    maximum core-file size (B/K/M/G; 0 disables cores)'' @ [newline] @
     ''  --nice N            scheduling nice value from -20 to 19'' @ [newline] @
     ''  -h, --help          show this help'' @ [newline]"

text \<open>
  An option with a value: \<open>option_value\<close> takes the next argument (or fails), the reader checks it and
  the member is set. \<open>Inl\<close> is the early \<open>return out\<close> with its error.
\<close>

definition option_value :: "string \<Rightarrow> string list \<Rightarrow> string + string \<times> string list" where
  "option_value option rest =
     (case rest of
        [] \<Rightarrow> Inl (''run: '' @ option @ '' requires a value'')
      | v # rest' \<Rightarrow> Inr (v, rest'))"

definition read_option ::
  "(string \<Rightarrow> 'v option) \<Rightarrow> (string \<Rightarrow> string) \<Rightarrow> ('v \<Rightarrow> ResourceRunConfig \<Rightarrow> ResourceRunConfig) \<Rightarrow>
   string \<Rightarrow> string list \<Rightarrow> ResourceRunConfig \<Rightarrow> ResourceRunParseResult + ResourceRunConfig \<times> string list" where
  "read_option reader invalid store arg rest cfg =
     (case option_value arg rest of
        Inl e \<Rightarrow> Inl \<lparr>run_config = cfg, run_error = e\<rparr>
      | Inr (value, rest') \<Rightarrow>
          (case reader value of
             None \<Rightarrow> Inl \<lparr>run_config = cfg, run_error = invalid value\<rparr>
           | Some x \<Rightarrow> Inr (store x cfg, rest')))"

definition run_option ::
  "string \<Rightarrow> string list \<Rightarrow> ResourceRunConfig \<Rightarrow> ResourceRunParseResult + ResourceRunConfig \<times> string list" where
  "run_option arg rest cfg =
     (if arg = ''--max-memory'' then
        read_option parse_size (\<lambda>v. ''run: invalid --max-memory value: '' @ v)
          (\<lambda>x c. c\<lparr>max_memory_bytes := x, has_max_memory := True\<rparr>) arg rest cfg
      else if arg = ''--max-fds'' then
        read_option (\<lambda>v. parse_unsigned v False) (\<lambda>v. ''run: invalid --max-fds value: '' @ v)
          (\<lambda>x c. c\<lparr>max_fds := x, has_max_fds := True\<rparr>) arg rest cfg
      else if arg = ''--cpu-time'' then
        read_option (\<lambda>v. parse_unsigned v False) (\<lambda>v. ''run: invalid --cpu-time value: '' @ v)
          (\<lambda>x c. c\<lparr>cpu_time_seconds := x, has_cpu_time := True\<rparr>) arg rest cfg
      else if arg = ''--max-procs'' then
        read_option (\<lambda>v. parse_unsigned v False) (\<lambda>v. ''run: invalid --max-procs value: '' @ v)
          (\<lambda>x c. c\<lparr>max_procs := x, has_max_procs := True\<rparr>) arg rest cfg
      else if arg = ''--core-size'' then
        read_option parse_size (\<lambda>v. ''run: invalid --core-size value: '' @ v)
          (\<lambda>x c. c\<lparr>core_size_bytes := x, has_core_size := True\<rparr>) arg rest cfg
      else if arg = ''--nice'' then
        read_option parse_nice_value (\<lambda>v. ''run: --nice expects an integer from -20 to 19'')
          (\<lambda>n c. c\<lparr>nice_value := n, has_nice := True\<rparr>) arg rest cfg
      else Inl \<lparr>run_config = cfg, run_error = ''run: unknown option: '' @ arg\<rparr>)"

lemma read_option_Inr:
  assumes "read_option reader invalid store arg rest cfg = Inr (cfg', rest')"
  shows "\<exists>v x. rest = v # rest' \<and> reader v = Some x \<and> cfg' = store x cfg"
  using assms
  by (auto simp: read_option_def option_value_def split: sum.splits option.splits list.splits)

lemma read_option_Inl:
  assumes "read_option reader invalid store arg rest cfg = Inl r" "\<And>v. invalid v \<noteq> []"
  shows "run_error r \<noteq> []"
  using assms
  by (auto simp: read_option_def option_value_def split: sum.splits option.splits list.splits)

lemma run_option_shorter: "run_option arg rest cfg = Inr (cfg', rest') \<Longrightarrow> length rest' < length rest"
  unfolding run_option_def by (simp only: split: if_split_asm) (auto dest!: read_option_Inr)

text \<open>
  The loop over the arguments from position \<open>i\<close> on. It ends with the configuration, whether \<open>--\<close> was
  seen, and the arguments that are left.
\<close>

function run_options ::
  "ResourceRunConfig \<Rightarrow> string list \<Rightarrow> ResourceRunParseResult + ResourceRunConfig \<times> bool \<times> string list" where
  "run_options cfg [] = Inr (cfg, False, [])"
| "run_options cfg (arg # rest) =
     (if arg = ''--'' then Inr (cfg, True, rest)
      else if arg = ''-h'' \<or> arg = ''--help'' then Inr (cfg\<lparr>show_help := True\<rparr>, False, rest)
      else if arg = [] \<or> hd arg \<noteq> CHR ''-'' then Inr (cfg, False, arg # rest)
      else case run_option arg rest cfg of
             Inl r \<Rightarrow> Inl r
           | Inr (cfg', rest') \<Rightarrow> run_options cfg' rest')"
  by pat_completeness auto
termination
  by (relation "measure (\<lambda>(cfg, args). length args)") (auto dest: run_option_shorter)

definition parse_resource_run :: "Command \<Rightarrow> ResourceRunParseResult" where
  "parse_resource_run command =
     (if args command = [] \<or> hd (args command) \<noteq> ''run''
      then \<lparr>run_config = empty_run_config, run_error = ''run: internal parse error''\<rparr>
      else case run_options empty_run_config (tl (args command)) of
             Inl r \<Rightarrow> r
           | Inr (cfg, explicit_separator, rest) \<Rightarrow>
               if show_help cfg then
                 \<lparr>run_config = cfg, run_error = (if rest \<noteq> [] then ''run: --help does not accept a program'' else [])\<rparr>
               else if explicit_separator \<and> rest = [] then
                 \<lparr>run_config = cfg, run_error = ''run: missing program after --''\<rparr>
               else if rest = [] then \<lparr>run_config = cfg, run_error = ''run: missing program''\<rparr>
               else \<lparr>run_config = cfg\<lparr>program_args := rest\<rparr>, run_error = []\<rparr>)"


section \<open>Applying the limits\<close>

text \<open>\<open>Inl\<close>-free form: the boolean is the C++ result, the trace carries the messages.\<close>

definition apply_soft_limit ::
  "environ \<Rightarrow> kernel \<Rightarrow> int \<Rightarrow> 64 word \<Rightarrow> string \<Rightarrow> int \<Rightarrow> trace \<Rightarrow> bool \<times> trace" where
  "apply_soft_limit e K resource requested label error_fd h =
     (if RLIM_INFINITY \<le> requested
      then (False, emit (WriteAll error_fd (''run: '' @ label @ '' limit is too large'' @ [newline])) h)
      else let (current, h1) = syscall K (Getrlimit resource) h
        in if ret current = -1
           then (False, emit (WriteAll error_fd
                   (''run: getrlimit('' @ label @ ''): '' @ strerror e (errno current) @ [newline])) h1)
           else if rlim_max current \<noteq> RLIM_INFINITY \<and> rlim_max current < requested
           then (False, emit (WriteAll error_fd
                   (''run: requested '' @ label @ '' limit exceeds hard limit'' @ [newline])) h1)
           else let (updated, h2) = syscall K (Setrlimit resource requested (rlim_max current)) h1
             in if ret updated = -1
                then (False, emit (WriteAll error_fd
                        (''run: setrlimit('' @ label @ ''): '' @ strerror e (errno updated) @ [newline])) h2)
                else (True, h2))"

text \<open>The limits of \<open>execute_resource_run_child\<close> in their order: member tests, resource, value, label.\<close>

definition requested_limits :: "ResourceRunConfig \<Rightarrow> (int \<times> 64 word \<times> string) list" where
  "requested_limits cfg =
     (if has_max_memory cfg then [(RLIMIT_AS, max_memory_bytes cfg, ''address-space'')] else []) @
     (if has_max_fds cfg then [(RLIMIT_NOFILE, max_fds cfg, ''open-files'')] else []) @
     (if has_cpu_time cfg then [(RLIMIT_CPU, cpu_time_seconds cfg, ''cpu-time'')] else []) @
     (if has_max_procs cfg then [(RLIMIT_NPROC, max_procs cfg, ''processes'')] else []) @
     (if has_core_size cfg then [(RLIMIT_CORE, core_size_bytes cfg, ''core-size'')] else [])"

fun apply_limits ::
  "environ \<Rightarrow> kernel \<Rightarrow> int \<Rightarrow> (int \<times> 64 word \<times> string) list \<Rightarrow> trace \<Rightarrow> bool \<times> trace" where
  "apply_limits e K error_fd [] h = (True, h)"
| "apply_limits e K error_fd ((resource, value, label) # rest) h =
     (let (ok, h1) = apply_soft_limit e K resource value label error_fd h
      in if \<not> ok then (False, h1) else apply_limits e K error_fd rest h1)"

definition apply_nice :: "environ \<Rightarrow> kernel \<Rightarrow> int \<Rightarrow> ResourceRunConfig \<Rightarrow> trace \<Rightarrow> bool \<times> trace" where
  "apply_nice e K error_fd cfg h =
     (if has_nice cfg then
        (let (r, h1) = syscall K (Setpriority (nice_value cfg)) h
         in if ret r = -1
            then (False, emit (WriteAll error_fd (''run: setpriority: '' @ strerror e (errno r) @ [newline])) h1)
            else (True, h1))
      else (True, h))"

definition run_program :: "environ \<Rightarrow> kernel \<Rightarrow> int \<Rightarrow> string list \<Rightarrow> trace \<Rightarrow> child_end \<times> trace" where
  "run_program e K error_fd prog h =
     (let executable = find_executable e (hd prog)
      in if executable = []
         then (Exited 127, emit (WriteAll error_fd (hd prog @ '': command not found'' @ [newline])) h)
         else let (r, h1) = execv K executable prog h
           in if ret r \<noteq> -1 then (Replaced executable prog, h1)
              else (Exited 126, emit (WriteAll error_fd
                      (''run: exec '' @ hd prog @ '': '' @ strerror e (errno r) @ [newline])) h1))"

definition execute_resource_run_child ::
  "environ \<Rightarrow> kernel \<Rightarrow> Command \<Rightarrow> int \<Rightarrow> int \<Rightarrow> trace \<Rightarrow> child_end \<times> trace" where
  "execute_resource_run_child e K command output_fd error_fd h =
     (let parsed = parse_resource_run command; cfg = run_config parsed
      in if \<not> run_ok parsed then (Exited 2, emit (WriteAll error_fd (run_error parsed @ [newline])) h)
         else if show_help cfg then (Exited 0, emit (WriteAll output_fd resource_run_usage) h)
         else let (ok, h1) = apply_limits e K error_fd (requested_limits cfg) h
           in if \<not> ok then (Exited 1, h1)
              else let (ok', h2) = apply_nice e K error_fd cfg h1
                in if \<not> ok' then (Exited 1, h2) else run_program e K error_fd (program_args cfg) h2)"

section \<open>Lemmas on the readers\<close>

lemma isdigit_not_minus: "isdigit c \<Longrightarrow> c \<noteq> CHR ''-''"
  by (auto simp: isdigit_def)

lemma parse_unsigned_digits:
  assumes "ds \<noteq> []" "list_all isdigit ds"
  shows "parse_unsigned ds z =
    (if digits_val ds < 2 ^ 64 \<and> (z \<or> digits_val ds \<noteq> 0) then Some (of_nat (digits_val ds)) else None)"
proof -
  have "hd ds \<noteq> CHR ''-''" using assms by (cases ds) (auto dest: isdigit_not_minus)
  moreover have "(of_nat (digits_val ds) :: 64 word) = 0 \<longleftrightarrow> digits_val ds = 0" if "digits_val ds < 2 ^ 64"
    using that by (auto simp: word_of_nat_eq_0_iff dest: nat_dvd_not_less [rotated])
  ultimately show ?thesis using assms by (simp add: parse_unsigned_def stoull_digits)
qed

lemma max_div_less_iff:
  fixes v m :: "64 word"
  assumes "0 < unat m"
  shows "(- 1) div m < v \<longleftrightarrow> 2 ^ 64 \<le> unat v * unat m"
proof -
  have "unat ((- 1 :: 64 word) div m) = (2 ^ 64 - 1) div unat m"
    by (simp add: unat_div_distrib unsigned_minus_1_eq_mask mask_eq_exp_minus_1)
  then have "(- 1) div m < v \<longleftrightarrow> (2 ^ 64 - 1) div unat m < unat v"
    by (simp add: word_less_nat_alt)
  also have "\<dots> \<longleftrightarrow> 2 ^ 64 - 1 < unat v * unat m" using assms by (rule div_less_iff_less_mult)
  finally show ?thesis by auto
qed

lemma size_multiplier_pos: "size_multiplier s = Some m \<Longrightarrow> 0 < unat m"
  by (auto simp: size_multiplier_def split: if_splits)

text \<open>A number and a suffix, split where the digits end.\<close>

lemma parse_size_split:
  assumes "ds \<noteq> []" "list_all isdigit ds" "sfx = [] \<or> \<not> isdigit (hd sfx)"
  shows "parse_size (ds @ sfx) =
    (case size_multiplier (map upper sfx) of
       Some m \<Rightarrow> if digits_val ds * unat m < 2 ^ 64 then Some (of_nat (digits_val ds * unat m)) else None
     | None \<Rightarrow> None)"
proof -
  have t: "takeWhile isdigit (ds @ sfx) = ds" "dropWhile isdigit (ds @ sfx) = sfx"
    using assms(2,3) by (cases sfx; auto simp: list_all_iff takeWhile_append dropWhile_append)+
  have "hd (ds @ sfx) \<noteq> CHR ''-''" using assms by (cases ds) (auto dest: isdigit_not_minus)
  moreover have "digits_val ds < 2 ^ 64" if "digits_val ds * unat m < 2 ^ 64" "0 < unat m" for m :: "64 word"
    using that by (metis less_le_trans linorder_not_less mult_le_mono2 nat_mult_1_right Suc_leI One_nat_def)
  moreover have "unat (of_nat (digits_val ds) :: 64 word) = digits_val ds" if "digits_val ds < 2 ^ 64"
    using that by (simp add: unat_of_nat)
  ultimately show ?thesis
    using assms(1,2)
    by (auto simp: parse_size_def t parse_unsigned_digits max_div_less_iff dest: size_multiplier_pos
        split: option.splits)
qed

lemma parse_size_shape:
  assumes "parse_size t = Some b"
  obtains ds sfx where "t = ds @ sfx" "ds \<noteq> []" "list_all isdigit ds" "sfx = [] \<or> \<not> isdigit (hd sfx)"
proof
  show "t = takeWhile isdigit t @ dropWhile isdigit t" by simp
  show "takeWhile isdigit t \<noteq> []" using assms by (auto simp: parse_size_def Let_def split: if_splits)
  show "list_all isdigit (takeWhile isdigit t)" by (auto simp: list_all_iff dest: set_takeWhileD)
  show "dropWhile isdigit t = [] \<or> \<not> isdigit (hd (dropWhile isdigit t))" using hd_dropWhile by blast
qed

section \<open>Properties\<close>

text \<open>
  C33. Sizes are read exactly. A text denotes the size \<open>b\<close> precisely if it is a decimal number
  followed by a known unit in either case, and \<open>b\<close> is the number times the unit as integers: a
  product that does not fit in 64 bits is refused, never wrapped.
\<close>

theorem parse_size_exact:
  "parse_size t = Some b \<longleftrightarrow>
     (\<exists>ds sfx m. t = ds @ sfx \<and> ds \<noteq> [] \<and> list_all isdigit ds \<and> (sfx = [] \<or> \<not> isdigit (hd sfx)) \<and>
        size_multiplier (map upper sfx) = Some m \<and> unat b = digits_val ds * unat m)"
proof
  assume a: "parse_size t = Some b"
  then obtain ds sfx where s: "t = ds @ sfx" "ds \<noteq> []" "list_all isdigit ds" "sfx = [] \<or> \<not> isdigit (hd sfx)"
    by (rule parse_size_shape)
  with a parse_size_split [OF s(2-4)] obtain m where "size_multiplier (map upper sfx) = Some m"
    "digits_val ds * unat m < 2 ^ 64" "b = of_nat (digits_val ds * unat m)"
    by (auto split: option.splits if_splits)
  with s show "\<exists>ds sfx m. t = ds @ sfx \<and> ds \<noteq> [] \<and> list_all isdigit ds \<and> (sfx = [] \<or> \<not> isdigit (hd sfx)) \<and>
        size_multiplier (map upper sfx) = Some m \<and> unat b = digits_val ds * unat m"
    by (intro exI [of _ ds] exI [of _ sfx] exI [of _ m]) (simp add: unat_of_nat del: of_nat_mult)
next
  assume "\<exists>ds sfx m. t = ds @ sfx \<and> ds \<noteq> [] \<and> list_all isdigit ds \<and> (sfx = [] \<or> \<not> isdigit (hd sfx)) \<and>
        size_multiplier (map upper sfx) = Some m \<and> unat b = digits_val ds * unat m"
  then obtain ds sfx m where s: "t = ds @ sfx" "ds \<noteq> []" "list_all isdigit ds" "sfx = [] \<or> \<not> isdigit (hd sfx)"
    "size_multiplier (map upper sfx) = Some m" "unat b = digits_val ds * unat m" by blast
  have "digits_val ds * unat m < 2 ^ 64" unfolding s(6) [symmetric] using unsigned_less [of b] by simp
  then show "parse_size t = Some b"
    unfolding s(1) using parse_size_split [OF s(2-4)] s(5) s(6) [symmetric] by simp
qed

theorem parse_size_exact_witness: "parse_size ''64KiB'' = Some 65536 \<and> unat (65536 :: 64 word) = digits_val ''64'' * 1024"
proof -
  have u: "size_multiplier (map upper ''KiB'') = Some 1024" "list_all isdigit ''64''" "\<not> isdigit (hd ''KiB'')"
    "digits_val ''64'' = 64" by code_simp+
  then show ?thesis
    using parse_size_exact [of "''64KiB''" 65536, THEN iffD2, OF exI, OF exI, OF exI, of "''64''" "''KiB''" 1024] by simp
qed

definition config_ok :: "ResourceRunConfig \<Rightarrow> bool" where
  "config_ok cfg \<longleftrightarrow>
     (has_nice cfg \<longrightarrow> -20 \<le> nice_value cfg \<and> nice_value cfg \<le> 19) \<and>
     (has_max_fds cfg \<longrightarrow> max_fds cfg \<noteq> 0) \<and> (has_cpu_time cfg \<longrightarrow> cpu_time_seconds cfg \<noteq> 0) \<and>
     (has_max_procs cfg \<longrightarrow> max_procs cfg \<noteq> 0)"

lemma parse_unsigned_nonzero: "parse_unsigned t False = Some v \<Longrightarrow> v \<noteq> 0"
  by (auto simp: parse_unsigned_def split: if_splits option.splits prod.splits)

lemma parse_nice_range: "parse_nice_value t = Some n \<Longrightarrow> -20 \<le> n \<and> n \<le> 19"
  by (auto simp: parse_nice_value_def split: if_splits option.splits prod.splits)

lemma read_option_ok:
  assumes "read_option reader invalid store arg rest cfg = Inr (cfg', rest')"
    and "\<And>v x. reader v = Some x \<Longrightarrow> config_ok (store x cfg) \<and> show_help (store x cfg) = show_help cfg"
  shows "config_ok cfg' \<and> show_help cfg' = show_help cfg \<and> suffix rest' rest"
proof -
  obtain v x where "rest = v # rest'" "reader v = Some x" "cfg' = store x cfg"
    using read_option_Inr [OF assms(1)] by blast
  with assms(2) [of v x] show ?thesis by (simp add: suffix_ConsI)
qed

lemma config_ok_update:
  assumes "config_ok cfg"
  shows "config_ok (cfg\<lparr>max_memory_bytes := x, has_max_memory := True\<rparr>)"
    "config_ok (cfg\<lparr>core_size_bytes := x, has_core_size := True\<rparr>)"
    "x \<noteq> 0 \<Longrightarrow> config_ok (cfg\<lparr>max_fds := x, has_max_fds := True\<rparr>)"
    "x \<noteq> 0 \<Longrightarrow> config_ok (cfg\<lparr>cpu_time_seconds := x, has_cpu_time := True\<rparr>)"
    "x \<noteq> 0 \<Longrightarrow> config_ok (cfg\<lparr>max_procs := x, has_max_procs := True\<rparr>)"
    "-20 \<le> n \<and> n \<le> 19 \<Longrightarrow> config_ok (cfg\<lparr>nice_value := n, has_nice := True\<rparr>)"
  using assms by (simp_all add: config_ok_def)

lemma run_option_ok:
  assumes "run_option arg rest cfg = Inr (cfg', rest')" "config_ok cfg"
  shows "config_ok cfg' \<and> show_help cfg' = show_help cfg \<and> suffix rest' rest"
  using assms(1) unfolding run_option_def
  by (simp only: split: if_split_asm)
    ((erule read_option_ok, simp add: config_ok_update [OF assms(2)] parse_unsigned_nonzero parse_nice_range)+, simp)

lemma run_options_ok:
  assumes "run_options cfg as = Inr (cfg', sep, rest)" "config_ok cfg"
  shows "config_ok cfg' \<and> suffix rest as"
  using assms
proof (induction cfg "as" rule: run_options.induct)
  case (2 cfg arg more)
  have hlp: "config_ok (cfg\<lparr>show_help := True\<rparr>)" using 2(3) by (simp add: config_ok_def)
  consider "arg = ''--''" | "arg \<noteq> ''--''" "arg = ''-h'' \<or> arg = ''--help''"
    | "arg \<noteq> ''--''" "\<not> (arg = ''-h'' \<or> arg = ''--help'')" "arg = [] \<or> hd arg \<noteq> CHR ''-''"
    | "arg \<noteq> ''--''" "\<not> (arg = ''-h'' \<or> arg = ''--help'')" "\<not> (arg = [] \<or> hd arg \<noteq> CHR ''-'')"
    by blast
  then show ?case
  proof cases
    case 4
    from 2(2) obtain cfg1 rest1 where r: "run_option arg more cfg = Inr (cfg1, rest1)"
      "run_options cfg1 rest1 = Inr (cfg', sep, rest)"
      unfolding run_options.simps if_not_P [OF 4(1)] if_not_P [OF 4(2)] if_not_P [OF 4(3)]
      by (cases "run_option arg more cfg") (simp, force)
    have "config_ok cfg'" "suffix rest rest1"
      using run_option_ok [OF r(1) 2(3)] 2(1) [OF 4 r(1) refl r(2)] by simp_all
    with run_option_ok [OF r(1) 2(3)] show ?thesis
      by (blast intro: suffix_order.order_trans suffix_ConsI)
  qed (use 2(2,3) hlp in \<open>simp_all add: suffix_ConsI\<close>)
qed simp

lemma run_options_error: "run_options cfg as = Inl r \<Longrightarrow> run_error r \<noteq> []"
proof (induction cfg "as" rule: run_options.induct)
  case (2 cfg arg more)
  have "run_option arg more cfg = Inl r \<Longrightarrow> run_error r \<noteq> []" for r
    unfolding run_option_def by (simp only: split: if_split_asm) (auto dest!: read_option_Inl)
  with 2 show ?case by (auto split: if_splits sum.splits)
qed simp

text \<open>
  What the option parser of \<open>run\<close> accepts is usable: either it is a request for help, or there is
  a program to run and the program with its arguments is the tail of the command line; a nice
  value is between -20 and 19 and the counted limits are not zero.
\<close>

theorem parse_resource_run_valid:
  assumes "run_ok (parse_resource_run command)" "cfg = run_config (parse_resource_run command)"
  shows "(show_help cfg \<or> program_args cfg \<noteq> [] \<and> suffix (program_args cfg) (tl (args command))) \<and>
    (has_nice cfg \<longrightarrow> -20 \<le> nice_value cfg \<and> nice_value cfg \<le> 19) \<and>
    (has_max_fds cfg \<longrightarrow> max_fds cfg \<noteq> 0) \<and> (has_cpu_time cfg \<longrightarrow> cpu_time_seconds cfg \<noteq> 0) \<and>
    (has_max_procs cfg \<longrightarrow> max_procs cfg \<noteq> 0)"
proof -
  have init: "config_ok empty_run_config" "\<not> show_help empty_run_config"
    by (simp_all add: config_ok_def empty_run_config_def)
  have upd: "config_ok (c\<lparr>program_args := p\<rparr>) = config_ok c" for c p by (simp add: config_ok_def)
  obtain c sep rest where r: "run_options empty_run_config (tl (args command)) = Inr (c, sep, rest)"
    using assms(1) run_options_error
    by (cases "run_options empty_run_config (tl (args command))")
      (auto simp: parse_resource_run_def run_ok_def split: if_splits)
  from run_options_ok [OF r init(1)] have "config_ok c" "suffix rest (tl (args command))" by auto
  with assms r have "config_ok cfg \<and> (show_help cfg \<or> program_args cfg \<noteq> [] \<and> suffix (program_args cfg) (tl (args command)))"
    by (auto simp: parse_resource_run_def run_ok_def upd split: if_splits)
  then show ?thesis unfolding config_ok_def by blast
qed

definition demo_run :: Command where
  "demo_run = empty_command\<lparr>args := [''run'', ''--max-memory'', ''64M'', ''--nice'', ''5'', ''--'', ''cat'', ''-n'']\<rparr>"

theorem parse_resource_run_valid_witness:
  "program_args (run_config (parse_resource_run demo_run)) = [''cat'', ''-n''] \<and>
   suffix [''cat'', ''-n''] (tl (args demo_run)) \<and> nice_value (run_config (parse_resource_run demo_run)) = 5"
proof -
  have "run_ok (parse_resource_run demo_run)" "\<not> show_help (run_config (parse_resource_run demo_run))"
    "program_args (run_config (parse_resource_run demo_run)) = [''cat'', ''-n'']"
    "nice_value (run_config (parse_resource_run demo_run)) = 5"
    by code_simp+
  with parse_resource_run_valid [of demo_run, OF _ refl] show ?thesis by simp
qed

section \<open>The calls of the child\<close>

lemma not_infinity_le:
  fixes v m :: "64 word"
  assumes "\<not> - 1 \<le> v" "\<not> (m \<noteq> - 1 \<and> m < v)"
  shows "v \<le> m"
  using assms by (cases "m = - 1") (auto simp: word_order.extremum)

text \<open>
  The limits that a list of calls has put in force after the trace \<open>h\<close> (soft and hard, for each resource the last
  accepted \<open>setrlimit\<close>), that none of its calls was refused, and what the options of the command ask for.
\<close>

fun set_limits :: "kernel \<Rightarrow> trace \<Rightarrow> trace \<Rightarrow> (int \<rightharpoonup> 64 word \<times> 64 word)" where
  "set_limits K h [] = Map.empty"
| "set_limits K h (c # cs) =
     (case c of Setrlimit r v m \<Rightarrow> if ret (K h c) \<noteq> -1 then [r \<mapsto> (v, m)] else Map.empty | _ \<Rightarrow> Map.empty) ++
     set_limits K (h @ [c]) cs"

fun all_accepted :: "kernel \<Rightarrow> trace \<Rightarrow> trace \<Rightarrow> bool" where
  "all_accepted K h [] = True"
| "all_accepted K h (c # cs) = (ret (K h c) \<noteq> -1 \<and> all_accepted K (h @ [c]) cs)"

definition asked_limits :: "ResourceRunConfig \<Rightarrow> int \<rightharpoonup> 64 word" where
  "asked_limits cfg r =
     (if r = RLIMIT_AS \<and> has_max_memory cfg then Some (max_memory_bytes cfg)
      else if r = RLIMIT_NOFILE \<and> has_max_fds cfg then Some (max_fds cfg)
      else if r = RLIMIT_CPU \<and> has_cpu_time cfg then Some (cpu_time_seconds cfg)
      else if r = RLIMIT_NPROC \<and> has_max_procs cfg then Some (max_procs cfg)
      else if r = RLIMIT_CORE \<and> has_core_size cfg then Some (core_size_bytes cfg)
      else None)"

text \<open>A hard limit in force is the one that the kernel reported for the resource, and the soft limit is below it.\<close>

definition hard_kept :: "kernel \<Rightarrow> trace \<Rightarrow> trace \<Rightarrow> bool" where
  "hard_kept K h cs \<longleftrightarrow> (\<forall>r v m. set_limits K h cs r = Some (v, m) \<longrightarrow>
     v \<le> m \<and> (\<exists>as. prefix (as @ [Getrlimit r]) cs \<and> rlim_max (K (h @ as) (Getrlimit r)) = m))"

text \<open>
  A request was refused on the way: a call that reads or sets a limit or the priority failed, or a limit asked for
  is above the hard limit that the kernel reported.
\<close>

fun request_refused :: "kernel \<Rightarrow> (int \<rightharpoonup> 64 word) \<Rightarrow> trace \<Rightarrow> trace \<Rightarrow> bool" where
  "request_refused K asked h [] = False"
| "request_refused K asked h (c # cs) =
     ((case c of
         Getrlimit r \<Rightarrow> ret (K h c) = -1 \<or> (\<exists>v. asked r = Some v \<and> rlim_max (K h c) < v)
       | Setrlimit r v m \<Rightarrow> ret (K h c) = -1
       | Setpriority n \<Rightarrow> ret (K h c) = -1
       | _ \<Rightarrow> False) \<or> request_refused K asked (h @ [c]) cs)"

lemma set_limits_append: "set_limits K h (as @ bs) = set_limits K h as ++ set_limits K (h @ as) bs"
  by (induction "as" arbitrary: h) (simp_all add: map_add_assoc)

lemma all_accepted_append: "all_accepted K h (as @ bs) \<longleftrightarrow> all_accepted K h as \<and> all_accepted K (h @ as) bs"
  by (induction "as" arbitrary: h) simp_all

lemma request_refused_append:
  "request_refused K asked h (as @ bs) \<longleftrightarrow> request_refused K asked h as \<or> request_refused K asked (h @ as) bs"
  by (induction "as" arbitrary: h) simp_all

definition no_exec :: "trace \<Rightarrow> bool" where
  "no_exec cs \<longleftrightarrow> list_all (\<lambda>c. case c of Execv _ _ \<Rightarrow> False | _ \<Rightarrow> True) cs"

lemma no_exec_simps [simp]:
  "no_exec []" "no_exec (as @ bs) \<longleftrightarrow> no_exec as \<and> no_exec bs" "no_exec (WriteAll fd t # cs) \<longleftrightarrow> no_exec cs"
  "no_exec (Getrlimit r # cs) \<longleftrightarrow> no_exec cs" "no_exec (Setrlimit r v m # cs) \<longleftrightarrow> no_exec cs"
  "no_exec (Setpriority n # cs) \<longleftrightarrow> no_exec cs" "\<not> no_exec (Execv p xs # cs)"
  by (simp_all add: no_exec_def)

lemma apply_soft_limit_ok:
  assumes "apply_soft_limit e K res v label fd h = (True, h')"
  obtains m where "m = rlim_max (K h (Getrlimit res))" "h' = h @ [Getrlimit res, Setrlimit res v m]" "v \<le> m"
    "all_accepted K h [Getrlimit res, Setrlimit res v m]"
  using assms
  by (auto simp: apply_soft_limit_def syscall_def split: if_splits intro: not_infinity_le)

lemma apply_soft_limit_outcome:
  assumes "apply_soft_limit e K res v label fd h = (ok, h')" "asked res = Some v"
  shows "\<exists>cs. h' = h @ cs \<and> no_exec cs \<and> (ok \<longleftrightarrow> v \<noteq> RLIM_INFINITY \<and> \<not> request_refused K asked h cs)"
  using assms
  by (auto simp: apply_soft_limit_def syscall_def emit_def word_order.extremum_unique not_less split: if_splits)

text \<open>All limits of a list.\<close>

abbreviation limit_map :: "(int \<times> 64 word \<times> string) list \<Rightarrow> (int \<rightharpoonup> 64 word)" where
  "limit_map lims \<equiv> map_of (map (\<lambda>(r, v, _). (r, v)) lims)"

lemma hard_kept_next:
  assumes "hard_kept K (h @ [Getrlimit r, Setrlimit r v m]) cs" "m = rlim_max (K h (Getrlimit r))" "v \<le> m"
  shows "hard_kept K h ([Getrlimit r, Setrlimit r v m] @ cs)"
  unfolding hard_kept_def
proof (intro allI impI)
  fix r' v' m'
  assume s: "set_limits K h ([Getrlimit r, Setrlimit r v m] @ cs) r' = Some (v', m')"
  show "v' \<le> m' \<and> (\<exists>as. prefix (as @ [Getrlimit r']) ([Getrlimit r, Setrlimit r v m] @ cs) \<and> rlim_max (K (h @ as) (Getrlimit r')) = m')"
  proof (cases "set_limits K (h @ [Getrlimit r, Setrlimit r v m]) cs r'")
    case None
    with s have "r' = r" "v' = v" "m' = m" by (auto simp: map_add_def split: if_splits)
    with assms show ?thesis by (auto intro: exI [of _ "[]"])
  next
    case (Some x)
    with s have "x = (v', m')" by (auto simp: map_add_def)
    with Some assms(1) obtain "as" where "v' \<le> m'" "prefix (as @ [Getrlimit r']) cs"
      "rlim_max (K ((h @ [Getrlimit r, Setrlimit r v m]) @ as) (Getrlimit r')) = m'" unfolding hard_kept_def by blast
    then show ?thesis by (auto intro: exI [of _ "[Getrlimit r, Setrlimit r v m] @ as"])
  qed
qed

lemma apply_limits_ok:
  assumes "apply_limits e K fd lims h = (True, h')" "distinct (map fst lims)"
  shows "\<exists>cs. h' = h @ cs \<and> all_accepted K h cs \<and> map_option fst \<circ> set_limits K h cs = limit_map lims \<and> hard_kept K h cs \<and>
    (\<forall>n. Setpriority n \<notin> set cs)"
  using assms
proof (induction lims arbitrary: h)
  case Nil
  then show ?case by (auto simp: hard_kept_def)
next
  case (Cons l lims)
  obtain r v label where l: "l = (r, v, label)" by (cases l)
  from Cons.prems l obtain h1 where a: "apply_soft_limit e K r v label fd h = (True, h1)"
    "apply_limits e K fd lims h1 = (True, h')" by (auto split: prod.splits if_splits)
  from a(1) obtain m where m: "m = rlim_max (K h (Getrlimit r))" "h1 = h @ [Getrlimit r, Setrlimit r v m]" "v \<le> m"
    "all_accepted K h [Getrlimit r, Setrlimit r v m]" by (rule apply_soft_limit_ok)
  let ?c = "[Getrlimit r, Setrlimit r v m]"
  have "distinct (map fst lims)" using Cons.prems(2) by simp
  from Cons.IH [OF a(2) this] obtain cs where cs: "h' = h1 @ cs" "all_accepted K h1 cs"
    "map_option fst \<circ> set_limits K h1 cs = limit_map lims" "hard_kept K h1 cs" "\<forall>n. Setpriority n \<notin> set cs" by blast
  have "limit_map lims r = None" using Cons.prems(2) l by (force simp: map_of_eq_None_iff)
  then have none: "set_limits K h1 cs r = None" using fun_cong [OF cs(3), of r] by simp
  have "map_option fst \<circ> set_limits K h (?c @ cs) = limit_map (l # lims)"
  proof
    fix r'
    show "(map_option fst \<circ> set_limits K h (?c @ cs)) r' = limit_map (l # lims) r'"
      using none m(2,4) fun_cong [OF cs(3), of r'] l by (auto simp: map_add_def split: option.splits)
  qed
  moreover have "hard_kept K h (?c @ cs)" using cs(4) m by (intro hard_kept_next) simp_all
  ultimately show ?case using cs m by (intro exI [of _ "?c @ cs"]) simp
qed

lemma apply_limits_outcome:
  assumes "apply_limits e K fd lims h = (ok, h')" "\<forall>(r, v, l) \<in> set lims. asked r = Some v"
  shows "\<exists>cs. h' = h @ cs \<and> no_exec cs \<and>
    (ok \<longleftrightarrow> (\<forall>(r, v, l) \<in> set lims. v \<noteq> RLIM_INFINITY) \<and> \<not> request_refused K asked h cs)"
  using assms
proof (induction lims arbitrary: h)
  case (Cons l lims)
  obtain r v label where l: "l = (r, v, label)" by (cases l)
  obtain ok1 h1 where s: "apply_soft_limit e K r v label fd h = (ok1, h1)" by fastforce
  from apply_soft_limit_outcome [OF s, of asked] Cons.prems(2) l obtain cs where cs: "h1 = h @ cs" "no_exec cs"
    "ok1 \<longleftrightarrow> v \<noteq> RLIM_INFINITY \<and> \<not> request_refused K asked h cs" by auto
  show ?case
  proof (cases ok1)
    case True
    with Cons.prems l s have "apply_limits e K fd lims h1 = (ok, h')" by simp
    from Cons.IH [OF this] Cons.prems(2) obtain ds where "h' = h1 @ ds" "no_exec ds"
      "ok \<longleftrightarrow> (\<forall>(r, v, l) \<in> set lims. v \<noteq> RLIM_INFINITY) \<and> \<not> request_refused K asked h1 ds" by auto
    with cs True l show ?thesis by (intro exI [of _ "cs @ ds"]) (simp add: request_refused_append)
  next
    case False
    with Cons.prems(1) l s have "ok = False" "h' = h1" by simp_all
    with False cs l show ?thesis by auto
  qed
qed simp

lemma requested_limits_map: "limit_map (requested_limits cfg) = asked_limits cfg" "distinct (map fst (requested_limits cfg))"
  by (auto simp: requested_limits_def asked_limits_def fun_eq_iff)

lemma requested_limits_asked: "\<forall>(r, v, l) \<in> set (requested_limits cfg). asked_limits cfg r = Some v"
proof clarify
  fix r v l assume "(r, v, l) \<in> set (requested_limits cfg)"
  then have "(r, v) \<in> set (map (\<lambda>(r, v, _). (r, v)) (requested_limits cfg))" by force
  moreover have "distinct (map fst (map (\<lambda>(r, v, _). (r, v)) (requested_limits cfg)))"
    using requested_limits_map(2) [of cfg] by (simp add: comp_def split_beta)
  ultimately show "asked_limits cfg r = Some v"
    unfolding requested_limits_map(1) [symmetric] by (metis map_of_is_SomeI)
qed

lemma requested_infinity:
  "(\<forall>(r, v, l) \<in> set (requested_limits cfg). v \<noteq> x) \<longleftrightarrow> (\<forall>r. asked_limits cfg r \<noteq> Some x)"
proof
  assume a: "\<forall>(r, v, l) \<in> set (requested_limits cfg). v \<noteq> x"
  show "\<forall>r. asked_limits cfg r \<noteq> Some x"
    unfolding requested_limits_map(1) [symmetric] using a by (auto dest!: map_of_SomeD)
qed (use requested_limits_asked in fastforce)

lemma apply_nice_outcome:
  assumes "apply_nice e K fd cfg h = (ok, h')"
  shows "\<exists>cs. h' = h @ cs \<and> no_exec cs \<and> (ok \<longleftrightarrow> \<not> request_refused K asked h cs)"
    "ok \<Longrightarrow> \<exists>cs. h' = h @ cs \<and> cs = (if has_nice cfg then [Setpriority (nice_value cfg)] else []) \<and> all_accepted K h cs"
  using assms by (auto simp: apply_nice_def syscall_def emit_def split: if_splits)

text \<open>
  C12. A program that \<open>run\<close> starts is limited as requested. When the child is replaced by the program, the kernel has
  accepted every call before the execution; the soft limits in force are exactly those that the options ask for, each
  on its own resource; every hard limit is the one that the kernel had reported, and not exceeded; the priority
  was set to the requested value if and only if one was requested; and what is executed is the file that the search
  finds for the program, with its arguments.
\<close>

theorem run_child_limits:
  assumes "execute_resource_run_child e K command out err h = (Replaced prog argv, h')"
    and "cfg = run_config (parse_resource_run command)"
  shows "\<exists>cs. h' = h @ cs @ [Execv (c_str prog) (map c_str argv)] \<and> all_accepted K h cs \<and>
    (\<forall>r. map_option fst (set_limits K h cs r) = asked_limits cfg r) \<and> hard_kept K h cs \<and>
    (\<forall>n. Setpriority n \<in> set cs \<longleftrightarrow> has_nice cfg \<and> n = nice_value cfg) \<and>
    argv = program_args cfg \<and> prog = find_executable e (hd argv) \<and> prog \<noteq> []"
proof -
  obtain h1 h2 where l: "apply_limits e K err (requested_limits cfg) h = (True, h1)"
    and n: "apply_nice e K err cfg h1 = (True, h2)"
    and p: "run_program e K err (program_args cfg) h2 = (Replaced prog argv, h')"
    using assms by (auto simp: execute_resource_run_child_def Let_def split: if_splits prod.splits)
  obtain cs where cs: "h1 = h @ cs" "all_accepted K h cs" "map_option fst \<circ> set_limits K h cs = asked_limits cfg" "hard_kept K h cs"
    "\<forall>n. Setpriority n \<notin> set cs"
    using apply_limits_ok [OF l requested_limits_map(2)] unfolding requested_limits_map(1) by blast
  define ns where "ns = (if has_nice cfg then [Setpriority (nice_value cfg)] else [])"
  have ns: "h2 = h1 @ ns" "all_accepted K h1 ns" using apply_nice_outcome(2) [OF n] by (auto simp: ns_def)
  have e: "set_limits K h (cs @ ns) = set_limits K h cs" by (simp add: set_limits_append ns_def)
  have "hard_kept K h (cs @ ns)" using cs(4) unfolding hard_kept_def e by (meson prefix_prefix)
  moreover have "\<forall>n. Setpriority n \<in> set (cs @ ns) \<longleftrightarrow> has_nice cfg \<and> n = nice_value cfg" using cs(5) by (auto simp: ns_def)
  moreover have "h' = h2 @ [Execv (c_str prog) (map c_str argv)]" "argv = program_args cfg"
    "prog = find_executable e (hd argv)" "prog \<noteq> []"
    using p by (auto simp: run_program_def execv_def syscall_def Let_def split: if_splits)
  moreover have "\<forall>r. map_option fst (set_limits K h (cs @ ns) r) = asked_limits cfg r" using cs(3) unfolding e by (auto simp: fun_eq_iff)
  ultimately show ?thesis using cs(1,2) ns by (intro exI [of _ "cs @ ns"]) (simp add: all_accepted_append)
qed

definition exec_kernel :: kernel where
  "exec_kernel h c = (case c of Execv _ _ \<Rightarrow> reply_ok | _ \<Rightarrow> scripted_kernel [] h c)"

theorem run_child_limits_witness:
  "\<exists>cs. snd (execute_resource_run_child demo_environ exec_kernel demo_run 1 2 []) = cs @ [Execv ''/bin/cat'' [''cat'', ''-n'']] \<and>
     map_option fst (set_limits exec_kernel [] cs RLIMIT_AS) = Some 67108864 \<and> Setpriority 5 \<in> set cs"
proof -
  let ?r = "execute_resource_run_child demo_environ exec_kernel demo_run 1 2 []" and ?cfg = "run_config (parse_resource_run demo_run)"
  have r: "fst ?r = Replaced ''/bin/cat'' [''cat'', ''-n'']" "asked_limits ?cfg RLIMIT_AS = Some 67108864"
    "has_nice ?cfg" "nice_value ?cfg = 5" "c_str ''/bin/cat'' = ''/bin/cat''" "map c_str [''cat'', ''-n''] = [''cat'', ''-n'']"
    by code_simp+
  from r(1) have "?r = (Replaced ''/bin/cat'' [''cat'', ''-n''], snd ?r)" by (metis prod.collapse)
  from run_child_limits [OF this refl] obtain cs where
    c: "snd ?r = [] @ cs @ [Execv (c_str ''/bin/cat'') (map c_str [''cat'', ''-n''])]"
      "\<forall>r. map_option fst (set_limits exec_kernel [] cs r) = asked_limits ?cfg r"
      "\<forall>n. Setpriority n \<in> set cs \<longleftrightarrow> has_nice ?cfg \<and> n = nice_value ?cfg" by blast
  have "snd ?r = cs @ [Execv ''/bin/cat'' [''cat'', ''-n'']]" using c(1) unfolding r(5,6) by (simp only: append_Nil)
  moreover have "map_option fst (set_limits exec_kernel [] cs RLIMIT_AS) = Some 67108864" using c(2) r(2) by metis
  moreover have "Setpriority 5 \<in> set cs" using c(3) r(3,4) by metis
  ultimately show ?thesis by blast
qed

text \<open>
  C34. A request that fails never starts the program, and the status tells why. The child of \<open>run\<close> exits with 2 exactly
  when the command line was refused; with 0 exactly for \<open>--help\<close>; with 1 exactly when a limit asked for is
  infinite or above the reported hard limit, or the kernel refused to read or set a limit or the priority; and with
  127 exactly when everything was set but the program was not found. In all these cases no execution was
  attempted: an attempt means that the program was started or that the kernel refused to execute the file (126).
\<close>

theorem run_child_failure:
  assumes "execute_resource_run_child e K command out err h = (c, h')"
    and "cfg = run_config (parse_resource_run command)"
  shows "\<exists>cs. h' = h @ cs \<and>
    (let valid = run_ok (parse_resource_run command);
         failing = (\<exists>r. asked_limits cfg r = Some RLIM_INFINITY) \<or> request_refused K (asked_limits cfg) h cs
     in (c = Exited 2 \<longleftrightarrow> \<not> valid) \<and>
        (c = Exited 0 \<longleftrightarrow> valid \<and> show_help cfg) \<and>
        (c = Exited 1 \<longleftrightarrow> valid \<and> \<not> show_help cfg \<and> failing) \<and>
        (c = Exited 127 \<longleftrightarrow> valid \<and> \<not> show_help cfg \<and> \<not> failing \<and> find_executable e (hd (program_args cfg)) = []) \<and>
        (no_exec cs \<longleftrightarrow> c \<in> {Exited 0, Exited 1, Exited 2, Exited 127}))"
proof -
  let ?parsed = "parse_resource_run command" and ?a = "asked_limits cfg"
  consider (invalid) "\<not> run_ok ?parsed" | (usage) "run_ok ?parsed" "show_help cfg" | (try_run) "run_ok ?parsed" "\<not> show_help cfg" by blast
  then show ?thesis
  proof cases
    case invalid
    with assms show ?thesis by (auto simp: execute_resource_run_child_def emit_def)
  next
    case usage
    with assms show ?thesis by (auto simp: execute_resource_run_child_def emit_def)
  next
    case try_run
    obtain ok1 h1 where l: "apply_limits e K err (requested_limits cfg) h = (ok1, h1)" by fastforce
    obtain cs where cs: "h1 = h @ cs" "no_exec cs" "ok1 \<longleftrightarrow> (\<forall>r. ?a r \<noteq> Some RLIM_INFINITY) \<and> \<not> request_refused K ?a h cs"
      using apply_limits_outcome [OF l requested_limits_asked] unfolding requested_infinity by blast
    obtain ok2 h2 where n: "apply_nice e K err cfg h1 = (ok2, h2)" by fastforce
    obtain ns where ns: "h2 = h1 @ ns" "no_exec ns" "ok2 \<longleftrightarrow> \<not> request_refused K ?a h1 ns"
      using apply_nice_outcome(1) [OF n] by blast
    show ?thesis
    proof (cases "ok1 \<and> ok2")
      case False
      with assms try_run l n have "c = Exited 1" "h' = (if ok1 then h2 else h1)"
        by (auto simp: execute_resource_run_child_def Let_def split: if_splits)
      with False try_run cs ns show ?thesis
        by (intro exI [of _ "if ok1 then cs @ ns else cs"]) (auto simp: request_refused_append Let_def)
    next
      case True
      with assms try_run l n have p: "run_program e K err (program_args cfg) h2 = (c, h')"
        by (auto simp: execute_resource_run_child_def Let_def)
      then obtain es where es: "h' = h2 @ es" "\<not> request_refused K ?a h2 es"
        "c = Exited 127 \<longleftrightarrow> find_executable e (hd (program_args cfg)) = []" "no_exec es \<longleftrightarrow> c = Exited 127"
        "c \<notin> {Exited 0, Exited 1, Exited 2}"
        by (auto simp: run_program_def execv_def syscall_def emit_def Let_def split: if_splits)
      with True try_run cs ns show ?thesis
        by (intro exI [of _ "cs @ ns @ es"]) (auto simp: request_refused_append Let_def)
    qed
  qed
qed

text \<open>A kernel that refuses \<open>setrlimit\<close>.\<close>

definition refusing_kernel :: kernel where
  "refusing_kernel h c = (case c of Setrlimit _ _ _ \<Rightarrow> reply_ok\<lparr>ret := -1\<rparr> | _ \<Rightarrow> exec_kernel h c)"

theorem run_child_failure_witness:
  "fst (execute_resource_run_child demo_environ refusing_kernel demo_run 1 2 []) = Exited 1 \<and>
   no_exec (snd (execute_resource_run_child demo_environ refusing_kernel demo_run 1 2 []))"
proof -
  let ?r = "execute_resource_run_child demo_environ refusing_kernel demo_run 1 2 []"
  have r: "fst ?r = Exited 1" by code_simp
  then have "?r = (Exited 1, snd ?r)" by (metis prod.collapse)
  from run_child_failure [OF this refl, unfolded Let_def] obtain cs where
    "snd ?r = [] @ cs" "no_exec cs \<longleftrightarrow> Exited 1 \<in> {Exited 0, Exited 1, Exited 2, Exited 127}" by blast
  then have "no_exec (snd ?r)" by (metis append_Nil insertCI)
  with r show ?thesis by blast
qed

end
