(* ===== verification/History.thy ===== *)
theory History
  imports Prelude Kernel
begin

text \<open>
  \<open>src/history.cpp\<close>: loading, saving, appending and rendering the command history. The history list
  itself belongs to GNU Readline and is a parameter: a state with the three operations the code
  calls. \<open>readline_laws\<close> states what their documentation promises.
\<close>

section \<open>State\<close>

record 'r readline_api =
  add_history :: "string \<Rightarrow> 'r \<Rightarrow> 'r"
  history_length :: "'r \<Rightarrow> int"
  history_get :: "int \<Rightarrow> 'r \<Rightarrow> string option"

text \<open>
  The file-scope variables of the module, the state of Readline, the contents of the files that can
  be opened for reading, and which paths can be opened for writing.
\<close>

record 'r HistoryState =
  histfile_path :: string
  persisted_history_length :: int
  rl_state :: 'r
  disk :: "string \<Rightarrow> string option"
  writable :: "string \<Rightarrow> bool"


section \<open>Operations\<close>

definition load_from_file :: "'r readline_api \<Rightarrow> string \<Rightarrow> 'r HistoryState \<Rightarrow> 'r HistoryState" where
  "load_from_file R filename s =
     (case disk s (c_str filename) of
        None \<Rightarrow> s
      | Some content \<Rightarrow>
          (let r = fold (\<lambda>line r. if line \<noteq> [] then add_history R (c_str line) r else r)
                     (getline_all newline content) (rl_state s)
           in s\<lparr>rl_state := r, persisted_history_length := history_length R r\<rparr>))"

text \<open>The text that the output loops write for the entries \<open>i\<close> to \<open>history_length\<close>.\<close>

definition entry_lines :: "'r readline_api \<Rightarrow> int \<Rightarrow> 'r \<Rightarrow> string" where
  "entry_lines R i r =
     concat (map (\<lambda>j. case history_get R j r of Some line \<Rightarrow> line @ [newline] | None \<Rightarrow> [])
       [i..history_length R r])"

definition write_to_file :: "'r readline_api \<Rightarrow> string \<Rightarrow> 'r HistoryState \<Rightarrow> 'r HistoryState" where
  "write_to_file R filename s =
     (if \<not> writable s (c_str filename) then s
      else s\<lparr>disk := (disk s)(c_str filename \<mapsto> entry_lines R 1 (rl_state s))\<rparr>)"

definition append_new_to_file :: "'r readline_api \<Rightarrow> string \<Rightarrow> 'r HistoryState \<Rightarrow> 'r HistoryState" where
  "append_new_to_file R filename s =
     (if history_length R (rl_state s) \<le> persisted_history_length s then s
      else if \<not> writable s (c_str filename) then s
      else let old = (case disk s (c_str filename) of None \<Rightarrow> [] | Some content \<Rightarrow> content)
        in s\<lparr>disk := (disk s)(c_str filename \<mapsto>
                old @ entry_lines R (persisted_history_length s + 1) (rl_state s)),
             persisted_history_length := history_length R (rl_state s)\<rparr>)"

definition initialize :: "'r readline_api \<Rightarrow> environ \<Rightarrow> 'r HistoryState \<Rightarrow> 'r HistoryState" where
  "initialize R e s =
     (case getenv e ''HISTFILE'' of
        None \<Rightarrow> s
      | Some f \<Rightarrow> load_from_file R f (s\<lparr>histfile_path := f\<rparr>))"

definition save_session :: "'r readline_api \<Rightarrow> 'r HistoryState \<Rightarrow> 'r HistoryState" where
  "save_session R s =
     (if histfile_path s = [] then s
      else if disk s (c_str (histfile_path s)) \<noteq> None then append_new_to_file R (histfile_path s) s
      else write_to_file R (histfile_path s) s)"

definition render :: "'r readline_api \<Rightarrow> int \<Rightarrow> 'r \<Rightarrow> string" where
  "render R max_entries r =
     (let hist_len = history_length R r
      in if hist_len \<le> 0 then []
         else let start_index = (if 0 < max_entries \<and> max_entries < hist_len then hist_len - max_entries + 1 else 1)
           in concat (map (\<lambda>i. case history_get R i r of
                  Some line \<Rightarrow> ''    '' @ to_string i @ ''  '' @ line @ [newline] | None \<Rightarrow> [])
                [start_index..hist_len]))"


section \<open>Readline\<close>

text \<open>
  What the documentation of GNU Readline promises of an unbounded history: the list starts at index
  1, \<open>add_history\<close> appends a copy of its argument, \<open>history_length\<close> is the number of entries.
\<close>

definition readline_laws :: "'r readline_api \<Rightarrow> ('r \<Rightarrow> string list) \<Rightarrow> bool" where
  "readline_laws R entries \<longleftrightarrow>
     (\<forall>r. history_length R r = int (length (entries r))) \<and>
     (\<forall>r i. history_get R i r =
        (if 1 \<le> i \<and> i \<le> int (length (entries r)) then Some (entries r ! nat (i - 1)) else None)) \<and>
     (\<forall>r line. entries (add_history R line r) = entries r @ [line])"

text \<open>A history that is a list.\<close>

definition list_readline :: "string list readline_api" where
  "list_readline =
     \<lparr>add_history = (\<lambda>line r. r @ [line]), history_length = (\<lambda>r. int (length r)),
      history_get = (\<lambda>i r. if 1 \<le> i \<and> i \<le> int (length r) then Some (r ! nat (i - 1)) else None)\<rparr>"

lemma list_readline_laws: "readline_laws list_readline (\<lambda>r. r)"
  by (simp add: readline_laws_def list_readline_def)

definition file_text :: "string list \<Rightarrow> string" where
  "file_text lines = concat (map (\<lambda>l. l @ [newline]) lines)"

section \<open>Lemmas\<close>

lemma readline_lawsD:
  assumes "readline_laws R entries"
  shows "history_length R r = int (length (entries r))"
    "history_get R i r = (if 1 \<le> i \<and> i \<le> int (length (entries r)) then Some (entries r ! nat (i - 1)) else None)"
    "entries (add_history R line r) = entries r @ [line]"
  using assms by (auto simp: readline_laws_def)

lemma upto_int: "[int k + 1..int n] = map (\<lambda>i. int i + 1) [k..<n]"
proof (induction n)
  case (Suc n)
  show ?case
  proof (cases "k \<le> n")
    case True
    then have "[int k + 1..int (Suc n)] = [int k + 1..int n] @ [int n + 1]"
      using upto_rec2 [of "int k + 1" "int (Suc n)"] by simp
    with Suc True show ?thesis by simp
  qed simp
qed simp

lemma map_nth_drop: "map ((!) xs) [k..<length xs] = drop k xs"
  by (rule nth_equalityI) auto

lemma entry_lines_drop:
  assumes "readline_laws R entries"
  shows "entry_lines R (int k + 1) r = file_text (drop k (entries r))"
proof -
  have "entry_lines R (int k + 1) r = concat (map (\<lambda>i. (entries r ! i) @ [newline]) [k..<length (entries r)])"
    unfolding entry_lines_def readline_lawsD [OF assms] upto_int
    by (intro arg_cong [where f = concat]) auto
  also have "\<dots> = file_text (drop k (entries r))"
    unfolding file_text_def map_nth_drop [symmetric] map_map comp_def ..
  finally show ?thesis .
qed

lemma entry_lines_all:
  assumes "readline_laws R entries"
  shows "entry_lines R 1 r = file_text (entries r)"
  using entry_lines_drop [OF assms, of 0 r] by simp

lemma getline_all_file_text:
  "list_all (\<lambda>l. newline \<notin> set l) ls \<Longrightarrow> getline_all newline (file_text ls) = ls"
  by (induction ls) (simp_all add: file_text_def getline_all_line)

text \<open>The entries that a file contributes when it is loaded.\<close>

definition loaded_lines :: "string \<Rightarrow> string list" where
  "loaded_lines content = map c_str (filter (\<lambda>l. l \<noteq> []) (getline_all newline content))"

lemma load_entries:
  assumes "readline_laws R entries"
  shows "entries (fold (\<lambda>line r. if line \<noteq> [] then add_history R (c_str line) r else r) ls r) =
    entries r @ map c_str (filter (\<lambda>l. l \<noteq> []) ls)"
  by (induction ls arbitrary: r) (simp_all add: readline_lawsD [OF assms])

lemma load_from_file_entries:
  assumes "readline_laws R entries" "disk s (c_str f) = Some content"
  shows "entries (rl_state (load_from_file R f s)) = entries (rl_state s) @ loaded_lines content"
    "persisted_history_length (load_from_file R f s) = int (length (entries (rl_state (load_from_file R f s))))"
    "disk (load_from_file R f s) = disk s" "writable (load_from_file R f s) = writable s"
    "histfile_path (load_from_file R f s) = histfile_path s"
  using assms by (simp_all add: load_from_file_def load_entries loaded_lines_def Let_def readline_lawsD)

text \<open>
  What a session does with its history between the start and the exit: it adds a typed line, appends the new
  entries to the history file \<open>f\<close> (\<open>history -a\<close>), or writes the whole list to another file (\<open>history -w\<close>).
\<close>

datatype history_op = Typed string | Append_new | Write_other string

fun history_step :: "'r readline_api \<Rightarrow> string \<Rightarrow> history_op \<Rightarrow> 'r HistoryState \<Rightarrow> 'r HistoryState" where
  "history_step R f (Typed line) s = s\<lparr>rl_state := add_history R line (rl_state s)\<rparr>"
| "history_step R f Append_new s = append_new_to_file R f s"
| "history_step R f (Write_other g) s = write_to_file R g s"

definition lines_typed :: "history_op list \<Rightarrow> string list" where
  "lines_typed ops = concat (map (\<lambda>op. case op of Typed line \<Rightarrow> [line] | _ \<Rightarrow> []) ops)"

definition written_files :: "history_op list \<Rightarrow> string set" where
  "written_files ops = {c_str g | g. Write_other g \<in> set ops}"

lemma typed_written_simps [simp]:
  "lines_typed [] = []" "lines_typed (ops @ [Typed l]) = lines_typed ops @ [l]" "lines_typed (ops @ [Append_new]) = lines_typed ops"
  "lines_typed (ops @ [Write_other g]) = lines_typed ops"
  "written_files [] = {}" "written_files (ops @ [Typed l]) = written_files ops" "written_files (ops @ [Append_new]) = written_files ops"
  "written_files (ops @ [Write_other g]) = insert (c_str g) (written_files ops)"
  by (auto simp: lines_typed_def written_files_def)

text \<open>
  The state in the middle of a session: of the commands \<open>cmds\<close>, the first \<open>k\<close> are in the file, behind its old contents; the
  list holds the \<open>old\<close> entries and then the commands.
\<close>

definition midway :: "('r \<Rightarrow> string list) \<Rightarrow> string \<Rightarrow> string option \<Rightarrow> string list \<Rightarrow> string list \<Rightarrow> 'r HistoryState \<Rightarrow> bool" where
  "midway entries f before old cmds s \<longleftrightarrow>
     histfile_path s = f \<and> writable s f \<and> entries (rl_state s) = old @ cmds \<and>
     (\<exists>k \<le> length cmds. persisted_history_length s = int (length old + k) \<and>
        (case disk s f of
           Some content \<Rightarrow> content = (case before of Some c \<Rightarrow> c | None \<Rightarrow> []) @ file_text (take k cmds)
         | None \<Rightarrow> before = None \<and> k = 0 \<and> old = []))"

lemma midway_append:
  assumes "readline_laws R entries" "midway entries f before old cmds s" "c_str f = f"
  shows "midway entries f before old cmds (append_new_to_file R f s) \<and>
    (disk (append_new_to_file R f s) f =
       (if cmds = [] then disk s f else Some ((case before of Some c \<Rightarrow> c | None \<Rightarrow> []) @ file_text cmds))) \<and>
    (\<forall>g. g \<noteq> f \<longrightarrow> disk (append_new_to_file R f s) g = disk s g)"
proof -
  from assms(2) obtain k where m: "histfile_path s = f" "writable s f" "entries (rl_state s) = old @ cmds" "k \<le> length cmds"
    "persisted_history_length s = int (length old + k)" "case disk s f of
           Some content \<Rightarrow> content = (case before of Some c \<Rightarrow> c | None \<Rightarrow> []) @ file_text (take k cmds)
         | None \<Rightarrow> before = None \<and> k = 0 \<and> old = []" by (auto simp: midway_def)
  show ?thesis
  proof (cases "k = length cmds")
    case True
    then have "append_new_to_file R f s = s" using m(3,5) by (simp add: append_new_to_file_def readline_lawsD [OF assms(1)])
    with True m assms(2) show ?thesis by (auto split: option.splits)
  next
    case False
    with m(4) have lt: "k < length cmds" by simp
    have lines: "entry_lines R (int (length old + k) + 1) (rl_state s) = file_text (drop k cmds)"
      unfolding entry_lines_drop [OF assms(1)] m(3) by simp
    define content where "content = (case before of Some c \<Rightarrow> c | None \<Rightarrow> []) @ file_text cmds"
    have "file_text cmds = file_text (take k cmds) @ file_text (drop k cmds)"
      unfolding file_text_def by (metis append_take_drop_id concat_append map_append)
    with m(6) have "(case disk s f of None \<Rightarrow> [] | Some c \<Rightarrow> c) @ file_text (drop k cmds) = content"
      by (auto simp: content_def file_text_def split: option.splits)
    then have "append_new_to_file R f s = s\<lparr>disk := (disk s)(f \<mapsto> content), persisted_history_length := int (length old + length cmds)\<rparr>"
      using lt m(2,3,5) lines assms(3) by (simp add: append_new_to_file_def readline_lawsD [OF assms(1)] Let_def)
    with m lt show ?thesis by (auto simp: midway_def content_def)
  qed
qed

lemma midway_session:
  assumes "readline_laws R entries" "midway entries f before old [] s" "c_str f = f" "f \<notin> written_files ops"
  shows "midway entries f before old (lines_typed ops) (fold (history_step R f) ops s) \<and>
    (\<forall>g. g \<noteq> f \<longrightarrow> g \<notin> written_files ops \<longrightarrow> disk (fold (history_step R f) ops s) g = disk s g)"
  using assms(4)
proof (induction ops rule: rev_induct)
  case Nil
  with assms(2) show ?case by simp
next
  case (snoc op ops)
  let ?s = "fold (history_step R f) ops s"
  have IH: "midway entries f before old (lines_typed ops) ?s"
    "\<forall>g. g \<noteq> f \<longrightarrow> g \<notin> written_files ops \<longrightarrow> disk ?s g = disk s g"
    using snoc by (cases op; simp)+
  show ?case
  proof (cases op)
    case (Typed l)
    have "midway entries f before old (lines_typed ops @ [l]) (?s\<lparr>rl_state := add_history R l (rl_state ?s)\<rparr>)"
      using IH(1) by (auto simp: midway_def readline_lawsD [OF assms(1)] split: option.splits)
    with Typed IH(2) show ?thesis by simp
  next
    case Append_new
    with midway_append [OF assms(1) IH(1) assms(3)] IH(2) show ?thesis by auto
  next
    case (Write_other g)
    with snoc.prems have "c_str g \<noteq> f" by auto
    then have "midway entries f before old (lines_typed ops) (write_to_file R g ?s)"
      using IH(1) by (simp add: midway_def write_to_file_def)
    with Write_other IH(2) show ?thesis by (auto simp: write_to_file_def)
  qed
qed


section \<open>Properties\<close>

text \<open>
  C18. A session saves exactly the commands that were typed, each once and in order. A shell that starts with an empty
  history list and a writable \<open>HISTFILE\<close>, and whose session adds commands to the list, appends to the history file with
  \<open>history -a\<close> and writes other files with \<open>history -w\<close>, in any order and number, leaves at exit the old contents
  of the history file (nothing, when there was no file) followed by one line per typed command; no other file
  than those written by \<open>history -w\<close> changes. Sessions that use \<open>history -r\<close>, \<open>history -w\<close> on the history file itself or
  \<open>history -a\<close> on another file are not covered: there entries are lost or saved twice.
\<close>

theorem session_history_saved:
  assumes "readline_laws R entries" "entries (rl_state s) = []" "persisted_history_length s = 0"
    and "getenv e ''HISTFILE'' = Some f" "c_str f = f" "f \<noteq> []" "writable s f" "f \<notin> written_files ops"
  shows "let after = disk (save_session R (fold (history_step R f) ops (initialize R e s)))
    in after f = Some ((case disk s f of Some content \<Rightarrow> content | None \<Rightarrow> []) @ file_text (lines_typed ops)) \<and>
       (\<forall>g. g \<noteq> f \<longrightarrow> g \<notin> written_files ops \<longrightarrow> after g = disk s g)"
proof -
  let ?s1 = "initialize R e s" and ?cmds = "lines_typed ops"
  define old where "old = (case disk s f of Some content \<Rightarrow> loaded_lines content | None \<Rightarrow> [])"
  have "midway entries f (disk s f) old [] ?s1 \<and> disk ?s1 = disk s"
  proof (cases "disk s f")
    case None
    with assms show ?thesis by (simp add: initialize_def load_from_file_def midway_def old_def)
  next
    case (Some content)
    then have "disk (s\<lparr>histfile_path := f\<rparr>) (c_str f) = Some content" using assms(5) by simp
    note load_from_file_entries [OF assms(1) this]
    with Some assms show ?thesis by (simp add: initialize_def midway_def old_def file_text_def)
  qed
  then have s1: "midway entries f (disk s f) old [] ?s1" "disk ?s1 = disk s" by simp_all
  define t where "t = fold (history_step R f) ops ?s1"
  have t: "midway entries f (disk s f) old ?cmds t" "\<forall>g. g \<noteq> f \<longrightarrow> g \<notin> written_files ops \<longrightarrow> disk t g = disk s g"
    using midway_session [OF assms(1) s1(1) assms(5,8)] s1(2) unfolding t_def by simp_all
  show ?thesis unfolding Let_def t_def [symmetric]
  proof (cases "disk t f")
    case None
    with t(1) assms(5,6) have "save_session R t = t\<lparr>disk := (disk t)(f \<mapsto> file_text ?cmds)\<rparr>" "disk s f = None"
      by (auto simp: midway_def save_session_def write_to_file_def entry_lines_all [OF assms(1)])
    with t(2) show "disk (save_session R t) f = Some ((case disk s f of Some content \<Rightarrow> content | None \<Rightarrow> []) @ file_text ?cmds) \<and>
        (\<forall>g. g \<noteq> f \<longrightarrow> g \<notin> written_files ops \<longrightarrow> disk (save_session R t) g = disk s g)" by simp
  next
    case (Some content)
    with t(1) assms(5,6) have "save_session R t = append_new_to_file R f t" by (simp add: midway_def save_session_def)
    moreover have "content = (case disk s f of Some c \<Rightarrow> c | None \<Rightarrow> []) @ file_text []" if "?cmds = []"
      using t(1) Some that by (auto simp: midway_def)
    ultimately show "disk (save_session R t) f = Some ((case disk s f of Some content \<Rightarrow> content | None \<Rightarrow> []) @ file_text ?cmds) \<and>
        (\<forall>g. g \<noteq> f \<longrightarrow> g \<notin> written_files ops \<longrightarrow> disk (save_session R t) g = disk s g)"
      using midway_append [OF assms(1) t(1) assms(5)] t(2) Some by auto
  qed
qed

definition demo_history :: "string list HistoryState" where
  "demo_history = \<lparr>histfile_path = [], persisted_history_length = 0, rl_state = [],
     disk = (\<lambda>p. if p = ''h'' then Some (''ls'' @ [newline]) else None), writable = (\<lambda>p. True)\<rparr>"

definition histfile_environ :: environ where
  "histfile_environ = \<lparr>getenv = (\<lambda>v. if v = ''HISTFILE'' then Some ''h'' else None), stat_kind = (\<lambda>_. None),
     access_x = (\<lambda>_. False), read_dir = (\<lambda>_. None), strerror = (\<lambda>_. [])\<rparr>"

theorem session_history_saved_witness:
  "disk (save_session list_readline (fold (history_step list_readline ''h'') [Typed ''cd'', Append_new, Write_other ''g'', Typed ''pwd'']
     (initialize list_readline histfile_environ demo_history))) ''h'' =
   Some (''ls'' @ [newline] @ ''cd'' @ [newline] @ ''pwd'' @ [newline])"
proof -
  let ?ops = "[Typed ''cd'', Append_new, Write_other ''g'', Typed ''pwd'']"
  have "''h'' \<notin> written_files ?ops" by (simp add: written_files_def c_str_def)
  moreover have "lines_typed ?ops = [''cd'', ''pwd'']" by (simp add: lines_typed_def)
  ultimately show ?thesis
    using session_history_saved [OF list_readline_laws, of demo_history histfile_environ "''h''" ?ops]
    by (simp add: demo_history_def histfile_environ_def c_str_def file_text_def Let_def)
qed

text \<open>
  C35. Writing the history and loading it in a new session gives the same entries, for entries that
  are non-empty single lines without NUL bytes.
\<close>

theorem history_write_load:
  assumes "readline_laws R entries" "writable s (c_str f)"
    and "list_all (\<lambda>l. l \<noteq> [] \<and> newline \<notin> set l \<and> nul \<notin> set l) (entries (rl_state s))"
    and "disk t = disk (write_to_file R f s)" "entries (rl_state t) = []"
  shows "entries (rl_state (load_from_file R f t)) = entries (rl_state s)"
proof -
  have d: "disk t (c_str f) = Some (file_text (entries (rl_state s)))"
    using assms(2,4) by (simp add: write_to_file_def entry_lines_all [OF assms(1)])
  have g: "getline_all newline (file_text (entries (rl_state s))) = entries (rl_state s)"
    using assms(3) by (intro getline_all_file_text) (auto simp: list_all_iff)
  have "loaded_lines (file_text (entries (rl_state s))) = entries (rl_state s)"
    unfolding loaded_lines_def g using assms(3)
    by (intro map_idI [THEN trans]) (auto simp: list_all_iff c_str_id filter_id_conv)
  then show ?thesis using load_from_file_entries(1) [OF assms(1) d] assms(5) by simp
qed

theorem history_write_load_witness:
  "rl_state (load_from_file list_readline ''g'' (demo_history\<lparr>disk := disk (write_to_file list_readline ''g'' (demo_history\<lparr>rl_state := [''ls -l'', ''pwd'']\<rparr>))\<rparr>)) =
   [''ls -l'', ''pwd'']"
  by (rule history_write_load [OF list_readline_laws, of "demo_history\<lparr>rl_state := [''ls -l'', ''pwd'']\<rparr>", simplified])
    (simp_all add: demo_history_def)

text \<open>
  Rendering shows the last \<open>n\<close> entries (all of them when \<open>n\<close> is not positive or too large), each
  on a line with its index in the whole history.
\<close>

theorem render_last_entries:
  assumes "readline_laws R entries"
    and "k = (if 0 < n \<and> n < int (length (entries r)) then length (entries r) - nat n else 0)"
  shows "render R n r =
    concat (map2 (\<lambda>i line. ''    '' @ to_string (int i + 1) @ ''  '' @ line @ [newline])
      [k..<length (entries r)] (drop k (entries r)))"
proof -
  let ?es = "entries r"
  let ?line = "\<lambda>i. ''    '' @ to_string (int i + 1) @ ''  '' @ ?es ! i @ [newline]"
  have z: "map2 (\<lambda>i line. ''    '' @ to_string (int i + 1) @ ''  '' @ line @ [newline]) [k..<length ?es] (drop k ?es) =
      map ?line [k..<length ?es]"
    by (rule nth_equalityI) auto
  have start: "(if 0 < n \<and> n < int (length ?es) then int (length ?es) - n + 1 else 1) = int k + 1"
    unfolding assms(2) by (auto simp: of_nat_diff)
  show ?thesis
  proof (cases "?es = []")
    case True
    then show ?thesis by (simp add: render_def readline_lawsD [OF assms(1)])
  next
    case False
    then have "render R n r = concat (map (\<lambda>i. case history_get R i r of
          Some line \<Rightarrow> ''    '' @ to_string i @ ''  '' @ line @ [newline] | None \<Rightarrow> []) [int k + 1..int (length ?es)])"
      by (simp add: render_def Let_def start [symmetric] readline_lawsD(1) [OF assms(1)])
    also have "\<dots> = concat (map ?line [k..<length ?es])"
      unfolding upto_int map_map by (intro arg_cong [where f = concat]) (auto simp: readline_lawsD(2) [OF assms(1)])
    finally show ?thesis unfolding z .
  qed
qed

theorem render_last_entries_witness:
  "render list_readline 1 [''ls'', ''pwd''] = ''    2  pwd'' @ [newline]"
proof -
  have "to_string 2 = ''2''" by code_simp
  then show ?thesis using render_last_entries [OF list_readline_laws refl, of 1 "[''ls'', ''pwd'']"]
    by (simp add: upt_rec)
qed

text \<open>
  Loading a file in the middle of a session counts every entry as saved: the command \<open>make\<close>, typed
  before \<open>history -r\<close>, never reaches the history file.
\<close>

lemma history_read_drops_unsaved:
  "disk (save_session list_readline (load_from_file list_readline ''h''
     (history_step list_readline ''h'' (Typed ''make'') (initialize list_readline histfile_environ demo_history)))) ''h'' =
   Some (''ls'' @ [newline])"
  by code_simp

text \<open>Writing the history file itself with \<open>history -w\<close> does not count the entries as saved: they are appended again at exit.\<close>

lemma history_write_saves_twice:
  "disk (save_session list_readline (write_to_file list_readline ''h''
     (history_step list_readline ''h'' (Typed ''make'') (initialize list_readline histfile_environ demo_history)))) ''h'' =
   Some (''ls'' @ [newline] @ ''make'' @ [newline] @ ''make'' @ [newline])"
  by code_simp

end
