(* ===== verification/Process_Info.thy ===== *)
theory Process_Info
  imports Kernel
begin

text \<open>
  \<open>src/process_info.cpp\<close>: reading and parsing the files of \<open>/proc/PID\<close> and rendering them for \<open>pinfo\<close>.
  A loop that reads a file to its end may not return (\<open>None\<close>) on a kernel whose file has no end. The
  \<open>double\<close> values are dyadic rationals with the rounding of IEEE binary64 written out.
\<close>

section \<open>Reading files\<close>

record ReadResult =
  rr_data :: string
  error_number :: int

partial_function (option) read_loop :: "kernel \<Rightarrow> int \<Rightarrow> string \<Rightarrow> trace \<Rightarrow> (ReadResult \<times> trace) option" where
  "read_loop K fd acc h =
     (let (r, h1) = syscall K (Read fd 4096) h
      in if 0 < ret r then read_loop K fd (acc @ take (nat (ret r)) (bytes r)) h1
         else if ret r = 0 then Some (\<lparr>rr_data = acc, error_number = 0\<rparr>, h1)
         else if errno r = EINTR then read_loop K fd acc h1
         else Some (\<lparr>rr_data = [], error_number = errno r\<rparr>, h1))"

declare read_loop.simps [code]

definition read_file :: "kernel \<Rightarrow> string \<Rightarrow> trace \<Rightarrow> (ReadResult \<times> trace) option" where
  "read_file K path h =
     (let (r, h1) = syscall K (Open (c_str path) [O_RDONLY, O_CLOEXEC] 0) h
      in if ret r < 0 then Some (\<lparr>rr_data = [], error_number = errno r\<rparr>, h1)
         else map_option (\<lambda>(res, h2). (res, close_fd (ret r) h2)) (read_loop K (ret r) [] h1))"

text \<open>The buffer starts at 256 bytes and doubles while it is at most 64 KiB.\<close>

fun read_symlink_sizes :: "kernel \<Rightarrow> string \<Rightarrow> int list \<Rightarrow> trace \<Rightarrow> string \<times> trace" where
  "read_symlink_sizes K path [] h = ([], h)"
| "read_symlink_sizes K path (sz # sizes) h =
     (let (r, h1) = syscall K (Readlink (c_str path) sz) h
      in if ret r < 0 then ([], h1)
         else if ret r < sz then (take (nat (ret r)) (bytes r), h1)
         else read_symlink_sizes K path sizes h1)"

definition read_symlink :: "kernel \<Rightarrow> string \<Rightarrow> trace \<Rightarrow> string \<times> trace" where
  "read_symlink K path h = read_symlink_sizes K path [256, 512, 1024, 2048, 4096, 8192, 16384, 32768, 65536] h"

definition count_open_fds :: "kernel \<Rightarrow> string \<Rightarrow> trace \<Rightarrow> int option \<times> trace" where
  "count_open_fds K path h =
     (let (r, h1) = syscall K (List_dir (c_str path)) h
      in (case listing r of
            None \<Rightarrow> None
          | Some names \<Rightarrow>
              if errno r \<noteq> 0 then None
              else Some (int (length (filter (\<lambda>name. \<not> (name \<noteq> [] \<and> hd name = CHR ''.'')) names))), h1))"


section \<open>Text\<close>

definition blank_char :: "char \<Rightarrow> bool" where
  "blank_char c \<longleftrightarrow> c = blank \<or> c = tab \<or> c = CHR 0x0D \<or> c = newline"

definition trim :: "string \<Rightarrow> string" where
  "trim s = rev (dropWhile blank_char (rev (dropWhile blank_char s)))"

text \<open>
  \<open>std::from_chars\<close> with base 10 on the whole text, into an integer type with the given bounds: a
  minus sign is read for signed types only, a plus sign and blanks never.
\<close>

definition from_chars :: "int \<Rightarrow> int \<Rightarrow> string \<Rightarrow> int option" where
  "from_chars lo hi s =
     (let neg = (lo < 0 \<and> s \<noteq> [] \<and> hd s = CHR ''-''); ds = (if neg then tl s else s)
      in if ds = [] \<or> \<not> list_all isdigit ds then None
         else let v = signed_value neg (digits_val ds) in if lo \<le> v \<and> v \<le> hi then Some v else None)"

definition parse_integer :: "int \<Rightarrow> int \<Rightarrow> string \<Rightarrow> int option" where
  "parse_integer lo hi s = (let cleaned = trim s in if cleaned = [] then None else from_chars lo hi cleaned)"

abbreviation (input) parse_pid :: "string \<Rightarrow> int option" where "parse_pid \<equiv> parse_integer INT_MIN INT_MAX"
abbreviation (input) parse_signed :: "string \<Rightarrow> int option" where "parse_signed \<equiv> parse_integer LONG_MIN LONG_MAX"
abbreviation (input) parse_uint64 :: "string \<Rightarrow> int option" where "parse_uint64 \<equiv> parse_integer 0 (2 ^ 64 - 1)"

text \<open>
  \<open>stream >> amount\<close> on an unsigned 64-bit integer reads as \<open>strtoull\<close> does; \<open>stream >> unit\<close> takes the
  next run of characters that are not white space, if there is one.
\<close>

definition next_word :: "string \<Rightarrow> string" where
  "next_word s = takeWhile (\<lambda>c. \<not> isspace c) (dropWhile isspace s)"

definition parse_kb_value :: "string \<Rightarrow> 64 word option" where
  "parse_kb_value value =
     (case stoull value of
        None \<Rightarrow> None
      | Some (amount, used) \<Rightarrow>
          (let unit = next_word (drop used value) in if unit \<noteq> [] \<and> unit \<noteq> ''kB'' then None else Some amount))"

definition state_description :: "char \<Rightarrow> string" where
  "state_description state =
     (if state = CHR ''R'' then ''R (running)''
      else if state = CHR ''S'' then ''S (sleeping)''
      else if state = CHR ''D'' then ''D (uninterruptible sleep)''
      else if state = CHR ''Z'' then ''Z (zombie)''
      else if state = CHR ''T'' then ''T (stopped)''
      else if state = CHR ''t'' then ''t (tracing stop)''
      else if state = CHR ''X'' \<or> state = CHR ''x'' then ''X (dead)''
      else if state = CHR ''I'' then ''I (idle)''
      else [state] @ '' (unknown)'')"

definition normalize_step :: "char \<Rightarrow> string \<Rightarrow> string" where
  "normalize_step c result =
     (if c = nul then (if result \<noteq> [] \<and> last result \<noteq> blank then result @ '' '' else result) else result @ [c])"

definition normalize_cmdline :: "string \<Rightarrow> string" where
  "normalize_cmdline raw = rev (dropWhile (\<lambda>c. c = blank) (rev (fold normalize_step raw [])))"

text \<open>\<open>std::string::find\<close> and \<open>rfind\<close> of a character; \<open>None\<close> is \<open>npos\<close>.\<close>

definition find_char :: "char \<Rightarrow> string \<Rightarrow> nat option" where
  "find_char c s = (let k = length (takeWhile (\<lambda>x. x \<noteq> c) s) in if k < length s then Some k else None)"

definition rfind_char :: "char \<Rightarrow> string \<Rightarrow> nat option" where
  "rfind_char c s = map_option (\<lambda>k. length s - 1 - k) (find_char c (rev s))"

text \<open>The loop \<open>while (fields >> field)\<close>: the maximal runs of characters that are not white space.\<close>

function fields_of :: "string \<Rightarrow> string list" where
  "fields_of s =
     (let t = dropWhile isspace s
      in if t = [] then [] else takeWhile (\<lambda>c. \<not> isspace c) t # fields_of (dropWhile (\<lambda>c. \<not> isspace c) t))"
  by pat_completeness auto
termination
proof (relation "measure length")
  fix s t
  assume t: "t = dropWhile isspace s" "t \<noteq> []"
  then have "\<not> isspace (hd t)" by (metis hd_dropWhile)
  then have "length (dropWhile (\<lambda>c. \<not> isspace c) t) < length t"
    using t(2) length_dropWhile_le [of "\<lambda>c. \<not> isspace c" "tl t"] by (cases t) auto
  also have "\<dots> \<le> length s" using t(1) by (simp add: length_dropWhile_le)
  finally show "(dropWhile (\<lambda>c. \<not> isspace c) t, s) \<in> measure length" by simp
qed simp

declare fields_of.simps [simp del]

section \<open>Floating-point numbers\<close>

text \<open>
  A non-negative \<open>double\<close> is \<open>m * 2 ^ e\<close>. The quotients that the program computes are far from the
  limits of the exponent range, so rounding to 53 bits, ties to even, is all there is to them.
\<close>

type_synonym double = "int \<times> int"

text \<open>The integer next to \<open>n / d\<close>, ties to even.\<close>

definition round_half_even :: "int \<Rightarrow> int \<Rightarrow> int" where
  "round_half_even n d =
     (let q = n div d; r = n mod d
      in if 2 * r < d \<or> (2 * r = d \<and> even q) then q else q + 1)"

function bit_length :: "int \<Rightarrow> int" where
  "bit_length n = (if n \<le> 0 then 0 else 1 + bit_length (n div 2))"
  by pat_completeness auto
termination by (relation "measure nat") auto

declare bit_length.simps [simp del]

text \<open>\<open>n / (d * 2 ^ e)\<close> as numerator and denominator.\<close>

definition scaled :: "int \<Rightarrow> int \<Rightarrow> int \<Rightarrow> int \<times> int" where
  "scaled n d e = (if 0 \<le> e then (n, d * 2 ^ nat e) else (n * 2 ^ nat (- e), d))"

definition nearest_double :: "int \<Rightarrow> int \<Rightarrow> double" where
  "nearest_double n d =
     (if n = 0 then (0, 0)
      else let e0 = bit_length n - bit_length d - 53; (a, b) = scaled n d e0;
               e = (if 2 ^ 53 * b \<le> a then e0 + 1 else e0); (a', b') = scaled n d e
        in (round_half_even a' b', e))"

definition double_of :: "int \<Rightarrow> double" where
  "double_of n = nearest_double n 1"

definition double_div :: "double \<Rightarrow> double \<Rightarrow> double" where
  "double_div x y = (let (m, e) = nearest_double (fst x) (fst y) in (m, e + snd x - snd y))"

text \<open>\<open>std::fixed << std::setprecision (digits)\<close>.\<close>

definition pad_digits :: "nat \<Rightarrow> string \<Rightarrow> string" where
  "pad_digits k s = replicate (k - length s) (CHR ''0'') @ s"

definition print_fixed :: "nat \<Rightarrow> double \<Rightarrow> string" where
  "print_fixed k x =
     (let (a, b) = scaled (fst x * 10 ^ k) 1 (- snd x); n = round_half_even a b
      in to_string (n div 10 ^ k) @ ''.'' @ pad_digits k (to_string (n mod 10 ^ k)))"


section \<open>Process information\<close>

record ProcessInfo =
  pr_pid :: int
  pr_ppid :: int
  pr_pgid :: int
  pr_session_id :: int
  pr_foreground_pgid :: int
  pr_name :: string
  pr_state :: string
  command_line :: string
  pr_executable :: string
  cpu_allowed_list :: string
  pr_threads :: int
  pr_priority :: int
  pr_nice_value :: int
  user_cpu_seconds :: double
  system_cpu_seconds :: double
  virtual_memory_kb :: "64 word option"
  resident_memory_kb :: "64 word option"
  peak_memory_kb :: "64 word option"
  open_file_descriptors :: "int option"
  voluntary_context_switches :: "int option"
  involuntary_context_switches :: "int option"

definition new_process_info :: ProcessInfo where
  "new_process_info =
     \<lparr>pr_pid = -1, pr_ppid = -1, pr_pgid = -1, pr_session_id = -1, pr_foreground_pgid = -1,
      pr_name = [], pr_state = [], command_line = [], pr_executable = [], cpu_allowed_list = [],
      pr_threads = 0, pr_priority = 0, pr_nice_value = 0, user_cpu_seconds = (0, 0), system_cpu_seconds = (0, 0),
      virtual_memory_kb = None, resident_memory_kb = None, peak_memory_kb = None,
      open_file_descriptors = None, voluntary_context_switches = None, involuntary_context_switches = None\<rparr>"

text \<open>The numeric fields of a stat line, by their index in the part after the state.\<close>

definition stat_numbers :: "string list \<Rightarrow> int list option" where
  "stat_numbers rest =
     those [parse_signed (rest ! 0), parse_signed (rest ! 1), parse_signed (rest ! 2), parse_signed (rest ! 4),
            parse_uint64 (rest ! 10), parse_uint64 (rest ! 11),
            parse_signed (rest ! 14), parse_signed (rest ! 15), parse_signed (rest ! 16)]"

definition cpu_seconds :: "int \<Rightarrow> int \<Rightarrow> double" where
  "cpu_seconds time ticks = (if 0 < ticks then double_div (double_of time) (double_of ticks) else (0, 0))"

text \<open>
  \<open>parse_stat\<close> fills a fresh \<open>ProcessInfo\<close>; \<open>Inl\<close> is its error. The clock rate is asked for only when all
  fields are valid.
\<close>

definition parse_stat :: "kernel \<Rightarrow> string \<Rightarrow> trace \<Rightarrow> (string + ProcessInfo) \<times> trace" where
  "parse_stat K s h =
     (case (find_char (CHR ''('') s, rfind_char (CHR '')'') s) of
        (Some open_paren, Some close_paren) \<Rightarrow>
          (if close_paren \<le> open_paren \<or> length s \<le> close_paren + 2
           then (Inl ''malformed /proc stat data'', h)
           else case parse_pid (take open_paren s) of
             None \<Rightarrow> (Inl ''invalid pid in /proc stat data'', h)
           | Some parsed_pid \<Rightarrow>
               if length s < close_paren + 4 then (Inl ''truncated /proc stat data'', h)
               else let rest = fields_of (drop (close_paren + 4) s)
                 in if length rest \<le> 20 then (Inl ''incomplete /proc stat data'', h)
                    else (case stat_numbers rest of
                        Some [ppid, pgid, session, tpgid, utime, stime, priority, nice_value, threads] \<Rightarrow>
                          (let (r, h1) = syscall K Sysconf_clk_tck h
                           in (Inr (new_process_info\<lparr>pr_pid := parsed_pid,
                                 pr_name := take (close_paren - open_paren - 1) (drop (open_paren + 1) s),
                                 pr_state := state_description (s ! (close_paren + 2)),
                                 pr_ppid := int32_cast ppid, pr_pgid := int32_cast pgid,
                                 pr_session_id := int32_cast session, pr_foreground_pgid := int32_cast tpgid,
                                 pr_priority := priority, pr_nice_value := nice_value, pr_threads := threads,
                                 user_cpu_seconds := cpu_seconds utime (ret r),
                                 system_cpu_seconds := cpu_seconds stime (ret r)\<rparr>), h1))
                      | _ \<Rightarrow> (Inl ''invalid numeric field in /proc stat data'', h)))
      | _ \<Rightarrow> (Inl ''malformed /proc stat data'', h))"

definition parse_status_line :: "string \<Rightarrow> ProcessInfo \<Rightarrow> ProcessInfo" where
  "parse_status_line line info =
     (case find_char (CHR '':'') line of
        None \<Rightarrow> info
      | Some colon \<Rightarrow>
          (let key = take colon line; value = trim (drop (colon + 1) line)
           in if key = ''Name'' \<and> value \<noteq> [] then info\<lparr>pr_name := value\<rparr>
              else if key = ''State'' \<and> value \<noteq> [] then info\<lparr>pr_state := value\<rparr>
              else if key = ''Threads'' then
                (case parse_signed value of Some n \<Rightarrow> info\<lparr>pr_threads := n\<rparr> | None \<Rightarrow> info)
              else if key = ''VmSize'' then info\<lparr>virtual_memory_kb := parse_kb_value value\<rparr>
              else if key = ''VmRSS'' then info\<lparr>resident_memory_kb := parse_kb_value value\<rparr>
              else if key = ''VmPeak'' then info\<lparr>peak_memory_kb := parse_kb_value value\<rparr>
              else if key = ''Cpus_allowed_list'' then info\<lparr>cpu_allowed_list := value\<rparr>
              else if key = ''voluntary_ctxt_switches'' then
                (case parse_uint64 value of Some n \<Rightarrow> info\<lparr>voluntary_context_switches := Some n\<rparr> | None \<Rightarrow> info)
              else if key = ''nonvoluntary_ctxt_switches'' then
                (case parse_uint64 value of Some n \<Rightarrow> info\<lparr>involuntary_context_switches := Some n\<rparr> | None \<Rightarrow> info)
              else info))"

definition parse_status :: "string \<Rightarrow> ProcessInfo \<Rightarrow> ProcessInfo" where
  "parse_status s info = fold parse_status_line (getline_all newline s) info"

definition format_kb :: "64 word option \<Rightarrow> string" where
  "format_kb value =
     (case value of
        None \<Rightarrow> ''unavailable''
      | Some v \<Rightarrow>
          if 1024 * 1024 \<le> uint v then print_fixed 2 (double_div (double_of (uint v)) (double_of (1024 * 1024))) @ '' GiB''
          else if 1024 \<le> uint v then print_fixed 2 (double_div (double_of (uint v)) (double_of 1024)) @ '' MiB''
          else to_string (uint v) @ '' KiB'')"

definition process_error :: "environ \<Rightarrow> int \<Rightarrow> int \<Rightarrow> string" where
  "process_error e pid number =
     (if number = ENOENT \<or> number = ESRCH then ''process '' @ to_string pid @ '' does not exist''
      else if number = EACCES \<or> number = EPERM
      then ''permission denied while inspecting process '' @ to_string pid
      else ''failed to inspect process '' @ to_string pid @ '': '' @ strerror e number)"

definition proc_file :: "int \<Rightarrow> string \<Rightarrow> string" where
  "proc_file pid name = ''/proc/'' @ to_string pid @ name"

text \<open>The part of \<open>inspect_process\<close> after a valid stat file: what cannot be read is left out.\<close>

definition inspect_rest :: "kernel \<Rightarrow> int \<Rightarrow> ProcessInfo \<Rightarrow> trace \<Rightarrow> (ProcessInfo \<times> trace) option" where
  "inspect_rest K pid info0 h =
     Option.bind (read_file K (proc_file pid ''/status'') h) (\<lambda>(status, h1).
     let info1 = (if error_number status = 0 then parse_status (rr_data status) info0 else info0) in
     Option.bind (read_file K (proc_file pid ''/cmdline'') h1) (\<lambda>(cmdline, h2).
     let info2 = (if error_number cmdline = 0 then info1\<lparr>command_line := normalize_cmdline (rr_data cmdline)\<rparr> else info1);
         info3 = (if command_line info2 = [] then info2\<lparr>command_line := ''['' @ pr_name info2 @ '']''\<rparr> else info2);
         (exe, h3) = read_symlink K (proc_file pid ''/exe'') h2;
         (fds, h4) = count_open_fds K (proc_file pid ''/fd'') h3;
         (self, h5) = syscall K Getpid h4
     in Some (info3\<lparr>pr_executable := exe,
          open_file_descriptors := (case fds of
             Some n \<Rightarrow> if pid = ret self \<and> 0 < n then Some (n - 1) else Some n
           | None \<Rightarrow> None)\<rparr>, h5)))"

definition inspect_process ::
  "environ \<Rightarrow> kernel \<Rightarrow> int \<Rightarrow> trace \<Rightarrow> ((string + ProcessInfo) \<times> trace) option" where
  "inspect_process e K pid h =
     (if pid \<le> 0 then Some (Inl ''pid must be a positive integer'', h)
      else Option.bind (read_file K (proc_file pid ''/stat'') h) (\<lambda>(stat, h1).
        if error_number stat \<noteq> 0 then Some (Inl (process_error e pid (error_number stat)), h1)
        else case parse_stat K (rr_data stat) h1 of
            (Inl parse_error, h2) \<Rightarrow> Some (Inl (''failed to parse process '' @ to_string pid @ '': '' @ parse_error), h2)
          | (Inr info, h2) \<Rightarrow> map_option (\<lambda>(i, h3). (Inr i, h3)) (inspect_rest K pid info h2)))"

definition or_unavailable :: "int option \<Rightarrow> string" where
  "or_unavailable v = (case v of Some n \<Rightarrow> to_string n | None \<Rightarrow> ''unavailable'')"

definition render_process_info :: "ProcessInfo \<Rightarrow> string" where
  "render_process_info info =
     ''Process '' @ to_string (pr_pid info) @ '' ('' @ pr_name info @ '')'' @ [newline] @
     ''  State:             '' @ pr_state info @ [newline] @
     ''  PPID:              '' @ to_string (pr_ppid info) @ [newline] @
     ''  Process group:     '' @ to_string (pr_pgid info) @ [newline] @
     ''  Session:           '' @ to_string (pr_session_id info) @ [newline] @
     ''  Foreground PGID:   '' @ to_string (pr_foreground_pgid info) @ [newline] @
     ''  Threads:           '' @ to_string (pr_threads info) @ [newline] @
     ''  Priority / nice:   '' @ to_string (pr_priority info) @ '' / '' @ to_string (pr_nice_value info) @ [newline] @
     ''  CPU affinity:      '' @ (if cpu_allowed_list info = [] then ''unavailable'' else cpu_allowed_list info) @ [newline] @
     [newline] @ ''CPU'' @ [newline] @
     ''  User time:         '' @ print_fixed 3 (user_cpu_seconds info) @ '' s'' @ [newline] @
     ''  System time:       '' @ print_fixed 3 (system_cpu_seconds info) @ '' s'' @ [newline] @
     ''  Voluntary ctx:     '' @ or_unavailable (voluntary_context_switches info) @ [newline] @
     ''  Involuntary ctx:   '' @ or_unavailable (involuntary_context_switches info) @ [newline] @
     [newline] @ ''Memory'' @ [newline] @
     ''  Virtual:           '' @ format_kb (virtual_memory_kb info) @ [newline] @
     ''  Resident:          '' @ format_kb (resident_memory_kb info) @ [newline] @
     ''  Peak:              '' @ format_kb (peak_memory_kb info) @ [newline] @
     [newline] @ ''I/O'' @ [newline] @
     ''  Open FDs:          '' @ or_unavailable (open_file_descriptors info) @ [newline] @
     [newline] @ ''Command'' @ [newline] @
     ''  Executable:        '' @ (if pr_executable info = [] then ''unavailable'' else pr_executable info) @ [newline] @
     ''  Command line:      '' @ command_line info @ [newline]"

section \<open>Lemmas\<close>

lemma find_char_append: "c \<notin> set a \<Longrightarrow> find_char c (a @ c # b) = Some (length a)"
proof -
  assume c: "c \<notin> set a"
  then have "takeWhile (\<lambda>x. x \<noteq> c) (a @ c # b) = a @ takeWhile (\<lambda>x. x \<noteq> c) (c # b)"
    by (intro takeWhile_append2) auto
  then show ?thesis by (simp add: find_char_def)
qed

lemma rfind_char_append: "c \<notin> set b \<Longrightarrow> rfind_char c (a @ c # b) = Some (length a)"
  using find_char_append [of c "rev b" "rev a"] by (simp add: rfind_char_def)

definition number_char :: "char \<Rightarrow> bool" where
  "number_char c \<longleftrightarrow> isdigit c \<or> c = CHR ''-''"

lemma number_char_simps [simp]: "number_char c \<Longrightarrow> \<not> isspace c" "number_char c \<Longrightarrow> \<not> blank_char c"
  by (auto simp: number_char_def isdigit_def isspace_def blank_char_def)

lemma to_string_chars: "list_all number_char (to_string n)"
  using digits_of_isdigit by (auto simp: to_string_def number_char_def list_all_iff)

lemma to_string_nonempty [simp]: "to_string n \<noteq> []"
  by (simp add: to_string_def)

lemma to_string_no_paren [simp]: "CHR ''('' \<notin> set (to_string n)" "CHR '')'' \<notin> set (to_string n)"
  using to_string_chars [of n] by (auto simp: list_all_iff number_char_def isdigit_def)

lemma trim_word:
  assumes "list_all (\<lambda>c. \<not> blank_char c) w" "list_all blank_char a"
  shows "trim (w @ a) = w"
proof (cases w)
  case Nil
  with assms show ?thesis by (simp add: trim_def dropWhile_all)
next
  case (Cons c cs)
  have "dropWhile blank_char (rev a @ rev w) = dropWhile blank_char (rev w)"
    using assms(2) by (intro dropWhile_append2) (simp add: list_all_iff)
  also have "\<dots> = rev w"
    using assms(1) Cons by (simp add: dropWhile_eq_self_iff hd_rev list_all_iff del: rev.simps)
  finally have d: "dropWhile blank_char (rev a @ rev w) = rev w" .
  have "dropWhile blank_char (w @ a) = w @ a" using assms(1) Cons by simp
  then show ?thesis by (simp add: trim_def d)
qed

lemma from_chars_to_string:
  assumes "lo \<le> n" "n \<le> hi" "0 \<le> n \<or> lo < 0"
  shows "from_chars lo hi (to_string n) = Some n"
proof (cases "n < 0")
  case True
  then show ?thesis
    using assms digits_of_isdigit [of "nat (- n)"]
    by (simp add: from_chars_def to_string_def signed_value_def)
next
  case False
  have "isdigit (hd (digits_of (nat n)))" by (rule hd_digits_of)
  then have "hd (digits_of (nat n)) \<noteq> CHR ''-''" by (auto simp: isdigit_def)
  with False assms digits_of_isdigit [of "nat n"] show ?thesis
    by (simp add: from_chars_def to_string_def signed_value_def)
qed

lemma parse_integer_to_string:
  assumes "lo \<le> n" "n \<le> hi" "0 \<le> n \<or> lo < 0" "list_all blank_char a"
  shows "parse_integer lo hi (to_string n @ a) = Some n"
proof -
  have "list_all (\<lambda>c. \<not> blank_char c) (to_string n)"
    using to_string_chars [of n] by (simp add: list_all_iff)
  then show ?thesis
    using assms by (simp add: parse_integer_def trim_word from_chars_to_string)
qed

lemmas parse_integer_plain = parse_integer_to_string [where a = "[]", simplified]

text \<open>Words with a blank between them and a newline at the end, as \<open>/proc\<close> prints them.\<close>

fun words_line :: "string list \<Rightarrow> string" where
  "words_line [] = [newline]"
| "words_line [w] = w @ [newline]"
| "words_line (w # ws) = w @ '' '' @ words_line ws"

lemma fields_of_word:
  assumes "w \<noteq> []" "list_all (\<lambda>c. \<not> isspace c) w" "isspace c"
  shows "fields_of (w @ c # s) = w # fields_of (c # s)"
proof -
  from assms(1,2) have "dropWhile isspace (w @ c # s) = w @ c # s" by (cases w) auto
  moreover have "takeWhile (\<lambda>c. \<not> isspace c) (w @ c # s) = w" "dropWhile (\<lambda>c. \<not> isspace c) (w @ c # s) = c # s"
    using assms(2,3) by (auto simp: list_all_iff)
  ultimately show ?thesis using assms(1) by (simp add: fields_of.simps [of "w @ c # s"])
qed

lemma fields_of_space: "isspace c \<Longrightarrow> fields_of (c # s) = fields_of s"
  by (simp add: fields_of.simps [of "c # s"] fields_of.simps [of s])

lemma fields_of_Nil [simp]: "fields_of [] = []"
  by (simp add: fields_of.simps)

lemma fields_of_words_line:
  "list_all (\<lambda>w. w \<noteq> [] \<and> list_all (\<lambda>c. \<not> isspace c) w) ws \<Longrightarrow> fields_of (words_line ws) = ws"
  by (induction ws rule: words_line.induct) (simp_all add: fields_of_word fields_of_space)

lemma words_line_set: "set (words_line ws) \<subseteq> {newline, blank} \<union> \<Union> (set ` set ws)"
  by (induction ws rule: words_line.induct) auto

section \<open>Calls\<close>

text \<open>Inspecting a process only opens, reads, lists and closes.\<close>

definition proc_call :: "syscall \<Rightarrow> bool" where
  "proc_call c =
     (case c of Open _ _ _ \<Rightarrow> True | Read _ _ \<Rightarrow> True | Close _ \<Rightarrow> True | Readlink _ _ \<Rightarrow> True | List_dir _ \<Rightarrow> True
      | Getpid \<Rightarrow> True | Sysconf_clk_tck \<Rightarrow> True | _ \<Rightarrow> False)"

definition proc_ext :: "trace \<Rightarrow> trace \<Rightarrow> bool" where
  "proc_ext h h' \<longleftrightarrow> (\<exists>cs. h' = h @ cs \<and> list_all proc_call cs)"

lemma proc_ext_refl [simp]: "proc_ext h h"
  by (simp add: proc_ext_def)

lemma proc_ext_trans: "proc_ext a b \<Longrightarrow> proc_ext b c \<Longrightarrow> proc_ext a c"
  by (auto simp: proc_ext_def)

lemma proc_ext_snoc [simp]: "proc_ext h h' \<Longrightarrow> proc_call c \<Longrightarrow> proc_ext h (h' @ [c])"
  by (auto simp: proc_ext_def)

lemma proc_ext_step: "proc_ext (h @ [c]) h' \<Longrightarrow> proc_call c \<Longrightarrow> proc_ext h h'"
  by (auto simp: proc_ext_def)

lemma proc_call_simps [simp]:
  "proc_call (Open s fl md)" "proc_call (Read fd i)" "proc_call (Close fd)" "proc_call (Readlink s i)"
  "proc_call (List_dir s)" "proc_call Getpid" "proc_call Sysconf_clk_tck"
  by (simp_all add: proc_call_def)

lemma proc_ext_close_fd: "proc_ext h h' \<Longrightarrow> proc_ext h (close_fd fd h')"
  by (simp add: close_fd_def emit_def)

lemma read_loop_ext:
  assumes "read_loop K fd acc h = Some r"
  shows "proc_ext h (snd r)"
proof (rule read_loop.raw_induct [where P = "\<lambda>K fd acc h r. proc_ext h (snd r)", OF _ assms])
  fix f K fd acc h r
  assume IH: "\<And>K fd acc h r. f K fd acc h = Some r \<Longrightarrow> proc_ext h (snd r)"
    and body: "(let (r, h1) = syscall K (Read fd 4096) h
      in if 0 < ret r then f K fd (acc @ take (nat (ret r)) (bytes r)) h1
         else if ret r = 0 then Some (\<lparr>rr_data = acc, error_number = 0\<rparr>, h1)
         else if errno r = EINTR then f K fd acc h1
         else Some (\<lparr>rr_data = [], error_number = errno r\<rparr>, h1)) = Some r"
  define c where "c = Read fd 4096"
  have "proc_call c" by (simp add: c_def)
  have step: "proc_ext h (snd r)" if "f K fd x (h @ [c]) = Some r" for x
    by (rule proc_ext_step [OF IH [OF that] \<open>proc_call c\<close>])
  show "proc_ext h (snd r)"
    using body \<open>proc_call c\<close> unfolding c_def [symmetric] syscall_def Let_def prod.case
    by (auto split: if_splits intro: step)
qed

lemma read_file_ext: "read_file K path h = Some (r, h') \<Longrightarrow> proc_ext h h'"
  by (auto simp: read_file_def syscall_def split: if_splits dest!: read_loop_ext intro!: proc_ext_close_fd elim!: proc_ext_step)

lemma read_symlink_sizes_ext: "proc_ext h (snd (read_symlink_sizes K path sizes h))"
proof (induction sizes arbitrary: h)
  case (Cons sz sizes)
  from Cons [of "h @ [Readlink (c_str path) sz]"] show ?case by (auto simp: syscall_def Let_def intro: proc_ext_step)
qed simp

lemma parse_stat_ext: "parse_stat K s h = (r, h') \<Longrightarrow> proc_ext h h'"
  by (auto simp: parse_stat_def syscall_def Let_def split: option.splits if_splits list.splits)

lemma inspect_rest_ext:
  assumes "inspect_rest K pid info h = Some (i, h')"
  shows "proc_ext h h'"
proof -
  obtain st h1 cm h2 where r: "read_file K (proc_file pid ''/status'') h = Some (st, h1)"
    "read_file K (proc_file pid ''/cmdline'') h1 = Some (cm, h2)"
    "h' = snd (read_symlink K (proc_file pid ''/exe'') h2) @ [List_dir (c_str (proc_file pid ''/fd'')), Getpid]"
    using assms by (auto simp: inspect_rest_def bind_eq_Some_conv count_open_fds_def syscall_def Let_def split_beta)
  have "proc_ext h2 (snd (read_symlink K (proc_file pid ''/exe'') h2))"
    unfolding read_symlink_def by (rule read_symlink_sizes_ext)
  with r(1,2) have "proc_ext h (snd (read_symlink K (proc_file pid ''/exe'') h2))"
    by (blast dest: read_file_ext intro: proc_ext_trans)
  from proc_ext_snoc [OF proc_ext_snoc [OF this, of "List_dir (c_str (proc_file pid ''/fd''))"], of Getpid] r(3)
  show ?thesis by simp
qed

lemma inspect_process_ext: "inspect_process e K pid h = Some (r, h') \<Longrightarrow> proc_ext h h'"
  by (auto simp: inspect_process_def bind_eq_Some_conv split: if_splits prod.splits sum.splits
      dest!: read_file_ext parse_stat_ext inspect_rest_ext intro: proc_ext_trans)


section \<open>Properties\<close>

text \<open>The stat line that the kernel prints (proc(5)): the name stands between parentheses, as it is.\<close>

definition stat_line :: "int \<Rightarrow> string \<Rightarrow> char \<Rightarrow> int list \<Rightarrow> string" where
  "stat_line pid name st nums =
     to_string pid @ '' ('' @ name @ '') '' @ [st] @ '' '' @ words_line (map to_string nums)"

definition stat_range :: "int \<Rightarrow> int list \<Rightarrow> bool" where
  "stat_range pid nums \<longleftrightarrow>
     INT_MIN \<le> pid \<and> pid \<le> INT_MAX \<and> 20 < length nums \<and>
     list_all (\<lambda>i. INT_MIN \<le> nums ! i \<and> nums ! i \<le> INT_MAX) [0, 1, 2, 4] \<and>
     list_all (\<lambda>i. 0 \<le> nums ! i \<and> nums ! i < 2 ^ 64) [10, 11] \<and>
     list_all (\<lambda>i. LONG_MIN \<le> nums ! i \<and> nums ! i \<le> LONG_MAX) [14, 15, 16]"

lemma stat_numbers_line:
  assumes "stat_range pid nums"
  shows "stat_numbers (map to_string nums) =
    Some [nums ! 0, nums ! 1, nums ! 2, nums ! 4, nums ! 10, nums ! 11, nums ! 14, nums ! 15, nums ! 16]"
proof -
  have "nums \<noteq> []" using assms by (auto simp: stat_range_def)
  with assms show ?thesis by (simp add: stat_numbers_def stat_range_def parse_integer_plain)
qed

lemma int32_cast_id: "INT_MIN \<le> v \<Longrightarrow> v \<le> INT_MAX \<Longrightarrow> int32_cast v = v"
  by (simp add: int32_cast_def int_word_sint)

lemma parse_stat_of_line:
  assumes "stat_range pid nums" "st \<noteq> CHR '')''"
  shows "parse_stat K (stat_line pid name st nums) h =
    (Inr (new_process_info\<lparr>pr_pid := pid, pr_name := name, pr_state := state_description st,
       pr_ppid := nums ! 0, pr_pgid := nums ! 1, pr_session_id := nums ! 2, pr_foreground_pgid := nums ! 4,
       pr_priority := nums ! 14, pr_nice_value := nums ! 15, pr_threads := nums ! 16,
       user_cpu_seconds := cpu_seconds (nums ! 10) (ret (K h Sysconf_clk_tck)),
       system_cpu_seconds := cpu_seconds (nums ! 11) (ret (K h Sysconf_clk_tck))\<rparr>), h @ [Sysconf_clk_tck])" (is "_ = ?rhs")
proof -
  let ?s = "stat_line pid name st nums" and ?p = "to_string pid @ '' ''"
  let ?rest = "'' '' @ [st] @ '' '' @ words_line (map to_string nums)"
  have s1: "?s = ?p @ CHR ''('' # (name @ CHR '')'' # ?rest)"
    and s2: "?s = (?p @ CHR ''('' # name) @ CHR '')'' # ?rest"
    by (simp_all add: stat_line_def)
  have "CHR '')'' \<notin> set ?rest" using assms(2) words_line_set [of "map to_string nums"] by auto
  then have r: "rfind_char (CHR '')'') ?s = Some (length ?p + 1 + length name)"
    unfolding s2 by (subst rfind_char_append) simp_all
  have f: "find_char (CHR ''('') ?s = Some (length ?p)"
    unfolding s1 by (rule find_char_append) simp
  have pid: "parse_pid (take (length ?p) ?s) = Some pid"
    using assms(1) parse_integer_to_string [of INT_MIN pid INT_MAX "'' ''"]
    by (simp add: s1 stat_range_def blank_char_def)
  let ?q = "?p @ ''('' @ name @ '') '' @ [st] @ '' ''"
  have "?s = ?q @ words_line (map to_string nums)" by (simp add: stat_line_def)
  moreover have "length ?p + 1 + length name + 4 = length ?q" by simp
  ultimately have d: "drop (length ?p + 1 + length name + 4) ?s = words_line (map to_string nums)"
    by (metis append_eq_conv_conj)
  have fields: "fields_of (words_line (map to_string nums)) = map to_string nums"
    using to_string_chars by (intro fields_of_words_line) (fastforce simp: list_all_iff)
  have nth: "?s ! (length ?p + 1 + length name + 2) = st"
    unfolding s2 by (simp add: nth_append)
  have name: "take (length ?p + 1 + length name - length ?p - 1) (drop (length ?p + 1) ?s) = name"
    by (simp add: s1)
  have len: "length ?p + 1 + length name + 4 \<le> length ?s" by (simp add: s2)
  have n: "20 < length nums" using assms(1) by (simp add: stat_range_def)
  have c: "int32_cast (nums ! i) = nums ! i" if "i \<in> {0, 1, 2, 4}" for i
    using assms(1) that by (intro int32_cast_id) (auto simp: stat_range_def)
  define t i j where t: "t = ?s" and i: "i = length ?p" and j: "j = length ?p + 1 + length name"
  note facts = r f pid d nth name len
  have "i < j" by (simp add: i j)
  then have "parse_stat K t h = ?rhs"
    using facts [folded t i j] n fields stat_numbers_line [OF assms(1)] c
    by (simp add: parse_stat_def syscall_def i [symmetric] j [symmetric])
  then show ?thesis by (simp add: t)
qed

text \<open>
  C38. The stat line of a process is read back exactly, whatever its name: a program that calls itself
  \<open>x) R 1 1 (y\<close>, with parentheses, blanks or newlines in its name, cannot make \<open>pinfo\<close> report wrong
  identifiers, because the name ends at the last closing parenthesis. All reported fields are the
  printed ones.
\<close>

theorem parse_stat_line:
  assumes "stat_range pid nums" "st \<noteq> CHR '')''"
  shows "parse_stat K (stat_line pid name st nums) h =
    (Inr (new_process_info\<lparr>pr_pid := pid, pr_name := name, pr_state := state_description st,
       pr_ppid := nums ! 0, pr_pgid := nums ! 1, pr_session_id := nums ! 2, pr_foreground_pgid := nums ! 4,
       pr_priority := nums ! 14, pr_nice_value := nums ! 15, pr_threads := nums ! 16,
       user_cpu_seconds := cpu_seconds (nums ! 10) (ret (K h Sysconf_clk_tck)),
       system_cpu_seconds := cpu_seconds (nums ! 11) (ret (K h Sysconf_clk_tck))\<rparr>), h @ [Sysconf_clk_tck])"
  by (rule parse_stat_of_line [OF assms])

text \<open>A process whose name looks like the rest of a stat line.\<close>

definition demo_stat :: "int list" where
  "demo_stat = [1, 42, 42, 0, 42, 0, 0, 0, 0, 0, 150, 25, 0, 0, 20, 0, 3, 0, 0, 0, 0]"

theorem parse_stat_line_witness:
  "\<exists>info. parse_stat (scripted_kernel []) (stat_line 42 ''x) R 1 1 (y'' (CHR ''S'') demo_stat) [] = (Inr info, [Sysconf_clk_tck]) \<and>
     pr_pid info = 42 \<and> pr_name info = ''x) R 1 1 (y'' \<and> pr_ppid info = 1 \<and> pr_threads info = 3"
proof -
  have "stat_range 42 demo_stat" by code_simp
  from parse_stat_line [OF this, of "CHR ''S''" "scripted_kernel []" "''x) R 1 1 (y''" "[]"]
  show ?thesis by (auto simp: demo_stat_def)
qed

end
