(* ===== verification/Sandbox.thy ===== *)
theory Sandbox
  imports Resource_Control
begin

text \<open>
  \<open>src/sandbox.cpp\<close>: the options of \<open>sandbox\<close>, the cgroup of a sandbox and its clean-up, the namespaces
  and the program inside them, the supervisor that releases its worker through a pipe, and the
  report of the capabilities. As in the executor, one definition covers both sides of \<open>fork\<close>. \<open>None\<close>
  is ``does not return'', an \<open>Inl\<close> result is the end of the process.
\<close>

section \<open>Configuration\<close>

record SandboxConfig =
  sb_show_help :: bool
  sb_show_status :: bool
  user_namespace :: bool
  pid_namespace :: bool
  mount_namespace :: bool
  network_namespace :: bool
  uts_namespace :: bool
  mount_proc :: bool
  hostname :: string
  has_memory_max :: bool
  memory_max_bytes :: "64 word"
  has_pids_max :: bool
  pids_max :: "64 word"
  has_cpu_percent :: bool
  cpu_percent :: int
  sb_program_args :: "string list"

definition new_sandbox_config :: SandboxConfig where
  "new_sandbox_config =
     \<lparr>sb_show_help = False, sb_show_status = False, user_namespace = False, pid_namespace = False,
      mount_namespace = False, network_namespace = False, uts_namespace = False, mount_proc = False, hostname = [],
      has_memory_max = False, memory_max_bytes = 0, has_pids_max = False, pids_max = 0,
      has_cpu_percent = False, cpu_percent = 0, sb_program_args = []\<rparr>"


section \<open>Reading values\<close>

definition sandbox_parse_unsigned :: "string \<Rightarrow> bool \<Rightarrow> 64 word option" where
  "sandbox_parse_unsigned txt allow_zero =
     (if txt = [] \<or> hd txt = CHR ''-'' then None
      else case stoull txt of
             None \<Rightarrow> None
           | Some (parsed, consumed) \<Rightarrow>
               if consumed \<noteq> length txt \<or> (\<not> allow_zero \<and> parsed = 0) then None else Some parsed)"

definition ends_with :: "string \<Rightarrow> string \<Rightarrow> bool" where
  "ends_with txt sfx \<longleftrightarrow> length sfx \<le> length txt \<and> drop (length txt - length sfx) txt = sfx"

text \<open>The multiplier of a size and the text in front of its suffix, in the order of the tests.\<close>

definition size_suffix :: "string \<Rightarrow> 64 word \<times> string" where
  "size_suffix txt =
     (let cut = (\<lambda>k. take (length txt - k) txt)
      in if ends_with txt ''KiB'' then (1024, cut 3)
         else if ends_with txt ''MiB'' then (1024 * 1024, cut 3)
         else if ends_with txt ''GiB'' then (1024 * 1024 * 1024, cut 3)
         else if ends_with txt ''K'' \<or> ends_with txt ''k'' then (1024, cut 1)
         else if ends_with txt ''M'' \<or> ends_with txt ''m'' then (1024 * 1024, cut 1)
         else if ends_with txt ''G'' \<or> ends_with txt ''g'' then (1024 * 1024 * 1024, cut 1)
         else if ends_with txt ''B'' \<or> ends_with txt ''b'' then (1, cut 1)
         else (1, txt))"

definition sandbox_parse_size :: "string \<Rightarrow> 64 word option" where
  "sandbox_parse_size txt =
     (if txt = [] \<or> hd txt = CHR ''-'' then None
      else let (multiplier, body) = size_suffix txt
        in case sandbox_parse_unsigned body True of
             None \<Rightarrow> None
           | Some base \<Rightarrow> if (- 1) div multiplier < base then None else Some (base * multiplier))"


section \<open>Options\<close>

text \<open>The kinds of argument that the option loop tells apart, in the order of its tests.\<close>

datatype sandbox_flag =
    Sb_separator | Sb_help | Sb_status | Sb_program | Sb_user | Sb_pid | Sb_mount | Sb_net | Sb_uts | Sb_proc
  | Sb_all | Sb_hostname | Sb_memory | Sb_pids | Sb_cpu | Sb_unknown

definition sandbox_flag_of :: "string \<Rightarrow> sandbox_flag" where
  "sandbox_flag_of arg =
     (if arg = ''--'' then Sb_separator
      else if arg = ''-h'' \<or> arg = ''--help'' then Sb_help
      else if arg = ''--status'' then Sb_status
      else if arg = [] \<or> hd arg \<noteq> CHR ''-'' then Sb_program
      else if arg = ''--user'' then Sb_user
      else if arg = ''--pid'' then Sb_pid
      else if arg = ''--mount'' then Sb_mount
      else if arg = ''--net'' \<or> arg = ''--no-network'' then Sb_net
      else if arg = ''--uts'' then Sb_uts
      else if arg = ''--proc'' then Sb_proc
      else if arg = ''--all'' then Sb_all
      else if arg = ''--hostname'' then Sb_hostname
      else if arg = ''--memory'' then Sb_memory
      else if arg = ''--pids'' then Sb_pids
      else if arg = ''--cpu-percent'' then Sb_cpu
      else Sb_unknown)"

text \<open>The check and the update of an option with a value.\<close>

definition sandbox_value_option ::
  "SandboxConfig \<Rightarrow> sandbox_flag \<Rightarrow> string \<Rightarrow> string + SandboxConfig" where
  "sandbox_value_option cfg flag value =
     (case flag of
        Sb_hostname \<Rightarrow>
          if value = [] \<or> 64 < length value then Inl ''sandbox: invalid hostname''
          else Inr (cfg\<lparr>hostname := value, uts_namespace := True\<rparr>)
      | Sb_memory \<Rightarrow>
          (case sandbox_parse_size value of
             None \<Rightarrow> Inl (''sandbox: invalid --memory value: '' @ value)
           | Some n \<Rightarrow> Inr (cfg\<lparr>memory_max_bytes := n, has_memory_max := True\<rparr>))
      | Sb_pids \<Rightarrow>
          (case sandbox_parse_unsigned value False of
             None \<Rightarrow> Inl (''sandbox: invalid --pids value: '' @ value)
           | Some n \<Rightarrow> Inr (cfg\<lparr>pids_max := n, has_pids_max := True\<rparr>))
      | _ \<Rightarrow>
          (case sandbox_parse_unsigned value False of
             None \<Rightarrow> Inl ''sandbox: --cpu-percent expects 1..1000''
           | Some n \<Rightarrow>
               if 1000 < uint n then Inl ''sandbox: --cpu-percent expects 1..1000''
               else Inr (cfg\<lparr>cpu_percent := uint n, has_cpu_percent := True\<rparr>)))"

definition sandbox_switch :: "sandbox_flag \<Rightarrow> SandboxConfig \<Rightarrow> SandboxConfig" where
  "sandbox_switch flag cfg =
     (case flag of
        Sb_user \<Rightarrow> cfg\<lparr>user_namespace := True\<rparr>
      | Sb_pid \<Rightarrow> cfg\<lparr>pid_namespace := True\<rparr>
      | Sb_mount \<Rightarrow> cfg\<lparr>mount_namespace := True\<rparr>
      | Sb_net \<Rightarrow> cfg\<lparr>network_namespace := True\<rparr>
      | Sb_uts \<Rightarrow> cfg\<lparr>uts_namespace := True\<rparr>
      | Sb_proc \<Rightarrow> cfg\<lparr>mount_proc := True\<rparr>
      | Sb_all \<Rightarrow> cfg\<lparr>user_namespace := True, pid_namespace := True, mount_namespace := True,
                     network_namespace := True, uts_namespace := True, mount_proc := True\<rparr>
      | _ \<Rightarrow> cfg)"

definition takes_value :: "sandbox_flag \<Rightarrow> bool" where
  "takes_value flag \<longleftrightarrow> flag = Sb_hostname \<or> flag = Sb_memory \<or> flag = Sb_pids \<or> flag = Sb_cpu"

definition sandbox_option_value :: "string \<Rightarrow> string list \<Rightarrow> string + string \<times> string list" where
  "sandbox_option_value option rest =
     (case rest of
        [] \<Rightarrow> Inl (''sandbox: '' @ option @ '' requires a value'')
      | value # rest' \<Rightarrow> Inr (value, rest'))"

lemma sandbox_option_value_Inr [simp]: "sandbox_option_value option rest = Inr (v, rest') \<longleftrightarrow> rest = v # rest'"
  by (auto simp: sandbox_option_value_def split: list.splits)

text \<open>
  The option loop over the arguments that are left: an error, or the configuration, whether \<open>--\<close> was
  seen, and the arguments from where the loop stopped. \<open>--status\<close> advances the index once itself and
  once in the loop header, so the argument behind it is never looked at.
\<close>

function sandbox_options ::
  "SandboxConfig \<Rightarrow> string list \<Rightarrow> string + (SandboxConfig \<times> bool \<times> string list)" where
  "sandbox_options cfg [] = Inr (cfg, False, [])"
| "sandbox_options cfg (arg # rest) =
     (case sandbox_flag_of arg of
        Sb_separator \<Rightarrow> Inr (cfg, True, rest)
      | Sb_help \<Rightarrow> Inr (cfg\<lparr>sb_show_help := True\<rparr>, False, rest)
      | Sb_status \<Rightarrow> sandbox_options (cfg\<lparr>sb_show_status := True\<rparr>) (drop 1 rest)
      | Sb_program \<Rightarrow> Inr (cfg, False, arg # rest)
      | Sb_unknown \<Rightarrow> Inl (''sandbox: unknown option: '' @ arg)
      | flag \<Rightarrow>
          if takes_value flag then
            (case sandbox_option_value arg rest of
               Inl e \<Rightarrow> Inl e
             | Inr (value, rest') \<Rightarrow>
                 (case sandbox_value_option cfg flag value of
                    Inl e \<Rightarrow> Inl e
                  | Inr cfg' \<Rightarrow> sandbox_options cfg' rest'))
          else sandbox_options (sandbox_switch flag cfg) rest)"
  by pat_completeness auto
termination by (relation "measure (\<lambda>(cfg, rest). length rest)") auto

text \<open>\<open>Inl\<close> is a \<open>SandboxParseResult\<close> with an error.\<close>

definition parse_sandbox :: "Command \<Rightarrow> string + SandboxConfig" where
  "parse_sandbox command =
     (if args command = [] \<or> hd (args command) \<noteq> ''sandbox'' then Inl ''sandbox: internal parse error''
      else case sandbox_options new_sandbox_config (tl (args command)) of
        Inl e \<Rightarrow> Inl e
      | Inr (cfg, explicit_separator, rest) \<Rightarrow>
          if sb_show_help cfg then
            (if rest \<noteq> [] then Inl ''sandbox: --help does not accept a program'' else Inr cfg)
          else if sb_show_status cfg then
            (if rest \<noteq> [] then Inl ''sandbox: --status does not accept a program'' else Inr cfg)
          else if mount_proc cfg \<and> (\<not> pid_namespace cfg \<or> \<not> mount_namespace cfg)
          then Inl ''sandbox: --proc requires both --pid and --mount''
          else if explicit_separator \<and> rest = [] then Inl ''sandbox: missing program after --''
          else if rest = [] then Inl ''sandbox: missing program''
          else Inr (cfg\<lparr>sb_program_args := rest\<rparr>))"

definition sandbox_usage :: string where
  "sandbox_usage =
     ''usage: sandbox [OPTIONS] -- PROGRAM [ARGS...]'' @ [newline] @
     ''       sandbox --status'' @ [newline, newline] @
     ''Create Linux namespace isolation around PROGRAM. Optional cgroup v2'' @ [newline] @
     ''limits are applied when a writable delegated cgroup is available.'' @ [newline, newline] @
     ''Namespace options:'' @ [newline] @
     ''  --user             isolate user/group IDs'' @ [newline] @
     ''  --pid              isolate process IDs'' @ [newline] @
     ''  --mount            isolate the mount table'' @ [newline] @
     ''  --net, --no-network isolate the network stack'' @ [newline] @
     ''  --uts              isolate hostname/domain name'' @ [newline] @
     ''  --hostname NAME    set hostname (implies --uts)'' @ [newline] @
     ''  --proc             mount a fresh /proc (requires --pid and --mount)'' @ [newline] @
     ''  --all              enable user, pid, mount, net, uts, and /proc'' @ [newline, newline] @
     ''cgroup v2 options:'' @ [newline] @
     ''  --memory SIZE      memory.max (B/K/M/G suffixes)'' @ [newline] @
     ''  --pids N           pids.max'' @ [newline] @
     ''  --cpu-percent N    cpu.max as N% of one CPU (1..1000)'' @ [newline, newline] @
     ''Other:'' @ [newline] @
     ''  --status           report namespace/cgroup capabilities'' @ [newline] @
     ''  -h, --help         show this help'' @ [newline, newline] @
     ''This is an educational isolation runtime, not a hardened security sandbox.'' @ [newline]"


section \<open>Files and paths\<close>

text \<open>\<open>std::filesystem::path::operator/\<close>.\<close>

definition path_append :: "string \<Rightarrow> string \<Rightarrow> string" where
  "path_append a b =
     (if b \<noteq> [] \<and> hd b = CHR ''/'' then b
      else if a = [] \<or> last a = CHR ''/'' then a @ b
      else a @ ''/'' @ b)"

text \<open>
  \<open>write_text_file\<close>: the text is shorter than the buffer of the stream, so it reaches the kernel when
  the destructor closes the file, after the last test of the stream; the answer of that write is
  not seen. The result is the error, if any.
\<close>

definition write_text_file :: "environ \<Rightarrow> kernel \<Rightarrow> string \<Rightarrow> string \<Rightarrow> trace \<Rightarrow> string option \<times> trace" where
  "write_text_file e K path text_data h =
     (let (r, h1) = syscall K (Open (c_str path) [O_WRONLY, O_CREAT, O_TRUNC] 438) h
      in if ret r < 0 then (Some (path @ '': '' @ strerror e (errno r)), h1)
         else (None, emit (Close (ret r)) (emit (Write (ret r) text_data) h1)))"

text \<open>The position behind the first \<open>::\<close> of a line.\<close>

fun after_marker :: "string \<Rightarrow> string option" where
  "after_marker (a # b # rest) = (if a = CHR '':'' \<and> b = CHR '':'' then Some rest else after_marker (b # rest))"
| "after_marker _ = None"

fun first_marked :: "string list \<Rightarrow> string option" where
  "first_marked [] = None"
| "first_marked (line # lines) = (case after_marker line of Some p \<Rightarrow> Some p | None \<Rightarrow> first_marked lines)"

definition current_cgroup_path :: "kernel \<Rightarrow> trace \<Rightarrow> string option \<times> trace" where
  "current_cgroup_path K h =
     (let (r, h1) = syscall K (Isolation (Read_text ''/proc/self/cgroup'')) h
      in (if ret r = -1 then None else first_marked (getline_all newline (bytes r)), h1))"

definition cgroup_mount_root :: string where
  "cgroup_mount_root = ''/sys/fs/cgroup''"

text \<open>The directory of a cgroup: one leading slash is dropped before it is appended to the root.\<close>

definition cgroup_directory :: "string \<Rightarrow> string" where
  "cgroup_directory base =
     path_append cgroup_mount_root (if base \<noteq> [] \<and> hd base = CHR ''/'' then tl base else base)"

definition cgroup_v2_mounted :: "kernel \<Rightarrow> trace \<Rightarrow> bool \<times> trace" where
  "cgroup_v2_mounted K h =
     (let (r, h1) = syscall K (Isolation (Statfs cgroup_mount_root)) h
      in (ret r \<noteq> -1 \<and> fs_type r = 0x63677270, h1))"

text \<open>\<open>std::filesystem::exists\<close> in its throwing form: nothing catches the exception.\<close>

definition fs_exists :: "kernel \<Rightarrow> string \<Rightarrow> trace \<Rightarrow> bool step_end \<times> trace" where
  "fs_exists K path h =
     (let (r, h1) = syscall K (Isolation (Exists (c_str path))) h
      in if ret r < 0 then (Inl Aborted, h1) else (Inr (ret r = 1), h1))"

section \<open>The cgroup of a sandbox\<close>

text \<open>
  \<open>CgroupScope\<close> is its \<open>path_\<close>, empty when there is no directory. The limit files that a configuration
  asks for, with their controllers and the text written to them, in the order of the code.
\<close>

definition cgroup_limits :: "SandboxConfig \<Rightarrow> (string \<times> string \<times> string) list" where
  "cgroup_limits cfg =
     (if has_memory_max cfg then [(''memory.max'', ''memory'', nat_to_string (unat (memory_max_bytes cfg)))] else []) @
     (if has_pids_max cfg then [(''pids.max'', ''pids'', nat_to_string (unat (pids_max cfg)))] else []) @
     (if has_cpu_percent cfg
      then [(''cpu.max'', ''cpu'', to_string (100000 * cpu_percent cfg div 100) @ '' '' @ to_string 100000)] else [])"

fun remove_loop :: "kernel \<Rightarrow> string \<Rightarrow> nat \<Rightarrow> trace \<Rightarrow> trace" where
  "remove_loop K path 0 h = h"
| "remove_loop K path (Suc attempts) h =
     (let (r, h1) = syscall K (Isolation (Remove (c_str path))) h
      in if ret r = 1 then h1
         else let (r2, h2) = syscall K (Isolation (Exists (c_str path))) h1
           in if ret r2 \<noteq> 1 then h2 else remove_loop K path attempts (emit (Isolation (Usleep 1000)) h2))"

definition cgroup_cleanup :: "(trace \<Rightarrow> environ) \<Rightarrow> kernel \<Rightarrow> string \<Rightarrow> trace \<Rightarrow> unit step_end \<times> trace" where
  "cgroup_cleanup E K path h =
     (if path = [] then (Inr (), h)
      else and_then (fs_exists K (path_append path ''cgroup.kill'') h) (\<lambda>there h1.
        let h2 = (if there then snd (write_text_file (E h1) K (path_append path ''cgroup.kill'') ''1'' h1) else h1)
        in (Inr (), remove_loop K path 20 h2)))"

fun require_controllers ::
  "kernel \<Rightarrow> string \<Rightarrow> (string \<times> string \<times> string) list \<Rightarrow> trace \<Rightarrow> string option step_end \<times> trace" where
  "require_controllers K path [] h = (Inr None, h)"
| "require_controllers K path ((file, controller, value) # rest) h =
     and_then (fs_exists K (path_append path file) h) (\<lambda>there h1.
       if there then require_controllers K path rest h1
       else (Inr (Some (controller @ '' controller is not delegated to the shell'' @ [squote] @ ''s cgroup'')), h1))"

fun write_limits ::
  "(trace \<Rightarrow> environ) \<Rightarrow> kernel \<Rightarrow> string \<Rightarrow> (string \<times> string \<times> string) list \<Rightarrow> trace \<Rightarrow> string option \<times> trace" where
  "write_limits E K path [] h = (None, h)"
| "write_limits E K path ((file, controller, value) # rest) h =
     (case write_text_file (E h) K (path_append path file) value h of
        (Some err, h1) \<Rightarrow> (Some err, h1)
      | (None, h1) \<Rightarrow> write_limits E K path rest h1)"

text \<open>
  The part of \<open>create\<close> after the directory has been made: the error, if any, and the value of \<open>path_\<close>.
  On an error the directory is removed again.
\<close>

definition cgroup_undo ::
  "(trace \<Rightarrow> environ) \<Rightarrow> kernel \<Rightarrow> string \<Rightarrow> string \<Rightarrow> trace \<Rightarrow> (string option \<times> string) step_end \<times> trace" where
  "cgroup_undo E K path err h = and_then (cgroup_cleanup E K path h) (\<lambda>_ h1. (Inr (Some err, []), h1))"

definition cgroup_populate ::
  "(trace \<Rightarrow> environ) \<Rightarrow> kernel \<Rightarrow> SandboxConfig \<Rightarrow> string \<Rightarrow> trace \<Rightarrow> (string option \<times> string) step_end \<times> trace" where
  "cgroup_populate E K cfg path h =
     and_then (require_controllers K path (cgroup_limits cfg) h) (\<lambda>missing h1.
       case missing of
         Some err \<Rightarrow> cgroup_undo E K path err h1
       | None \<Rightarrow>
           (case write_limits E K path (cgroup_limits cfg) h1 of
              (Some err, h2) \<Rightarrow> cgroup_undo E K path err h2
            | (None, h2) \<Rightarrow> (Inr (None, path), h2)))"

definition sandbox_cgroup_path :: "string \<Rightarrow> int \<Rightarrow> int \<Rightarrow> string" where
  "sandbox_cgroup_path base self nonce =
     path_append (cgroup_directory base) (''myshell-'' @ to_string self @ ''-'' @ to_string nonce)"

definition cgroup_create ::
  "(trace \<Rightarrow> environ) \<Rightarrow> kernel \<Rightarrow> SandboxConfig \<Rightarrow> trace \<Rightarrow> (string option \<times> string) step_end \<times> trace" where
  "cgroup_create E K cfg h =
     (if \<not> has_memory_max cfg \<and> \<not> has_pids_max cfg \<and> \<not> has_cpu_percent cfg then (Inr (None, []), h)
      else let (mounted, h1) = cgroup_v2_mounted K h
        in if \<not> mounted then (Inr (Some ''cgroup v2 is not mounted'', []), h1)
           else case current_cgroup_path K h1 of
             (None, h2) \<Rightarrow> (Inr (Some ''could not determine current cgroup'', []), h2)
           | (Some base, h2) \<Rightarrow>
               (let (nonce, h3) = syscall K (Isolation Steady_clock) h2;
                    (self, h4) = syscall K Getpid h3;
                    path = sandbox_cgroup_path base (ret self) (ret nonce);
                    (made, h5) = syscall K (Isolation (Create_directory (c_str path))) h4
                in if ret made \<noteq> 0
                   then (Inr (Some (''create cgroup '' @ path @ '': '' @ strerror (E h5) (errno made)), []), h5)
                   else cgroup_populate E K cfg path h5))"

definition cgroup_attach :: "environ \<Rightarrow> kernel \<Rightarrow> string \<Rightarrow> int \<Rightarrow> trace \<Rightarrow> string option \<times> trace" where
  "cgroup_attach e K path pid h =
     (if path = [] then (None, h) else write_text_file e K (path_append path ''cgroup.procs'') (to_string pid) h)"

definition probe_cgroup_delegation :: "kernel \<Rightarrow> string \<Rightarrow> trace \<Rightarrow> bool \<times> trace" where
  "probe_cgroup_delegation K parent h =
     (let (nonce, h1) = syscall K (Isolation Steady_clock) h;
          (self, h2) = syscall K Getpid h1;
          probe = path_append parent (''.myshell-probe-'' @ to_string (ret self) @ ''-'' @ to_string (ret nonce));
          (made, h3) = syscall K (Isolation (Create_directory (c_str probe))) h2
      in if ret made \<noteq> 0 then (False, h3) else (True, emit (Isolation (Remove (c_str probe))) h3))"


section \<open>Namespaces\<close>

text \<open>The child of the probe ends; its parent learns whether \<open>unshare\<close> succeeded there.\<close>

definition probe_unshare_flags :: "kernel \<Rightarrow> clone_flag list \<Rightarrow> trace \<Rightarrow> (bool step_end \<times> trace) option" where
  "probe_unshare_flags K flags h =
     (let (r, h1) = syscall K (Fork 0) h; child = ret r
      in if child = -1 then Some (Inr False, h1)
         else if child = 0 then
           (let (u, h2) = syscall K (Isolation (Unshare flags)) h1
            in Some (Inl (Exited (if ret u = 0 then 0 else 1)), h2))
         else map_option (\<lambda>(r2, h2). (Inr (ret r2 \<noteq> -1 \<and> WIFEXITED (wstatus r2) \<and> WEXITSTATUS (wstatus r2) = 0), h2))
                (wait_eintr K child h1))"

definition probe_namespace_flag :: "kernel \<Rightarrow> clone_flag \<Rightarrow> trace \<Rightarrow> (bool step_end \<times> trace) option" where
  "probe_namespace_flag K flag h =
     then_step (probe_unshare_flags K [flag] h) (\<lambda>ok h1.
       if ok then Some (Inr True, h1)
       else if flag \<noteq> CLONE_NEWUSER then probe_unshare_flags K [CLONE_NEWUSER, flag] h1
       else Some (Inr False, h1))"

definition sandbox_message :: "int \<Rightarrow> string \<Rightarrow> trace \<Rightarrow> trace" where
  "sandbox_message error_fd msg h = emit (WriteAll error_fd (''sandbox: '' @ msg @ [newline])) h"

text \<open>A file of \<open>/proc/self\<close> that must be written, with its message otherwise.\<close>

definition write_self_file ::
  "(trace \<Rightarrow> environ) \<Rightarrow> kernel \<Rightarrow> int \<Rightarrow> string \<Rightarrow> string \<Rightarrow> trace \<Rightarrow> bool \<times> trace" where
  "write_self_file E K error_fd path value h =
     (case write_text_file (E h) K path value h of
        (Some err, h1) \<Rightarrow> (False, sandbox_message error_fd err h1)
      | (None, h1) \<Rightarrow> (True, h1))"

definition map_current_user_to_root ::
  "(trace \<Rightarrow> environ) \<Rightarrow> kernel \<Rightarrow> int \<Rightarrow> trace \<Rightarrow> bool step_end \<times> trace" where
  "map_current_user_to_root E K error_fd h =
     (let (uid, h1) = syscall K (Isolation Getuid) h;
          (gid, h2) = syscall K (Isolation Getgid) h1;
          (u, h3) = syscall K (Isolation (Unshare [CLONE_NEWUSER])) h2
      in if ret u = -1
         then (Inr False, sandbox_message error_fd (''unshare user namespace: '' @ strerror (E h3) (errno u)) h3)
         else and_then (fs_exists K ''/proc/self/setgroups'' h3) (\<lambda>there h4.
           let (ok1, h5) = (if there then write_self_file E K error_fd ''/proc/self/setgroups'' ''deny'' h4 else (True, h4))
           in if \<not> ok1 then (Inr False, h5)
              else let (ok2, h6) = write_self_file E K error_fd ''/proc/self/uid_map''
                         (''0 '' @ to_string (ret uid) @ '' 1'' @ [newline]) h5
                in if \<not> ok2 then (Inr False, h6)
                   else let (ok3, h7) = write_self_file E K error_fd ''/proc/self/gid_map''
                              (''0 '' @ to_string (ret gid) @ '' 1'' @ [newline]) h6
                     in if \<not> ok3 then (Inr False, h7)
                        else let (g, h8) = syscall K (Isolation (Setresgid 0 0 0)) h7
                          in if ret g = -1
                             then (Inr False, sandbox_message error_fd
                                     (''setresuid/setresgid: '' @ strerror (E h8) (errno g)) h8)
                             else let (u2, h9) = syscall K (Isolation (Setresuid 0 0 0)) h8
                               in if ret u2 = -1
                                  then (Inr False, sandbox_message error_fd
                                          (''setresuid/setresgid: '' @ strerror (E h9) (errno u2)) h9)
                                  else (Inr True, h9)))"

definition wait_status_to_exit_code :: "32 word \<Rightarrow> int" where
  "wait_status_to_exit_code status =
     (if WIFEXITED status then WEXITSTATUS status
      else if WIFSIGNALED status then 128 + WTERMSIG status
      else 1)"

definition exec_program :: "(trace \<Rightarrow> environ) \<Rightarrow> kernel \<Rightarrow> string list \<Rightarrow> int \<Rightarrow> trace \<Rightarrow> child_end \<times> trace" where
  "exec_program E K prog error_fd h =
     (let executable = find_executable (E h) (hd prog)
      in if executable = []
         then (Exited 127, emit (WriteAll error_fd (hd prog @ '': command not found'' @ [newline])) h)
         else let (r, h1) = execv K executable prog h
           in if ret r \<noteq> -1 then (Replaced executable prog, h1)
              else (Exited 126, sandbox_message error_fd (''exec '' @ hd prog @ '': '' @ strerror (E h1) (errno r)) h1))"

definition namespace_flags :: "SandboxConfig \<Rightarrow> clone_flag list" where
  "namespace_flags cfg =
     (if mount_namespace cfg then [CLONE_NEWNS] else []) @
     (if network_namespace cfg then [CLONE_NEWNET] else []) @
     (if uts_namespace cfg then [CLONE_NEWUTS] else []) @
     (if pid_namespace cfg then [CLONE_NEWPID] else [])"

text \<open>
  The calls that set up the namespaces, in the order of the code, each with the text of its message:
  \<open>unshare\<close>, making the mounts private, and the host name.
\<close>

definition setup_calls :: "SandboxConfig \<Rightarrow> (isolation_call \<times> string) list" where
  "setup_calls cfg =
     (if namespace_flags cfg \<noteq> [] then [(Unshare (namespace_flags cfg), ''unshare namespaces: '')] else []) @
     (if mount_namespace cfg then [(Mount None ''/'' None [MS_REC, MS_PRIVATE], ''make mounts private: '')] else []) @
     (if uts_namespace cfg \<and> hostname cfg \<noteq> [] then [(Sethostname (hostname cfg), ''sethostname: '')] else [])"

fun run_setup ::
  "(trace \<Rightarrow> environ) \<Rightarrow> kernel \<Rightarrow> int \<Rightarrow> (isolation_call \<times> string) list \<Rightarrow> trace \<Rightarrow> bool \<times> trace" where
  "run_setup E K error_fd [] h = (True, h)"
| "run_setup E K error_fd ((c, what) # rest) h =
     (let (r, h1) = syscall K (Isolation c) h
      in if ret r = -1 then (False, sandbox_message error_fd (what @ strerror (E h1) (errno r)) h1)
         else run_setup E K error_fd rest h1)"

text \<open>\<open>prctl (PR_SET_PDEATHSIG, SIGKILL)\<close> with the check that the supervisor is still the parent.\<close>

definition tie_to_supervisor :: "kernel \<Rightarrow> trace \<Rightarrow> unit step_end \<times> trace" where
  "tie_to_supervisor K h =
     (let (supervisor, h1) = syscall K Getppid h;
          (r, h2) = syscall K (Isolation (Prctl_pdeathsig SIGKILL)) h1
      in if ret r = -1 then (Inl (Exited 1), h2)
         else let (parent, h3) = syscall K Getppid h2
           in if ret parent \<noteq> ret supervisor then (Inl (Exited 1), h3) else (Inr (), h3))"

text \<open>The first process of the new PID namespace.\<close>

definition namespace_init ::
  "(trace \<Rightarrow> environ) \<Rightarrow> kernel \<Rightarrow> SandboxConfig \<Rightarrow> int \<Rightarrow> trace \<Rightarrow> child_end \<times> trace" where
  "namespace_init E K cfg error_fd h =
     (case tie_to_supervisor K h of
        (Inl c, h1) \<Rightarrow> (c, h1)
      | (Inr _, h1) \<Rightarrow>
          if mount_proc cfg then
            (if \<not> mount_namespace cfg
             then (Exited 2, sandbox_message error_fd ''--proc requires --mount (or --all)'' h1)
             else let (r, h2) = syscall K (Isolation (Mount (Some ''proc'') ''/proc'' (Some ''proc'')
                        [MS_NOSUID, MS_NODEV, MS_NOEXEC])) h1
               in if ret r = -1
                  then (Exited 1, sandbox_message error_fd (''mount /proc: '' @ strerror (E h2) (errno r)) h2)
                  else exec_program E K (sb_program_args cfg) error_fd h2)
          else exec_program E K (sb_program_args cfg) error_fd h1)"

text \<open>
  From the set-up on: the exit status to report (\<open>Inr\<close>), or the end of this process. A failing
  \<open>waitpid\<close> leaves the status 0 it was initialised with.
\<close>

definition start_program ::
  "(trace \<Rightarrow> environ) \<Rightarrow> kernel \<Rightarrow> SandboxConfig \<Rightarrow> int \<Rightarrow> trace \<Rightarrow> (int step_end \<times> trace) option" where
  "start_program E K cfg error_fd h =
     (if pid_namespace cfg then
        (let (r, h1) = syscall K (Fork 0) h; init_pid = ret r
         in if init_pid = -1
            then Some (Inr 1, sandbox_message error_fd (''fork pid-namespace init: '' @ strerror (E h1) (errno r)) h1)
            else if 0 < init_pid
            then map_option (\<lambda>(r2, h2). (Inr (wait_status_to_exit_code (if ret r2 = -1 then 0 else wstatus r2)), h2))
                   (wait_eintr K init_pid h1)
            else (case namespace_init E K cfg error_fd h1 of (c, h2) \<Rightarrow> Some (Inl c, h2)))
      else if mount_proc cfg then Some (Inr 2, sandbox_message error_fd ''--proc requires --pid'' h)
      else (case exec_program E K (sb_program_args cfg) error_fd h of (c, h1) \<Rightarrow> Some (Inl c, h1)))"

definition run_inside_namespaces ::
  "(trace \<Rightarrow> environ) \<Rightarrow> kernel \<Rightarrow> SandboxConfig \<Rightarrow> int \<Rightarrow> trace \<Rightarrow> (int step_end \<times> trace) option" where
  "run_inside_namespaces E K cfg error_fd h =
     (let flags = namespace_flags cfg
      in then_step (if flags = [] then Some (Inr True, h) else probe_unshare_flags K flags h) (\<lambda>direct h1.
         then_step (Some (if user_namespace cfg \<or> (flags \<noteq> [] \<and> \<not> direct)
                          then map_current_user_to_root E K error_fd h1 else (Inr True, h1))) (\<lambda>mapped h2.
           if \<not> mapped then Some (Inr 1, h2)
           else let (ok, h3) = run_setup E K error_fd (setup_calls cfg) h2
             in if \<not> ok then Some (Inr 1, h3) else start_program E K cfg error_fd h3)))"


section \<open>Capabilities\<close>

record IsolationCapabilities =
  linux_namespaces :: bool
  user_namespace_available :: bool
  pid_namespace_available :: bool
  mount_namespace_available :: bool
  network_namespace_available :: bool
  uts_namespace_available :: bool
  cgroup_v2 :: bool
  cgroup_writable :: bool
  cgroup_root :: string

definition no_capabilities :: IsolationCapabilities where
  "no_capabilities =
     \<lparr>linux_namespaces = False, user_namespace_available = False, pid_namespace_available = False,
      mount_namespace_available = False, network_namespace_available = False, uts_namespace_available = False,
      cgroup_v2 = False, cgroup_writable = False, cgroup_root = []\<rparr>"

definition detect_namespaces :: "kernel \<Rightarrow> trace \<Rightarrow> (IsolationCapabilities step_end \<times> trace) option" where
  "detect_namespaces K h =
     then_step (Some (fs_exists K ''/proc/self/ns'' h)) (\<lambda>there h0.
       if \<not> there then Some (Inr no_capabilities, h0)
       else then_step (probe_namespace_flag K CLONE_NEWUSER h0) (\<lambda>u h1.
            then_step (probe_namespace_flag K CLONE_NEWPID h1) (\<lambda>p h2.
            then_step (probe_namespace_flag K CLONE_NEWNS h2) (\<lambda>m h3.
            then_step (probe_namespace_flag K CLONE_NEWNET h3) (\<lambda>n h4.
            then_step (probe_namespace_flag K CLONE_NEWUTS h4) (\<lambda>t h5.
              Some (Inr (no_capabilities\<lparr>linux_namespaces := True, user_namespace_available := u,
                pid_namespace_available := p, mount_namespace_available := m, network_namespace_available := n,
                uts_namespace_available := t\<rparr>), h5)))))))"

definition detect_cgroup :: "kernel \<Rightarrow> IsolationCapabilities \<Rightarrow> trace \<Rightarrow> IsolationCapabilities \<times> trace" where
  "detect_cgroup K caps h =
     (let (mounted, h1) = cgroup_v2_mounted K h
      in if \<not> mounted then (caps, h1)
         else let caps1 = caps\<lparr>cgroup_v2 := True, cgroup_root := cgroup_mount_root\<rparr>
           in case current_cgroup_path K h1 of
                (None, h2) \<Rightarrow> (caps1, h2)
              | (Some current, h2) \<Rightarrow>
                  (let (ok, h3) = probe_cgroup_delegation K (cgroup_directory current) h2
                   in (caps1\<lparr>cgroup_writable := ok\<rparr>, h3)))"

definition detect_isolation_capabilities ::
  "kernel \<Rightarrow> trace \<Rightarrow> (IsolationCapabilities step_end \<times> trace) option" where
  "detect_isolation_capabilities K h =
     then_step (detect_namespaces K h) (\<lambda>caps h1. case detect_cgroup K caps h1 of (c, h2) \<Rightarrow> Some (Inr c, h2))"

definition status_line :: "string \<Rightarrow> bool \<Rightarrow> string \<Rightarrow> string" where
  "status_line label flag yes = label @ '': '' @ (if flag then yes else ''unavailable'') @ [newline]"

definition render_capabilities :: "IsolationCapabilities \<Rightarrow> string" where
  "render_capabilities caps =
     ''Isolation capabilities'' @ [newline] @
     status_line ''linux-namespaces'' (linux_namespaces caps) ''kernel support'' @
     status_line ''user-namespace'' (user_namespace_available caps) ''permitted'' @
     status_line ''pid-namespace'' (pid_namespace_available caps) ''permitted'' @
     status_line ''mount-namespace'' (mount_namespace_available caps) ''permitted'' @
     status_line ''network-namespace'' (network_namespace_available caps) ''permitted'' @
     status_line ''uts-namespace'' (uts_namespace_available caps) ''permitted'' @
     status_line ''cgroup-v2'' (cgroup_v2 caps) ''mounted'' @
     (if cgroup_v2 caps
      then status_line ''cgroup-write'' (cgroup_writable caps) ''available'' @
           ''cgroup-root: '' @ cgroup_root caps @ [newline]
      else [])"

definition render_isolation_status :: "kernel \<Rightarrow> trace \<Rightarrow> (string step_end \<times> trace) option" where
  "render_isolation_status K h =
     then_step (detect_isolation_capabilities K h) (\<lambda>caps h1. Some (Inr (render_capabilities caps), h1))"

section \<open>Supervisor and worker\<close>

partial_function (option) sync_read :: "kernel \<Rightarrow> int \<Rightarrow> trace \<Rightarrow> (int \<times> trace) option" where
  "sync_read K fd h =
     (let (r, h1) = syscall K (Read fd 1) h
      in if ret r = -1 \<and> errno r = EINTR then sync_read K fd h1 else Some (ret r, h1))"

declare sync_read.simps [code]

definition sandbox_worker ::
  "(trace \<Rightarrow> environ) \<Rightarrow> kernel \<Rightarrow> SandboxConfig \<Rightarrow> int \<Rightarrow> int \<Rightarrow> int \<Rightarrow> trace \<Rightarrow> (child_end \<times> trace) option" where
  "sandbox_worker E K cfg error_fd ready_read ready_write h =
     (case tie_to_supervisor K h of
        (Inl c, h1) \<Rightarrow> Some (c, h1)
      | (Inr _, h1) \<Rightarrow>
          Option.bind (sync_read K ready_read (close_fd ready_write h1)) (\<lambda>(n, h2).
            let h3 = close_fd ready_read h2
            in if n \<noteq> 1 then Some (Exited 1, h3)
               else map_option (\<lambda>(e, h4). (case e of Inl c \<Rightarrow> c | Inr code \<Rightarrow> Exited code, h4))
                      (run_inside_namespaces E K cfg error_fd h3)))"

text \<open>Returning from the supervisor destroys the cgroup scope.\<close>

definition leave_scope :: "(trace \<Rightarrow> environ) \<Rightarrow> kernel \<Rightarrow> string \<Rightarrow> int \<Rightarrow> trace \<Rightarrow> child_end \<times> trace" where
  "leave_scope E K path code h =
     (case cgroup_cleanup E K path h of (Inl c, h1) \<Rightarrow> (c, h1) | (Inr _, h1) \<Rightarrow> (Exited code, h1))"

definition supervise ::
  "(trace \<Rightarrow> environ) \<Rightarrow> kernel \<Rightarrow> string \<Rightarrow> int \<Rightarrow> int \<Rightarrow> int \<Rightarrow> int \<Rightarrow> trace \<Rightarrow> (child_end \<times> trace) option" where
  "supervise E K path worker error_fd ready_read ready_write h =
     (let h1 = close_fd ready_read h
      in case cgroup_attach (E h1) K path worker h1 of
           (Some err, h2) \<Rightarrow>
             Some (leave_scope E K path 1 (emit (Waitpid worker []) (close_fd ready_write
               (emit (Kill worker SIGKILL) (sandbox_message error_fd err h2)))))
         | (None, h2) \<Rightarrow>
             (let (r, h3) = syscall K (Write ready_write [CHR 0x01]) h2;
                  h4 = (if ret r \<noteq> 1
                        then emit (Kill worker SIGKILL) (sandbox_message error_fd ''failed to release sandbox worker'' h3)
                        else h3)
              in map_option (\<lambda>(r2, h5).
                   if ret r2 = -1
                   then leave_scope E K path 1 (sandbox_message error_fd (''waitpid: '' @ strerror (E h5) (errno r2)) h5)
                   else leave_scope E K path (wait_status_to_exit_code (wstatus r2)) h5)
                 (wait_eintr K worker (close_fd ready_write h4))))"

definition run_sandbox ::
  "(trace \<Rightarrow> environ) \<Rightarrow> kernel \<Rightarrow> SandboxConfig \<Rightarrow> int \<Rightarrow> trace \<Rightarrow> (child_end \<times> trace) option" where
  "run_sandbox E K cfg error_fd h =
     (case cgroup_create E K cfg h of
        (Inl c, h1) \<Rightarrow> Some (c, h1)
      | (Inr (Some err, path), h1) \<Rightarrow> Some (leave_scope E K path 1 (sandbox_message error_fd err h1))
      | (Inr (None, path), h1) \<Rightarrow>
          (let (p, h2) = syscall K MkPipe h1
           in if ret p = -1
              then Some (leave_scope E K path 1 (sandbox_message error_fd (''pipe: '' @ strerror (E h2) (errno p)) h2))
              else let ready_read = ret p; ready_write = ret2 p; (r, h3) = syscall K (Fork 0) h2
                in if ret r = -1
                   then Some (leave_scope E K path 1 (close_fd ready_read (close_fd ready_write
                          (sandbox_message error_fd (''fork: '' @ strerror (E h3) (errno r)) h3))))
                   else if ret r = 0 then sandbox_worker E K cfg error_fd ready_read ready_write h3
                   else supervise E K path (ret r) error_fd ready_read ready_write h3))"

definition execute_sandbox_child ::
  "(trace \<Rightarrow> environ) \<Rightarrow> kernel \<Rightarrow> Command \<Rightarrow> int \<Rightarrow> int \<Rightarrow> trace \<Rightarrow> (child_end \<times> trace) option" where
  "execute_sandbox_child E K command output_fd error_fd h =
     (case parse_sandbox command of
        Inl err \<Rightarrow> Some (Exited 2, emit (WriteAll error_fd (err @ [newline])) h)
      | Inr cfg \<Rightarrow>
          if sb_show_help cfg then Some (Exited 0, emit (WriteAll output_fd sandbox_usage) h)
          else if sb_show_status cfg then
            map_option (\<lambda>(e, h1). case e of Inl c \<Rightarrow> (c, h1) | Inr shown \<Rightarrow> (Exited 0, emit (WriteAll output_fd shown) h1))
              (render_isolation_status K h)
          else run_sandbox E K cfg error_fd h)"

end
