(* ===== verification/Trace.thy ===== *)
theory Trace
  imports Resource_Control
begin

text \<open>
  \<open>src/trace.cpp\<close>: the options of \<open>trace\<close>, the names of the system calls, the rendering of arguments and
  results, the event loop of the tracer on \<open>ptrace\<close>, and the summary. The numbers of the calls are
  those of the x86-64 interface.
\<close>

section \<open>Names of system calls\<close>

text \<open>The cases of the switch in \<open>syscall_name\<close>, in the order of the code.\<close>

definition syscall_names_1 :: "(int \<times> string) list" where
  "syscall_names_1 =
     [(0, ''read''), (1, ''write''), (2, ''open''), (3, ''close''), (4, ''stat''), (5, ''fstat''),
      (262, ''newfstatat''), (6, ''lstat''), (7, ''poll''), (8, ''lseek''), (9, ''mmap''), (10, ''mprotect''),
      (11, ''munmap''), (12, ''brk''), (13, ''rt_sigaction''), (14, ''rt_sigprocmask''), (15, ''rt_sigreturn''),
      (16, ''ioctl''), (17, ''pread64''), (18, ''pwrite64''), (19, ''readv''), (20, ''writev''),
      (21, ''access''), (22, ''pipe''), (23, ''select''), (24, ''sched_yield''), (25, ''mremap''),
      (26, ''msync''), (27, ''mincore''), (28, ''madvise''), (29, ''shmget''), (30, ''shmat''), (31, ''shmctl''),
      (32, ''dup''), (33, ''dup2''), (34, ''pause''), (35, ''nanosleep''), (36, ''getitimer''), (37, ''alarm''),
      (38, ''setitimer''), (39, ''getpid''), (40, ''sendfile''), (41, ''socket''), (42, ''connect''),
      (43, ''accept''), (44, ''sendto''), (45, ''recvfrom''), (46, ''sendmsg''), (47, ''recvmsg''),
      (48, ''shutdown'')]"

definition syscall_names_2 :: "(int \<times> string) list" where
  "syscall_names_2 =
     [(49, ''bind''), (50, ''listen''), (51, ''getsockname''), (52, ''getpeername''), (53, ''socketpair''),
      (54, ''setsockopt''), (55, ''getsockopt''), (56, ''clone''), (57, ''fork''), (58, ''vfork''),
      (59, ''execve''), (60, ''exit''), (61, ''wait4''), (62, ''kill''), (63, ''uname''), (72, ''fcntl''),
      (74, ''fsync''), (75, ''fdatasync''), (76, ''truncate''), (77, ''ftruncate''), (78, ''getdents''),
      (79, ''getcwd''), (80, ''chdir''), (81, ''fchdir''), (82, ''rename''), (83, ''mkdir''), (84, ''rmdir''),
      (85, ''creat''), (86, ''link''), (87, ''unlink''), (88, ''symlink''), (89, ''readlink''), (90, ''chmod''),
      (91, ''fchmod''), (92, ''chown''), (93, ''fchown''), (94, ''lchown''), (95, ''umask''),
      (96, ''gettimeofday''), (97, ''getrlimit''), (98, ''getrusage''), (99, ''sysinfo''), (100, ''times''),
      (101, ''ptrace''), (102, ''getuid''), (103, ''syslog''), (104, ''getgid''), (105, ''setuid''),
      (106, ''setgid''), (107, ''geteuid'')]"

definition syscall_names_3 :: "(int \<times> string) list" where
  "syscall_names_3 =
     [(108, ''getegid''), (109, ''setpgid''), (110, ''getppid''), (111, ''getpgrp''), (112, ''setsid''),
      (124, ''getsid''), (125, ''capget''), (126, ''capset''), (158, ''arch_prctl''), (160, ''setrlimit''),
      (161, ''chroot''), (162, ''sync''), (165, ''mount''), (166, ''umount2''), (186, ''gettid''),
      (202, ''futex''), (203, ''sched_setaffinity''), (204, ''sched_getaffinity''), (231, ''exit_group''),
      (232, ''epoll_wait''), (233, ''epoll_ctl''), (234, ''tgkill''), (257, ''openat''), (258, ''mkdirat''),
      (263, ''unlinkat''), (264, ''renameat''), (267, ''readlinkat''), (268, ''fchmodat''), (269, ''faccessat''),
      (270, ''pselect6''), (271, ''ppoll''), (272, ''unshare''), (273, ''set_robust_list''),
      (218, ''set_tid_address''), (274, ''get_robust_list''), (275, ''splice''), (276, ''tee''),
      (277, ''sync_file_range''), (278, ''vmsplice''), (280, ''utimensat''), (281, ''epoll_pwait''),
      (283, ''timerfd_create''), (284, ''eventfd''), (285, ''fallocate''), (286, ''timerfd_settime''),
      (287, ''timerfd_gettime''), (288, ''accept4''), (290, ''eventfd2''), (291, ''epoll_create1''),
      (292, ''dup3'')]"

definition syscall_names_4 :: "(int \<times> string) list" where
  "syscall_names_4 =
     [(293, ''pipe2''), (294, ''inotify_init1''), (295, ''preadv''), (296, ''pwritev''), (302, ''prlimit64''),
      (318, ''getrandom''), (319, ''memfd_create''), (322, ''execveat''), (332, ''statx''), (334, ''rseq''),
      (435, ''clone3''), (436, ''close_range''), (437, ''openat2''), (439, ''faccessat2'')]"

definition syscall_names :: "(int \<times> string) list" where
  "syscall_names = syscall_names_1 @ syscall_names_2 @ syscall_names_3 @ syscall_names_4"

definition syscall_name :: "int \<Rightarrow> string" where
  "syscall_name nr =
     (case map_of syscall_names nr of Some name \<Rightarrow> name | None \<Rightarrow> ''syscall_'' @ to_string nr)"


section \<open>Memory of the tracee\<close>

unbundle bit_operations_syntax

text \<open>The bytes of a word in memory order (little endian).\<close>

definition word_bytes :: "64 word \<Rightarrow> char list" where
  "word_bytes w = map (\<lambda>i. char_of (unat (drop_bit (8 * i) w AND 0xFF))) [0..<8]"

definition render_byte :: "char \<Rightarrow> string" where
  "render_byte c =
     (if c = newline then [bslash, CHR ''n'']
      else if c = CHR 0x0D then [bslash, CHR ''r'']
      else if c = tab then [bslash, CHR ''t'']
      else if c = dquote then [bslash, dquote]
      else if c = bslash then [bslash, bslash]
      else if 0x20 \<le> (of_char c :: nat) \<and> (of_char c :: nat) < 0x7F then [c]
      else ''?'')"

text \<open>The loop over the bytes of one word: whether a NUL ended the string, and the text so far.\<close>

fun render_bytes :: "nat \<Rightarrow> char list \<Rightarrow> string \<Rightarrow> bool \<times> string" where
  "render_bytes limit [] value = (False, value)"
| "render_bytes limit (b # bs) value =
     (if limit \<le> length value then (False, value)
      else if b = nul then (True, value)
      else render_bytes limit bs (value @ render_byte b))"

lemma render_byte_nonempty [simp]: "render_byte c \<noteq> []"
  by (simp add: render_byte_def)

lemma render_bytes_grows: "length value \<le> length (snd (render_bytes limit bs value))"
proof (induction bs arbitrary: "value")
  case (Cons b bs)
  from Cons [of "value @ render_byte b"] show ?case by simp
qed simp

lemma render_bytes_progress:
  assumes "render_bytes limit (word_bytes w) value = (False, value')" "length value < limit"
  shows "length value < length value'"
proof -
  obtain b bs where b: "word_bytes w = b # bs" by (cases "word_bytes w") (auto simp: word_bytes_def)
  have "length value < length (value @ render_byte b)" by (cases "render_byte b") simp_all
  also have "\<dots> \<le> length (snd (render_bytes limit bs (value @ render_byte b)))" by (rule render_bytes_grows)
  finally show ?thesis using assms by (auto simp: b split: if_splits)
qed

text \<open>
  The reading loop. The address advances by the length of the rendered text, in which an escaped
  byte counts twice. The result is the text, empty when memory cannot be read.
\<close>

function tracee_string_loop ::
  "kernel \<Rightarrow> int \<Rightarrow> 64 word \<Rightarrow> nat \<Rightarrow> string \<Rightarrow> trace \<Rightarrow> string \<times> trace" where
  "tracee_string_loop K pid address limit value h =
     (if limit \<le> length value then (value @ ''...'', h)
      else let (r, h1) = syscall K (Ptrace (PTRACE_PEEKDATA (address + of_nat (length value))) pid) h
        in if peeked r = -1 \<and> errno r \<noteq> 0 then ([], h1)
           else case render_bytes limit (word_bytes (peeked r)) value of
                  (True, value') \<Rightarrow> (value', h1)
                | (False, value') \<Rightarrow> tracee_string_loop K pid address limit value' h1)"
  by pat_completeness auto
termination
  by (relation "measure (\<lambda>(K, pid, address, limit, value, h). limit - length value)")
    (auto dest!: render_bytes_progress [OF sym])

declare tracee_string_loop.simps [simp del]

definition read_tracee_string :: "kernel \<Rightarrow> int \<Rightarrow> 64 word \<Rightarrow> trace \<Rightarrow> string \<times> trace" where
  "read_tracee_string K pid address h =
     (if address = 0 then (''NULL'', h) else tracee_string_loop K pid address 160 [] h)"

definition hex_digit :: "nat \<Rightarrow> char" where
  "hex_digit d = (if d < 10 then char_of (48 + d) else char_of (87 + d))"

function hex_digits :: "int \<Rightarrow> string" where
  "hex_digits n = (if n < 16 then [hex_digit (nat n)] else hex_digits (n div 16) @ [hex_digit (nat (n mod 16))])"
  by pat_completeness auto
termination by (relation "measure nat") auto

declare hex_digits.simps [simp del]

definition hex_arg :: "64 word \<Rightarrow> string" where
  "hex_arg v = ''0x'' @ hex_digits (uint v)"

definition quoted_tracee_string :: "kernel \<Rightarrow> int \<Rightarrow> 64 word \<Rightarrow> trace \<Rightarrow> string \<times> trace" where
  "quoted_tracee_string K pid address h =
     (let (v, h1) = read_tracee_string K pid address h
      in (if v = [] \<and> address \<noteq> 0 then hex_arg address
          else if address = 0 then ''NULL''
          else [dquote] @ v @ [dquote], h1))"


section \<open>Arguments and results\<close>

record SyscallEntry =
  se_number :: int
  se_args :: "64 word list"
  rendered_args :: string

record SyscallStats =
  stat_calls :: "64 word"
  stat_errors :: "64 word"

definition arg_at :: "64 word list \<Rightarrow> nat \<Rightarrow> 64 word" where
  "arg_at a i = (if i < length a then a ! i else 0)"

fun join_comma :: "string list \<Rightarrow> string" where
  "join_comma [] = []"
| "join_comma [s] = s"
| "join_comma (s # ss) = s @ '', '' @ join_comma ss"

definition format_arguments :: "kernel \<Rightarrow> int \<Rightarrow> int \<Rightarrow> 64 word list \<Rightarrow> trace \<Rightarrow> string \<times> trace" where
  "format_arguments K pid number a h =
     (let hex = (\<lambda>i. hex_arg (arg_at a i)); dec = (\<lambda>i. to_string (uint (arg_at a i)));
          fd = to_string (int32_cast (uint (arg_at a 0)));
          quoted = (\<lambda>i. quoted_tracee_string K pid (arg_at a i) h)
      in if number = 59 \<or> number = 2 then (let (q, h1) = quoted 0 in (join_comma [q, hex 1, hex 2], h1))
         else if number = 257 \<or> number = 262 then (let (q, h1) = quoted 1 in (join_comma [fd, q, hex 2, hex 3], h1))
         else if number = 21 \<or> number = 83 then (let (q, h1) = quoted 0 in (join_comma [q, hex 1], h1))
         else if number = 80 \<or> number = 87 then quoted 0
         else if number = 89 then (let (q, h1) = quoted 0 in (join_comma [q, hex 1, dec 2], h1))
         else if number = 1 \<or> number = 0 then (join_comma [dec 0, hex 1, dec 2], h)
         else if number = 3 then (dec 0, h)
         else (join_comma (map hex [0, 1, 2, 3, 4, 5]), h))"

definition is_error_return :: "int \<Rightarrow> bool" where
  "is_error_return v \<longleftrightarrow> v < 0 \<and> -4095 \<le> v"

definition format_return :: "environ \<Rightarrow> int \<Rightarrow> string" where
  "format_return e v =
     (if \<not> is_error_return v then to_string v
      else ''-1 '' @ strerror e (- v) @ '' (errno '' @ to_string (- v) @ '')'')"


section \<open>Statistics\<close>

text \<open>\<open>std::map<long, SyscallStats>\<close> in the order of its keys; \<open>record_call\<close> is the update of \<open>stats[nr]\<close>.\<close>

type_synonym syscall_map = "(int \<times> SyscallStats) list"

definition count_call :: "bool \<Rightarrow> SyscallStats \<Rightarrow> SyscallStats" where
  "count_call err s = s\<lparr>stat_calls := stat_calls s + 1, stat_errors := (if err then stat_errors s + 1 else stat_errors s)\<rparr>"

definition no_calls :: SyscallStats where
  "no_calls = \<lparr>stat_calls = 0, stat_errors = 0\<rparr>"

fun record_call :: "int \<Rightarrow> bool \<Rightarrow> syscall_map \<Rightarrow> syscall_map" where
  "record_call nr err [] = [(nr, count_call err no_calls)]"
| "record_call nr err ((k, s) # rest) =
     (if k = nr then (k, count_call err s) # rest
      else if nr < k then (nr, count_call err no_calls) # (k, s) # rest
      else (k, s) # record_call nr err rest)"

text \<open>The order of the rows: more calls first, then by name.\<close>

definition row_before :: "int \<times> SyscallStats \<Rightarrow> int \<times> SyscallStats \<Rightarrow> bool" where
  "row_before a b =
     (if stat_calls (snd a) \<noteq> stat_calls (snd b) then stat_calls (snd b) < stat_calls (snd a)
      else str_less (syscall_name (fst a)) (syscall_name (fst b)))"

fun insert_row :: "int \<times> SyscallStats \<Rightarrow> syscall_map \<Rightarrow> syscall_map" where
  "insert_row a [] = [a]"
| "insert_row a (b # rest) = (if row_before b a then b # insert_row a rest else a # b # rest)"

definition sort_rows :: "syscall_map \<Rightarrow> syscall_map" where
  "sort_rows rows = foldr insert_row rows []"

text \<open>\<open>std::left << std::setw (k)\<close> and \<open>std::right << std::setw (k)\<close>.\<close>

definition pad_right :: "nat \<Rightarrow> string \<Rightarrow> string" where
  "pad_right k s = s @ replicate (k - length s) blank"

definition pad_left :: "nat \<Rightarrow> string \<Rightarrow> string" where
  "pad_left k s = replicate (k - length s) blank @ s"

definition summary_row :: "string \<Rightarrow> string \<Rightarrow> string \<Rightarrow> string" where
  "summary_row a b c = pad_right 22 a @ pad_left 8 b @ pad_left 8 c @ [newline]"

definition render_summary :: "syscall_map \<Rightarrow> string" where
  "render_summary stats =
     (let number = (\<lambda>w :: 64 word. to_string (uint w));
          rule = ''------------------------------'' @ [newline]
      in ''Syscall summary'' @ [newline] @ rule @ summary_row ''syscall'' ''calls'' ''errors'' @
         concat (map (\<lambda>(nr, s). summary_row (syscall_name nr) (number (stat_calls s)) (number (stat_errors s)))
           (sort_rows stats)) @ rule @
         summary_row ''total'' (number (sum_list (map (stat_calls \<circ> snd) stats)))
           (number (sum_list (map (stat_errors \<circ> snd) stats))))"

section \<open>The tracer\<close>

record TraceConfig =
  tr_show_help :: bool
  tr_summary :: bool
  tr_program_args :: "string list"

definition trace_message :: "int \<Rightarrow> string \<Rightarrow> trace \<Rightarrow> trace" where
  "trace_message error_fd msg h = emit (WriteAll error_fd (''trace: '' @ msg @ [newline])) h"

definition exec_tracee :: "(trace \<Rightarrow> environ) \<Rightarrow> kernel \<Rightarrow> string list \<Rightarrow> int \<Rightarrow> trace \<Rightarrow> child_end \<times> trace" where
  "exec_tracee E K prog error_fd h =
     (let (t, h1) = syscall K (Ptrace PTRACE_TRACEME 0) h
      in if ret t = -1 then (Exited 1, trace_message error_fd (''PTRACE_TRACEME: '' @ strerror (E h1) (errno t)) h1)
         else let (s, h2) = syscall K (Raise SIGSTOP) h1
           in if ret s \<noteq> 0 then (Exited 1, trace_message error_fd ''failed to stop tracee before exec'' h2)
              else let executable = find_executable (E h2) (hd prog)
                in if executable = []
                   then (Exited 127, emit (WriteAll error_fd (hd prog @ '': command not found'' @ [newline])) h2)
                   else let (r, h3) = execv K executable prog h2
                     in if ret r \<noteq> -1 then (Replaced executable prog, h3)
                        else (Exited 126, trace_message error_fd
                                (''exec '' @ hd prog @ '': '' @ strerror (E h3) (errno r)) h3))"

definition trace_exit_code :: "32 word \<Rightarrow> int" where
  "trace_exit_code status =
     (if WIFEXITED status then WEXITSTATUS status
      else if WIFSIGNALED status then 128 + WTERMSIG status
      else 1)"

abbreviation (input) SIGTRAP :: int where "SIGTRAP \<equiv> 5"
abbreviation (input) SYSCALL_STOP :: int where "SYSCALL_STOP \<equiv> 0x85"
abbreviation (input) INFO_ENTRY :: int where "INFO_ENTRY \<equiv> 1"
abbreviation (input) INFO_EXIT :: int where "INFO_EXIT \<equiv> 2"

text \<open>The state of the event loop: the call in progress and the statistics.\<close>

record trace_state =
  ts_current :: "SyscallEntry option"
  ts_stats :: syscall_map

text \<open>
  A system-call stop, from the answer of \<open>PTRACE_GET_SYSCALL_INFO\<close> on: an entry is remembered with its
  arguments, an exit is counted and, without \<open>--summary\<close>, reported.
\<close>

definition syscall_stop ::
  "(trace \<Rightarrow> environ) \<Rightarrow> kernel \<Rightarrow> bool \<Rightarrow> int \<Rightarrow> int \<Rightarrow> reply \<Rightarrow> trace_state \<Rightarrow> trace \<Rightarrow> trace_state \<times> trace" where
  "syscall_stop E K summary child error_fd r ts h =
     (if info_op r = INFO_ENTRY then
        (let nr = sint (info_nr r); (shown, h1) = format_arguments K child nr (info_args r) h
         in (ts\<lparr>ts_current := Some \<lparr>se_number = nr, se_args = info_args r, rendered_args = shown\<rparr>\<rparr>, h1))
      else case ts_current ts of
        Some entry \<Rightarrow>
          if info_op r = INFO_EXIT then
            (let rval = sint (info_rval r)
             in (\<lparr>ts_current = None, ts_stats = record_call (se_number entry) (is_error_return rval) (ts_stats ts)\<rparr>,
                 if summary then h
                 else emit (WriteAll error_fd (syscall_name (se_number entry) @ ''('' @ rendered_args entry @ '') = '' @
                        format_return (E h) rval @ [newline])) h))
          else (ts, h)
      | None \<Rightarrow> (ts, h))"

definition write_summary :: "bool \<Rightarrow> int \<Rightarrow> syscall_map \<Rightarrow> trace \<Rightarrow> trace" where
  "write_summary summary error_fd stats h =
     (if summary then emit (WriteAll error_fd (render_summary stats)) h else h)"

text \<open>
  The event loop. It returns the exit status to report, with the statistics collected; \<open>sig\<close> is the
  signal to deliver at the next resumption.
\<close>

partial_function (option) trace_loop ::
  "(trace \<Rightarrow> environ) \<Rightarrow> kernel \<Rightarrow> bool \<Rightarrow> int \<Rightarrow> int \<Rightarrow> int \<Rightarrow> trace_state \<Rightarrow> trace \<Rightarrow> (int \<times> syscall_map \<times> trace) option" where
  "trace_loop E K summary child error_fd sig ts h =
     (let (r, h1) = syscall K (Ptrace (PTRACE_SYSCALL sig) child) h
      in if ret r = -1 then
           (if errno r = ESRCH then Some (1, ts_stats ts, write_summary summary error_fd (ts_stats ts) h1)
            else Some (1, ts_stats ts, trace_message error_fd (''PTRACE_SYSCALL: '' @ strerror (E h1) (errno r)) h1))
         else Option.bind (wait_eintr K child h1) (\<lambda>(w, h2).
           if ret w = -1 then Some (1, ts_stats ts, trace_message error_fd (''waitpid: '' @ strerror (E h2) (errno w)) h2)
           else if WIFEXITED (wstatus w) \<or> WIFSIGNALED (wstatus w)
           then Some (trace_exit_code (wstatus w), ts_stats ts, write_summary summary error_fd (ts_stats ts) h2)
           else if \<not> WIFSTOPPED (wstatus w) then trace_loop E K summary child error_fd 0 ts h2
           else if WSTOPSIG (wstatus w) = SYSCALL_STOP then
             (let (i, h3) = syscall K (Ptrace PTRACE_GET_SYSCALL_INFO child) h2
              in if ret i = -1
                 then Some (1, ts_stats ts, trace_message error_fd (''PTRACE_GET_SYSCALL_INFO: '' @ strerror (E h3) (errno i)) h3)
                 else let (ts', h4) = syscall_stop E K summary child error_fd i ts h3
                   in trace_loop E K summary child error_fd 0 ts' h4)
           else if WSTOPSIG (wstatus w) = SIGTRAP \<or> WSTOPSIG (wstatus w) = SIGSTOP
           then trace_loop E K summary child error_fd 0 ts h2
           else trace_loop E K summary child error_fd (WSTOPSIG (wstatus w)) ts h2))"

declare trace_loop.simps [code]

definition trace_process ::
  "(trace \<Rightarrow> environ) \<Rightarrow> kernel \<Rightarrow> TraceConfig \<Rightarrow> int \<Rightarrow> trace \<Rightarrow> (child_end \<times> trace) option" where
  "trace_process E K cfg error_fd h =
     (let (r, h1) = syscall K (Fork 0) h; child = ret r
      in if child = -1 then Some (Exited 1, trace_message error_fd (''fork: '' @ strerror (E h1) (errno r)) h1)
         else if child = 0 then Some (exec_tracee E K (tr_program_args cfg) error_fd h1)
         else Option.bind (wait_eintr K child h1) (\<lambda>(w, h2).
           if ret w = -1 then Some (Exited 1, trace_message error_fd (''waitpid: '' @ strerror (E h2) (errno w)) h2)
           else if \<not> WIFSTOPPED (wstatus w) then Some (Exited (trace_exit_code (wstatus w)), h2)
           else let (s, h3) = syscall K (Ptrace PTRACE_SETOPTIONS child) h2
             in if ret s = -1
                then Some (Exited 1, emit (Waitpid child []) (emit (Kill child SIGKILL)
                       (trace_message error_fd (''PTRACE_SETOPTIONS: '' @ strerror (E h3) (errno s)) h3)))
                else map_option (\<lambda>(code, stats, h4). (Exited code, h4))
                       (trace_loop E K (tr_summary cfg) child error_fd 0 \<lparr>ts_current = None, ts_stats = []\<rparr> h3)))"


section \<open>Options\<close>

text \<open>The option loop before the separator; afterwards every argument belongs to the program.\<close>

fun trace_options :: "TraceConfig \<Rightarrow> string list \<Rightarrow> string + (TraceConfig \<times> bool)" where
  "trace_options cfg [] = Inr (cfg, False)"
| "trace_options cfg (arg # rest) =
     (if arg = ''--help'' \<or> arg = ''-h'' then trace_options (cfg\<lparr>tr_show_help := True\<rparr>) rest
      else if arg = ''--summary'' \<or> arg = ''-c'' then trace_options (cfg\<lparr>tr_summary := True\<rparr>) rest
      else if arg = ''--'' then Inr (cfg\<lparr>tr_program_args := rest\<rparr>, True)
      else Inl (''trace: unknown option or missing '' @ [squote] @ ''--'' @ [squote] @ '': '' @ arg))"

definition parse_trace :: "Command \<Rightarrow> string + TraceConfig" where
  "parse_trace command =
     (if args command = [] \<or> hd (args command) \<noteq> ''trace'' then Inl ''trace: internal parse error''
      else case trace_options \<lparr>tr_show_help = False, tr_summary = False, tr_program_args = []\<rparr> (tl (args command)) of
        Inl e \<Rightarrow> Inl e
      | Inr (cfg, separator) \<Rightarrow>
          if tr_show_help cfg \<and> tr_program_args cfg = [] then Inr cfg
          else if \<not> separator then Inl (''trace: expected '' @ [squote] @ ''--'' @ [squote] @ '' before program'')
          else if tr_program_args cfg = [] then Inl (''trace: missing program after '' @ [squote] @ ''--'' @ [squote])
          else Inr cfg)"

definition trace_usage :: string where
  "trace_usage =
     ''usage: trace [--summary|-c] -- PROGRAM [ARGS...]'' @ [newline] @
     ''       trace --help'' @ [newline, newline] @
     ''Trace PROGRAM system calls with Linux ptrace. Live traces are written'' @ [newline] @
     ''to stderr so PROGRAM stdout remains usable in pipelines. --summary'' @ [newline] @
     ''prints per-syscall call/error counts when the program exits.'' @ [newline]"

definition execute_trace_child ::
  "(trace \<Rightarrow> environ) \<Rightarrow> kernel \<Rightarrow> Command \<Rightarrow> int \<Rightarrow> int \<Rightarrow> trace \<Rightarrow> (child_end \<times> trace) option" where
  "execute_trace_child E K command output_fd error_fd h =
     (case parse_trace command of
        Inl err \<Rightarrow> Some (Exited 2, emit (WriteAll error_fd (err @ [newline] @ trace_usage)) h)
      | Inr cfg \<Rightarrow>
          if tr_show_help cfg then Some (Exited 0, emit (WriteAll output_fd trace_usage) h)
          else trace_process E K cfg error_fd h)"

end
