(* ===== verification/Builtins.thy ===== *)
theory Builtins
  imports Resource_Control History Process_Info Sandbox Trace
begin

text \<open>
  \<open>src/builtins.cpp\<close>: the built-in commands and their dispatcher. The kernel, the environment (which may
  change with every call) and Readline are arguments, collected in a \<open>world\<close>.
\<close>

section \<open>The world of the shell\<close>

record 'r world =
  sys :: kernel
  env :: "trace \<Rightarrow> environ"
  readline :: "'r readline_api"

datatype BuiltinContext = ParentShell | ChildProcess

record BuiltinResult =
  handled :: bool
  b_exit_requested :: bool
  b_exit_code :: int
  b_status :: int

definition result :: "bool \<Rightarrow> int \<Rightarrow> int \<Rightarrow> BuiltinResult" where
  "result exit_requested exit_code status =
     \<lparr>handled = True, b_exit_requested = exit_requested, b_exit_code = exit_code, b_status = status\<rparr>"

definition not_handled :: BuiltinResult where
  "not_handled = \<lparr>handled = False, b_exit_requested = False, b_exit_code = 0, b_status = 0\<rparr>"

abbreviation (input) ok_result :: BuiltinResult where "ok_result \<equiv> result False 0 0"


section \<open>Built-ins\<close>

fun join_blank :: "string list \<Rightarrow> string" where
  "join_blank [] = []"
| "join_blank [w] = w"
| "join_blank (w # ws) = w @ '' '' @ join_blank ws"

definition builtin_echo :: "Command \<Rightarrow> int \<Rightarrow> trace \<Rightarrow> BuiltinResult \<times> trace" where
  "builtin_echo command output_fd h =
     (ok_result, emit (WriteAll output_fd (join_blank (map process_echo_escapes (tl (args command))) @ [newline])) h)"

definition builtin_type :: "environ \<Rightarrow> Command \<Rightarrow> int \<Rightarrow> trace \<Rightarrow> BuiltinResult \<times> trace" where
  "builtin_type e command output_fd h =
     (if length (args command) < 2
      then (result False 0 2, emit (WriteAll output_fd (''type: missing argument'' @ [newline])) h)
      else let target = args command ! 1; path = find_executable e target
        in if is_builtin target
           then (ok_result, emit (WriteAll output_fd (target @ '' is a shell builtin'' @ [newline])) h)
           else if path \<noteq> []
           then (ok_result, emit (WriteAll output_fd (target @ '' is '' @ path @ [newline])) h)
           else (result False 0 1, emit (WriteAll output_fd (target @ '': not found'' @ [newline])) h))"

definition builtin_pwd :: "kernel \<Rightarrow> int \<Rightarrow> int \<Rightarrow> trace \<Rightarrow> BuiltinResult \<times> trace" where
  "builtin_pwd K output_fd error_fd h =
     (let (r, h1) = syscall K Getcwd h
      in if ret r = -1
         then (result False 0 1, emit (WriteAll error_fd (''pwd: error getting current directory'' @ [newline])) h1)
         else (ok_result, emit (WriteAll output_fd (path_text r @ [newline])) h1))"

text \<open>\<open>None\<close> is \<open>ok = false\<close>: the message about \<open>HOME\<close> has been written.\<close>

definition expand_home :: "environ \<Rightarrow> string \<Rightarrow> int \<Rightarrow> trace \<Rightarrow> string option \<times> trace" where
  "expand_home e path error_fd h =
     (if path = ''~'' \<or> take 2 path = ''~/'' then
        (case getenv e ''HOME'' of
           None \<Rightarrow> (None, emit (WriteAll error_fd (''cd: HOME environment variable not set'' @ [newline])) h)
         | Some home \<Rightarrow> (Some (if path = ''~'' then home else home @ drop 1 path), h))
      else (Some path, h))"

definition cd_to :: "environ \<Rightarrow> kernel \<Rightarrow> string \<Rightarrow> string \<Rightarrow> int \<Rightarrow> trace \<Rightarrow> BuiltinResult \<times> trace" where
  "cd_to e K requested resolved error_fd h =
     (let fail = (\<lambda>why h. (result False 0 1, emit (WriteAll error_fd (''cd: '' @ requested @ '': '' @ why @ [newline])) h))
      in if stat_kind e (c_str resolved) = None then fail ''No such file or directory'' h
         else if stat_kind e (c_str resolved) \<noteq> Some Directory then fail ''Not a directory'' h
         else if \<not> access_x e (c_str resolved) then fail ''Permission denied'' h
         else let (r, h1) = syscall K (Chdir (c_str resolved)) h
           in if ret r \<noteq> 0 then fail ''Failed to change directory'' h1 else (ok_result, h1))"

definition builtin_cd :: "environ \<Rightarrow> kernel \<Rightarrow> Command \<Rightarrow> int \<Rightarrow> trace \<Rightarrow> BuiltinResult \<times> trace" where
  "builtin_cd e K command error_fd h =
     (let requested = (if length (args command) < 2 then getenv e ''HOME'' else Some (args command ! 1))
      in case requested of
           None \<Rightarrow> (result False 0 1, emit (WriteAll error_fd (''cd: HOME environment variable not set'' @ [newline])) h)
         | Some req \<Rightarrow>
             (case expand_home e req error_fd h of
                (None, h1) \<Rightarrow> (result False 0 1, h1)
              | (Some resolved, h1) \<Rightarrow> cd_to e K req resolved error_fd h1))"

definition builtin_history ::
  "'r readline_api \<Rightarrow> Command \<Rightarrow> int \<Rightarrow> 'r HistoryState \<Rightarrow> trace \<Rightarrow> BuiltinResult \<times> 'r HistoryState \<times> trace" where
  "builtin_history R command output_fd s h =
     (let as = args command;
          max_entries = (if 1 < length as \<and> as ! 1 \<noteq> [] \<and> hd (as ! 1) \<noteq> CHR ''-'' then
                           (case stoi (as ! 1) of Some (n, _) \<Rightarrow> n | None \<Rightarrow> -1) else -1)
      in if 2 < length as \<and> as ! 1 = ''-r'' then (ok_result, load_from_file R (as ! 2) s, h)
         else if 2 < length as \<and> as ! 1 = ''-w'' then (ok_result, write_to_file R (as ! 2) s, h)
         else if 2 < length as \<and> as ! 1 = ''-a'' then (ok_result, append_new_to_file R (as ! 2) s, h)
         else (ok_result, s, emit (WriteAll output_fd (render R max_entries (rl_state s))) h))"

definition builtin_exit :: "Command \<Rightarrow> BuiltinContext \<Rightarrow> int \<Rightarrow> trace \<Rightarrow> BuiltinResult \<times> trace" where
  "builtin_exit command context error_fd h =
     (if 1 < length (args command) then
        (case stoi (args command ! 1) of
           Some (code, _) \<Rightarrow> (result True code 0, h)
         | None \<Rightarrow> (result True 2 0, emit (WriteAll error_fd (''exit: numeric argument required'' @ [newline])) h))
      else (result True 0 0, h))"


section \<open>pinfo\<close>

definition parse_positive_long :: "string \<Rightarrow> int option" where
  "parse_positive_long txt =
     (if txt = [] then None
      else case stol txt of
             None \<Rightarrow> None
           | Some (parsed, consumed) \<Rightarrow> if consumed \<noteq> length txt \<or> parsed \<le> 0 then None else Some parsed)"

record PinfoOptions =
  pi_pid :: int
  pi_watch :: bool
  pi_pid_explicit :: bool
  pi_interval_ms :: int
  pi_count :: int
  pi_count_explicit :: bool

datatype pinfo_parse = Usage | Refused string | Options PinfoOptions

text \<open>The kinds of argument that the option loop tells apart, in the order of its tests.\<close>

datatype pinfo_flag = HelpFlag | WatchFlag | IntervalFlag | CountFlag | UnknownFlag | Operand

definition pinfo_flag_of :: "string \<Rightarrow> pinfo_flag" where
  "pinfo_flag_of arg =
     (if arg = ''--help'' \<or> arg = ''-h'' then HelpFlag
      else if arg = ''--watch'' \<or> arg = ''-w'' then WatchFlag
      else if arg = ''--interval'' then IntervalFlag
      else if arg = ''--count'' then CountFlag
      else if arg \<noteq> [] \<and> hd arg = CHR ''-'' then UnknownFlag
      else Operand)"

text \<open>
  One round of the option loop: \<open>Inl\<close> is an early return, \<open>Inr\<close> the updated options and the arguments
  that are left. \<open>self\<close> is the answer of \<open>getpid\<close>.
\<close>

definition pinfo_option ::
  "int \<Rightarrow> PinfoOptions \<Rightarrow> string \<Rightarrow> string list \<Rightarrow> pinfo_parse + PinfoOptions \<times> string list" where
  "pinfo_option self o1 arg rest =
     (let number = Option.bind (case rest of [] \<Rightarrow> None | v # _ \<Rightarrow> Some v) parse_positive_long
      in case pinfo_flag_of arg of
        HelpFlag \<Rightarrow> Inl Usage
      | WatchFlag \<Rightarrow>
          Inr (o1\<lparr>pi_watch := True, pi_count := (if pi_count_explicit o1 then pi_count o1 else 0)\<rparr>, rest)
      | IntervalFlag \<Rightarrow>
          (case number of
             Some n \<Rightarrow> if 60000 < n then Inl (Refused ''pinfo: --interval expects 1..60000 milliseconds'')
                       else Inr (o1\<lparr>pi_interval_ms := n\<rparr>, tl rest)
           | None \<Rightarrow> Inl (Refused ''pinfo: --interval expects 1..60000 milliseconds''))
      | CountFlag \<Rightarrow>
          (case number of
             Some n \<Rightarrow> Inr (o1\<lparr>pi_count := n, pi_count_explicit := True\<rparr>, tl rest)
           | None \<Rightarrow> Inl (Refused ''pinfo: --count expects a positive integer''))
      | UnknownFlag \<Rightarrow> Inl (Refused (''pinfo: unknown option: '' @ arg))
      | Operand \<Rightarrow>
          if pi_pid_explicit o1 then Inl (Refused ''pinfo: multiple PIDs are not supported'')
          else if arg = ''self'' then Inr (o1\<lparr>pi_pid_explicit := True, pi_pid := self\<rparr>, rest)
          else case parse_positive_long arg of
                 Some p \<Rightarrow> if INT_MAX < p then Inl (Refused (''pinfo: invalid PID: '' @ arg))
                           else Inr (o1\<lparr>pi_pid_explicit := True, pi_pid := p\<rparr>, rest)
               | None \<Rightarrow> Inl (Refused (''pinfo: invalid PID: '' @ arg)))"

lemma pinfo_option_shorter: "pinfo_option self o1 arg rest = Inr (o2, rest') \<Longrightarrow> length rest' \<le> length rest"
  by (auto simp: pinfo_option_def Let_def split: pinfo_flag.splits if_splits option.splits)

function pinfo_options :: "int \<Rightarrow> PinfoOptions \<Rightarrow> string list \<Rightarrow> pinfo_parse" where
  "pinfo_options self o1 [] = Options o1"
| "pinfo_options self o1 (arg # rest) =
     (case pinfo_option self o1 arg rest of
        Inl stop \<Rightarrow> stop
      | Inr (o2, rest') \<Rightarrow> pinfo_options self o2 rest')"
  by pat_completeness auto
termination
  by (relation "measure (\<lambda>(self, o1, args). length args)") (auto dest: pinfo_option_shorter)

definition pinfo_check :: "PinfoOptions \<Rightarrow> string option" where
  "pinfo_check o1 =
     (if \<not> pi_watch o1 \<and> pi_count_explicit o1 then Some ''pinfo: --count requires --watch''
      else if \<not> pi_watch o1 \<and> pi_interval_ms o1 \<noteq> 1000 then Some ''pinfo: --interval requires --watch''
      else None)"

definition pinfo_usage :: string where
  "pinfo_usage = ''usage: pinfo [PID|self]'' @ [newline] @
     ''       pinfo --watch [PID|self] [--interval MS] [--count N]'' @ [newline]"

partial_function (option) sleep_loop :: "kernel \<Rightarrow> int \<Rightarrow> int \<Rightarrow> trace \<Rightarrow> trace option" where
  "sleep_loop K sec nsec h =
     (let (r, h1) = syscall K (Nanosleep sec nsec) h
      in if ret r = -1 \<and> errno r = EINTR then sleep_loop K (fst (remain r)) (snd (remain r)) h1 else Some h1)"

text \<open>The sampling loop, from \<open>sample\<close> on; without \<open>--count\<close> it does not return.\<close>

partial_function (option) pinfo_loop ::
  "(trace \<Rightarrow> environ) \<Rightarrow> kernel \<Rightarrow> PinfoOptions \<Rightarrow> int \<Rightarrow> int \<Rightarrow> int \<Rightarrow> trace \<Rightarrow> (BuiltinResult \<times> trace) option" where
  "pinfo_loop E K o1 output_fd error_fd sample h =
     (if pi_count o1 = 0 \<or> sample < pi_count o1 then
        Option.bind (inspect_process (E h) K (pi_pid o1) h) (\<lambda>(inspected, h0).
          case inspected of
            Inl e \<Rightarrow> Some (result False 0 1, emit (WriteAll error_fd (''pinfo: '' @ e @ [newline])) h0)
          | Inr info \<Rightarrow>
             (let h1 = (if pi_watch o1
                        then emit (WriteAll output_fd (''=== sample '' @ to_string (sample + 1) @ '' ==='' @ [newline])) h0 else h0);
                  h2 = emit (WriteAll output_fd (render_process_info info)) h1
              in if pi_count o1 \<noteq> 0 \<and> pi_count o1 \<le> sample + 1 then Some (ok_result, h2)
                 else Option.bind (sleep_loop K (pi_interval_ms o1 div 1000) (pi_interval_ms o1 mod 1000 * 1000000) h2)
                   (\<lambda>h3. let h4 = (if pi_watch o1 then emit (WriteAll output_fd [newline]) h3 else h3)
                     in pinfo_loop E K o1 output_fd error_fd (sample + 1) h4)))
      else Some (ok_result, h))"

declare sleep_loop.simps [code] pinfo_loop.simps [code]

definition builtin_pinfo ::
  "(trace \<Rightarrow> environ) \<Rightarrow> kernel \<Rightarrow> Command \<Rightarrow> int \<Rightarrow> int \<Rightarrow> trace \<Rightarrow> (BuiltinResult \<times> trace) option" where
  "builtin_pinfo E K command output_fd error_fd h =
     (let (g, h1) = syscall K Getpid h;
          start = \<lparr>pi_pid = ret g, pi_watch = False, pi_pid_explicit = False, pi_interval_ms = 1000,
                   pi_count = 1, pi_count_explicit = False\<rparr>
      in case pinfo_options (ret g) start (tl (args command)) of
           Usage \<Rightarrow> Some (ok_result, emit (WriteAll output_fd pinfo_usage) h1)
         | Refused m \<Rightarrow> Some (result False 0 2, emit (WriteAll error_fd (m @ [newline])) h1)
         | Options o1 \<Rightarrow>
             (case pinfo_check o1 of
                Some m \<Rightarrow> Some (result False 0 2, emit (WriteAll error_fd (m @ [newline])) h1)
              | None \<Rightarrow> pinfo_loop E K o1 output_fd error_fd 0 h1))"


section \<open>The dispatcher\<close>

text \<open>The end of a child that \<open>run\<close>, \<open>sandbox\<close> or \<open>trace\<close> leaves, as the result of a built-in.\<close>

definition child_result :: "child_end \<Rightarrow> child_end + BuiltinResult" where
  "child_result c = (case c of Exited status \<Rightarrow> Inr (result False 0 status) | _ \<Rightarrow> Inl c)"

definition child_only ::
  "BuiltinContext \<Rightarrow> string \<Rightarrow> int \<Rightarrow> (trace \<Rightarrow> (child_end \<times> trace) option) \<Rightarrow> 'r HistoryState \<Rightarrow> trace \<Rightarrow>
   ((child_end + BuiltinResult) \<times> 'r HistoryState \<times> trace) option" where
  "child_only context message error_fd run s h =
     (if context = ParentShell
      then Some (Inr (result False 0 1), s, emit (WriteAll error_fd (message @ [newline])) h)
      else map_option (\<lambda>(c, h1). (child_result c, s, h1)) (run h))"

definition execute_builtin ::
  "'r world \<Rightarrow> Command \<Rightarrow> int \<Rightarrow> int \<Rightarrow> BuiltinContext \<Rightarrow> 'r HistoryState \<Rightarrow> trace \<Rightarrow>
   ((child_end + BuiltinResult) \<times> 'r HistoryState \<times> trace) option" where
  "execute_builtin w command output_fd error_fd context s h =
     (let name = hd (args command); K = sys w; e = env w h;
          pure = (\<lambda>(r, h1). Some (Inr r, s, h1))
      in if args command = [] then Some (Inr not_handled, s, h)
         else if name = ''echo'' then pure (builtin_echo command output_fd h)
         else if name = ''type'' then pure (builtin_type e command output_fd h)
         else if name = ''pwd'' then pure (builtin_pwd K output_fd error_fd h)
         else if name = ''cd'' then pure (builtin_cd e K command error_fd h)
         else if name = ''history'' then
           (let (r, s1, h1) = builtin_history (readline w) command output_fd s h in Some (Inr r, s1, h1))
         else if name = ''pinfo'' then
           map_option (\<lambda>(r, h1). (Inr r, s, h1)) (builtin_pinfo (env w) K command output_fd error_fd h)
         else if name = ''limits'' then
           (let (txt, h1) = render_current_limits K h in Some (Inr ok_result, s, emit (WriteAll output_fd txt) h1))
         else if name = ''run'' then
           child_only context ''run: internal error: resource command must execute in child context'' error_fd
             (\<lambda>h. Some (execute_resource_run_child e K command output_fd error_fd h)) s h
         else if name = ''sandbox'' then
           child_only context ''sandbox: internal error: isolation command must execute in child context'' error_fd
             (execute_sandbox_child (env w) K command output_fd error_fd) s h
         else if name = ''trace'' then
           child_only context ''trace: internal error: tracer must execute in child context'' error_fd
             (execute_trace_child (env w) K command output_fd error_fd) s h
         else if name = ''exit'' then pure (builtin_exit command context error_fd h)
         else Some (Inr not_handled, s, h))"

section \<open>Calls that a built-in may make in the shell itself\<close>

text \<open>
  A call that leaves the shell process as it is: it does not replace or end the process, change its
  limits or priority, its process group or the owner of the terminal, its namespaces, identities
  and mounts, and does not trace or signal itself.
\<close>

definition parent_safe :: "syscall \<Rightarrow> bool" where
  "parent_safe c =
     (case c of Execv _ _ \<Rightarrow> False | Exit _ \<Rightarrow> False | Setrlimit _ _ _ \<Rightarrow> False | Setpriority _ \<Rightarrow> False
      | Setpgid _ _ \<Rightarrow> False | Tcsetpgrp _ _ \<Rightarrow> False | Fork _ \<Rightarrow> False | Raise _ \<Rightarrow> False
      | Isolation _ \<Rightarrow> False | Ptrace _ _ \<Rightarrow> False | _ \<Rightarrow> True)"

definition safe_ext :: "trace \<Rightarrow> trace \<Rightarrow> bool" where
  "safe_ext h h' \<longleftrightarrow> (\<exists>cs. h' = h @ cs \<and> list_all parent_safe cs)"

lemma safe_ext_refl [simp]: "safe_ext h h"
  by (simp add: safe_ext_def)

lemma safe_ext_trans: "safe_ext a b \<Longrightarrow> safe_ext b c \<Longrightarrow> safe_ext a c"
  by (auto simp: safe_ext_def)

lemma safe_ext_snoc [simp]: "safe_ext h h' \<Longrightarrow> parent_safe c \<Longrightarrow> safe_ext h (h' @ [c])"
  by (auto simp: safe_ext_def)

lemma safe_ext_step: "safe_ext (h @ [c]) h' \<Longrightarrow> parent_safe c \<Longrightarrow> safe_ext h h'"
  by (auto simp: safe_ext_def)

lemma parent_safe_simps [simp]:
  "parent_safe (WriteAll fd s)" "parent_safe Getpid" "parent_safe Getcwd" "parent_safe (Chdir s)"
  "parent_safe (Getrlimit i)" "parent_safe Getpriority" "parent_safe (Nanosleep i j)"
  "parent_safe (Open s fl md)" "parent_safe (Close fd)" "parent_safe (Waitpid i wfl)" "parent_safe (Tcgetattr fd)"
  "parent_safe (Read fd i)" "parent_safe (Readlink s i)" "parent_safe (List_dir s)" "parent_safe Sysconf_clk_tck"
  by (simp_all add: parent_safe_def)

lemma safe_ext_emit [simp]: "safe_ext h h' \<Longrightarrow> parent_safe c \<Longrightarrow> safe_ext h (emit c h')"
  by (simp add: emit_def)

lemma builtin_calls_safe:
  "safe_ext h (snd (builtin_echo command out h))"
  "safe_ext h (snd (builtin_type e command out h))"
  "safe_ext h (snd (builtin_pwd K out err h))"
  "safe_ext h (snd (builtin_exit command ctx err h))"
  "safe_ext h (snd (cd_to e K req res err h))"
  "safe_ext h (snd (expand_home e req err h))"
  "safe_ext h (snd (snd (builtin_history R command out s h)))"
  by (simp_all add: builtin_echo_def builtin_type_def builtin_pwd_def builtin_exit_def cd_to_def
      expand_home_def builtin_history_def Let_def syscall_def split: option.splits)

lemma builtin_cd_safe: "safe_ext h (snd (builtin_cd e K command err h))"
proof -
  have "safe_ext h (snd (cd_to e K req res err h1))" if "expand_home e r err h = (x, h1)" for req res r x h1
    using builtin_calls_safe(5) [of h1 e K req res err] builtin_calls_safe(6) [of h e r err] that
    by (auto intro: safe_ext_trans)
  then show ?thesis
    using builtin_calls_safe(6) [of h e _ err]
    by (auto simp: builtin_cd_def Let_def split: option.splits prod.splits if_splits)
      (metis snd_conv)+
qed

lemma format_limit_lines_safe: "safe_ext h (snd (format_limit_lines K ls h))"
proof (induction ls arbitrary: h)
  case (Cons l ls)
  obtain n r u where "l = (n, r, u)" by (cases l)
  with Cons [of "h @ [Getrlimit r]"] show ?case
    by (auto simp: format_limit_line_def syscall_def Let_def split: prod.splits intro: safe_ext_step)
qed simp

lemma render_current_limits_safe: "safe_ext h (snd (render_current_limits K h))"
  using format_limit_lines_safe [of h K limit_lines]
  by (simp add: render_current_limits_def syscall_def Let_def split_beta)

text \<open>Rules for the loops of \<open>pinfo\<close>: what every single call keeps, the loop keeps.\<close>

lemma sleep_loop_rule:
  assumes "sleep_loop K a b h = Some h'" "I h" "\<And>h a b. I h \<Longrightarrow> I (h @ [Nanosleep a b])"
  shows "I h'"
proof -
  have "I h \<longrightarrow> I h'"
  proof (rule sleep_loop.raw_induct [where P = "\<lambda>K a b h r. I h \<longrightarrow> I r", OF _ assms(1)], intro impI)
    fix f K a b h h'
    assume IH: "\<And>K a b h r. f K a b h = Some r \<Longrightarrow> I h \<longrightarrow> I r"
      and body: "(let (r, h1) = syscall K (Nanosleep a b) h
        in if ret r = -1 \<and> errno r = EINTR then f K (fst (remain r)) (snd (remain r)) h1 else Some h1) = Some h'"
      and I: "I h"
    define c where "c = Nanosleep a b"
    have c: "I (h @ [c])" unfolding c_def by (rule assms(3) [OF I])
    have "(if ret (K h c) = -1 \<and> errno (K h c) = EINTR
        then f K (fst (remain (K h c))) (snd (remain (K h c))) (h @ [c]) else Some (h @ [c])) = Some h'"
      using body unfolding c_def syscall_def Let_def prod.case .
    then consider "f K (fst (remain (K h c))) (snd (remain (K h c))) (h @ [c]) = Some h'" | "h' = h @ [c]"
      by (metis option.inject)
    then show "I h'" using IH c by cases blast+
  qed
  with assms(2) show ?thesis by blast
qed

lemma proc_ext_safe: "proc_ext h h' \<Longrightarrow> safe_ext h h'"
proof -
  have "proc_call c \<Longrightarrow> parent_safe c" for c by (cases c) (simp_all add: proc_call_def parent_safe_def)
  then show "proc_ext h h' \<Longrightarrow> safe_ext h h'" by (auto simp: proc_ext_def safe_ext_def list_all_iff)
qed

lemma inspect_process_safe: "inspect_process e K pid h = Some (r, h') \<Longrightarrow> safe_ext h h'"
  by (rule proc_ext_safe) (rule inspect_process_ext)

definition pinfo_closed :: "kernel \<Rightarrow> (trace \<Rightarrow> bool) \<Rightarrow> bool" where
  "pinfo_closed K I \<longleftrightarrow>
     (\<forall>e pid h r h'. I h \<longrightarrow> inspect_process e K pid h = Some (r, h') \<longrightarrow> I h') \<and>
     (\<forall>fd s h. I h \<longrightarrow> I (h @ [WriteAll fd s])) \<and> (\<forall>a b h. I h \<longrightarrow> I (h @ [Nanosleep a b]))"

lemma pinfo_loop_rule:
  assumes "pinfo_loop E K o1 out err n h = Some r" "I h" "pinfo_closed K I"
  shows "I (snd r)"
proof -
  have "pinfo_closed K I \<longrightarrow> I h \<longrightarrow> I (snd r)"
  proof (rule pinfo_loop.raw_induct [where P = "\<lambda>E K o1 out err n h r. pinfo_closed K I \<longrightarrow> I h \<longrightarrow> I (snd r)", OF _ assms(1)],
      intro impI)
    fix f E K o1 out err n h r
    assume IH: "\<And>E K o1 out err n h r. f E K o1 out err n h = Some r \<Longrightarrow> pinfo_closed K I \<longrightarrow> I h \<longrightarrow> I (snd r)"
      and cl: "pinfo_closed K I" and I: "I h"
      and body: "(if pi_count o1 = 0 \<or> n < pi_count o1 then
        Option.bind (inspect_process (E h) K (pi_pid o1) h) (\<lambda>(inspected, h0).
          case inspected of
            Inl e \<Rightarrow> Some (result False 0 1, emit (WriteAll err (''pinfo: '' @ e @ [newline])) h0)
          | Inr info \<Rightarrow>
             (let h1 = (if pi_watch o1
                        then emit (WriteAll out (''=== sample '' @ to_string (n + 1) @ '' ==='' @ [newline])) h0 else h0);
                  h2 = emit (WriteAll out (render_process_info info)) h1
              in if pi_count o1 \<noteq> 0 \<and> pi_count o1 \<le> n + 1 then Some (ok_result, h2)
                 else Option.bind (sleep_loop K (pi_interval_ms o1 div 1000) (pi_interval_ms o1 mod 1000 * 1000000) h2)
                   (\<lambda>h3. let h4 = (if pi_watch o1 then emit (WriteAll out [newline]) h3 else h3)
                     in f E K o1 out err (n + 1) h4)))
      else Some (ok_result, h)) = Some r"
    have out: "I (emit (WriteAll fd t) h)" if "I h" for fd t h using cl that by (simp add: pinfo_closed_def emit_def)
    define shown where "shown info h0 = emit (WriteAll out (render_process_info info)) (if pi_watch o1
        then emit (WriteAll out (''=== sample '' @ to_string (n + 1) @ '' ==='' @ [newline])) h0 else h0)" for info h0
    have s1: "I h0 \<Longrightarrow> I (shown info h0)" for info h0 by (simp add: shown_def out)
    show "I (snd r)"
    proof (cases "pi_count o1 = 0 \<or> n < pi_count o1")
      case False
      with body I show ?thesis by auto
    next
      case True
      with body obtain i h0 where i: "inspect_process (E h) K (pi_pid o1) h = Some (i, h0)" by (auto simp: bind_eq_Some_conv)
      with cl I have s0: "I h0" unfolding pinfo_closed_def by blast
      show ?thesis
      proof (cases i)
        case (Inl e)
        with body i True s0 out show ?thesis by auto
      next
        case (Inr info)
        note body' = body [unfolded if_P [OF True] i Inr bind.simps prod.case sum.case Let_def, folded shown_def]
        show ?thesis
        proof (cases "pi_count o1 \<noteq> 0 \<and> pi_count o1 \<le> n + 1")
          case True
          with body' have "r = (ok_result, shown info h0)" by simp
          then show ?thesis using s0 s1 by simp
        next
          case False
          with body' obtain h3 where h3: "sleep_loop K (pi_interval_ms o1 div 1000)
              (pi_interval_ms o1 mod 1000 * 1000000) (shown info h0) = Some h3"
            "f E K o1 out err (n + 1) (if pi_watch o1 then emit (WriteAll out [newline]) h3 else h3) = Some r"
            by (auto simp: bind_eq_Some_conv)
          have "I h3" by (rule sleep_loop_rule [where I = I, OF h3(1) s1 [OF s0]]) (use cl in \<open>auto simp: pinfo_closed_def\<close>)
          then have "I (if pi_watch o1 then emit (WriteAll out [newline]) h3 else h3)" by (simp add: out)
          with IH [OF h3(2)] cl show ?thesis by blast
        qed
      qed
    qed
  qed
  with assms(2,3) show ?thesis by blast
qed

lemma pinfo_loop_safe:
  assumes "pinfo_loop E K o1 out err n h = Some r"
  shows "safe_ext h (snd r)"
  by (rule pinfo_loop_rule [where I = "safe_ext h", OF assms safe_ext_refl])
    (auto simp: pinfo_closed_def intro: safe_ext_trans inspect_process_safe)

lemma builtin_pinfo_safe:
  assumes "builtin_pinfo E K command out err h = Some r"
  shows "safe_ext h (snd r)"
proof -
  have loop: "safe_ext h (snd r)" if "pinfo_loop E K o1 out err 0 (h @ [Getpid]) = Some r" for o1
    using pinfo_loop_safe [OF that] by (rule safe_ext_step) simp
  show ?thesis
    using assms unfolding builtin_pinfo_def Let_def syscall_def prod.case
    by (auto split: pinfo_parse.splits option.splits intro: loop)
qed

definition parent_outcome ::
  "Command \<Rightarrow> 'r HistoryState \<Rightarrow> trace \<Rightarrow> child_end + BuiltinResult \<Rightarrow> 'r HistoryState \<Rightarrow> trace \<Rightarrow> bool" where
  "parent_outcome command s h r s' h' \<longleftrightarrow>
     (\<exists>b. r = Inr b) \<and> safe_ext h h' \<and> (hd (args command) \<noteq> ''history'' \<longrightarrow> s' = s)"

lemma child_only_parent:
  assumes "child_only ParentShell m err f s h = Some (r, s', h')"
  shows "(\<exists>b. r = Inr b) \<and> s' = s \<and> safe_ext h h'"
  using assms by (auto simp: child_only_def)


lemma execute_builtin_parent:
  assumes "execute_builtin w command out err ParentShell s h = Some (r, s', h')"
  shows "(\<exists>b. r = Inr b) \<and> safe_ext h h' \<and> (hd (args command) \<noteq> ''history'' \<longrightarrow> s' = s)"
proof -
  let ?P = "parent_outcome command s h"
  have pure: "?P r s' h'" if "(case x of (q, h1) \<Rightarrow> Some (Inr q, s, h1)) = Some (r, s', h')" "safe_ext h (snd x)" for x
    using that by (cases x) (auto simp: parent_outcome_def)
  have hist: "?P r s' h'" if "(case builtin_history R command out s h of (q, s1, h1) \<Rightarrow> Some (Inr q, s1, h1)) = Some (r, s', h')"
    "hd (args command) = ''history''" for R
    using that builtin_calls_safe(7) [of h R command out s] by (auto simp: parent_outcome_def split: prod.splits)
  have pinfo: "?P r s' h'" if "map_option (\<lambda>(q, h1). (Inr q, s, h1)) (builtin_pinfo E K command out err h) = Some (r, s', h')" for E K
    using that builtin_pinfo_safe by (fastforce simp: parent_outcome_def)
  have limits: "?P r s' h'" if "(case render_current_limits K h of (txt, h1) \<Rightarrow>
      Some (Inr ok_result, s, emit (WriteAll out txt) h1)) = Some (r, s', h')" for K
    using that render_current_limits_safe [of h K] by (auto simp: parent_outcome_def split: prod.splits)
  have child: "?P r s' h'" if "child_only ParentShell m err f s h = Some (r, s', h')" for m f
    using child_only_parent [OF that] by (simp add: parent_outcome_def)
  have "?P r s' h'"
    using assms unfolding execute_builtin_def Let_def
    by (simp only: split: if_split_asm)
      (erule pure hist pinfo limits child, (rule builtin_calls_safe builtin_cd_safe refl | assumption)?
        | force simp: parent_outcome_def)+
  then show ?thesis by (simp add: parent_outcome_def)
qed


section \<open>Properties\<close>

text \<open>
  C17. Built-ins do not endanger the shell. Executed in the shell itself, no built-in, whatever its
  arguments and whatever the kernel answers, ever replaces or ends the shell process, changes its
  resource limits, its priority or its process group, forks, or gives the terminal away; and only
  \<open>history\<close> changes the history module.
\<close>

theorem parent_builtins_safe:
  assumes "execute_builtin w command out err ParentShell s h = Some (r, s', h')"
  shows "(\<exists>b. r = Inr b) \<and> (\<exists>cs. h' = h @ cs \<and> list_all parent_safe cs) \<and>
    (hd (args command) \<noteq> ''history'' \<longrightarrow> s' = s)"
  using execute_builtin_parent [OF assms] by (simp add: safe_ext_def)

definition demo_world :: "string list world" where
  "demo_world = \<lparr>sys = scripted_kernel [], env = (\<lambda>_. demo_environ), readline = list_readline\<rparr>"

theorem parent_builtins_safe_witness:
  "\<exists>r s' cs. execute_builtin demo_world (empty_command\<lparr>args := [''run'', ''ls'']\<rparr>) 1 2 ParentShell demo_history [] = Some (r, s', cs) \<and>
     list_all parent_safe cs \<and> s' = demo_history \<and> (\<exists>b. r = Inr b)"
proof -
  let ?c = "empty_command\<lparr>args := [''run'', ''ls'']\<rparr>"
  have "\<exists>r s' cs. execute_builtin demo_world ?c 1 2 ParentShell demo_history [] = Some (r, s', cs)"
    by (simp add: execute_builtin_def child_only_def Let_def)
  then obtain r s' cs where x: "execute_builtin demo_world ?c 1 2 ParentShell demo_history [] = Some (r, s', cs)" by blast
  have "hd (args ?c) \<noteq> ''history''" by simp
  with parent_builtins_safe [OF x] x show ?thesis by auto
qed

text \<open>The directory that \<open>cd\<close> means: the argument or \<open>HOME\<close>, with a leading \<open>~\<close> replaced by \<open>HOME\<close>.\<close>

definition cd_target :: "environ \<Rightarrow> Command \<Rightarrow> string option" where
  "cd_target e command =
     Option.bind (if length (args command) < 2 then getenv e ''HOME'' else Some (args command ! 1))
       (\<lambda>req. if req = ''~'' then getenv e ''HOME''
              else if take 2 req = ''~/'' then map_option (\<lambda>home. home @ drop 1 req) (getenv e ''HOME'')
              else Some req)"

lemma expand_home_target:
  "expand_home e req err h =
     (case (if req = ''~'' then getenv e ''HOME''
            else if take 2 req = ''~/'' then map_option (\<lambda>home. home @ drop 1 req) (getenv e ''HOME'') else Some req) of
        None \<Rightarrow> (None, h @ [WriteAll err (''cd: HOME environment variable not set'' @ [newline])])
      | Some p \<Rightarrow> (Some p, h))"
  by (simp add: expand_home_def emit_def split: option.splits)

text \<open>A directory that can be entered.\<close>

definition enterable :: "environ \<Rightarrow> string \<Rightarrow> bool" where
  "enterable e dir \<longleftrightarrow> stat_kind e dir = Some Directory \<and> access_x e dir"

lemma builtin_cd_target:
  "builtin_cd e K command err h =
     (case cd_target e command of
        None \<Rightarrow> (result False 0 1, h @ [WriteAll err (''cd: HOME environment variable not set'' @ [newline])])
      | Some t \<Rightarrow> cd_to e K (if length (args command) < 2 then the (getenv e ''HOME'') else args command ! 1) t err h)"
  by (simp add: builtin_cd_def cd_target_def expand_home_target emit_def Let_def split: option.split)

lemma cd_to_cases:
  "cd_to e K req t err h = (r, h') \<Longrightarrow>
     (if enterable e (c_str t) \<and> ret (K h (Chdir (c_str t))) = 0 then r = ok_result \<and> h' = h @ [Chdir (c_str t)]
      else r = result False 0 1 \<and>
        (\<exists>why. h' = h @ (if enterable e (c_str t) then [Chdir (c_str t)] else []) @ [WriteAll err (''cd: '' @ req @ '': '' @ why @ [newline])]))"
  by (auto simp: cd_to_def enterable_def Let_def syscall_def emit_def split: if_splits)

text \<open>
  C36. \<open>cd\<close> enters its target whenever that is possible, and only then: it succeeds, with status 0 and the one call
  \<open>chdir\<close> on the target, exactly when there is a target (the argument or \<open>HOME\<close>, with \<open>~\<close> replaced), the target is an
  existing directory with search permission, and the kernel accepts the \<open>chdir\<close>. Otherwise the status is 1, the
  error stream receives one message, and \<open>chdir\<close> was called (and refused) only for such a directory.
\<close>

theorem cd_correct:
  "case builtin_cd e K command err h of (r, h') \<Rightarrow>
     (case cd_target e command of
        Some t \<Rightarrow>
          (b_status r = 0 \<longleftrightarrow> stat_kind e (c_str t) = Some Directory \<and> access_x e (c_str t) \<and> ret (K h (Chdir (c_str t))) = 0) \<and>
          (if b_status r = 0 then h' = h @ [Chdir (c_str t)]
           else b_status r = 1 \<and> (\<exists>msg. h' =
             h @ (if stat_kind e (c_str t) = Some Directory \<and> access_x e (c_str t) then [Chdir (c_str t)] else []) @ [WriteAll err msg]))
      | None \<Rightarrow> b_status r = 1 \<and> (\<exists>msg. h' = h @ [WriteAll err msg]))"
proof (cases "cd_target e command")
  case None
  then show ?thesis by (simp add: builtin_cd_target result_def)
next
  case (Some t)
  obtain r h' where "builtin_cd e K command err h = (r, h')" by fastforce
  with cd_to_cases Some show ?thesis
    by (fastforce simp: builtin_cd_target enterable_def result_def split: if_splits)
qed

definition pinfo_inv :: "PinfoOptions \<Rightarrow> bool" where
  "pinfo_inv o1 \<longleftrightarrow>
     1 \<le> pi_interval_ms o1 \<and> pi_interval_ms o1 \<le> 60000 \<and> 0 < pi_pid o1 \<and> pi_pid o1 \<le> INT_MAX \<and>
     0 \<le> pi_count o1 \<and> (pi_count o1 = 0 \<longleftrightarrow> pi_watch o1 \<and> \<not> pi_count_explicit o1)"

lemma parse_positive_long_pos: "parse_positive_long t = Some n \<Longrightarrow> 0 < n"
  by (auto simp: parse_positive_long_def split: if_splits option.splits)

lemma pinfo_inv_updates:
  assumes "pinfo_inv o1"
  shows "pi_count_explicit o1 \<Longrightarrow> pinfo_inv (o1\<lparr>pi_watch := True, pi_count := pi_count o1\<rparr>)"
    "\<not> pi_count_explicit o1 \<Longrightarrow> pinfo_inv (o1\<lparr>pi_watch := True, pi_count := 0\<rparr>)"
    "0 < n \<Longrightarrow> n \<le> 60000 \<Longrightarrow> pinfo_inv (o1\<lparr>pi_interval_ms := n\<rparr>)"
    "0 < n \<Longrightarrow> pinfo_inv (o1\<lparr>pi_count := n, pi_count_explicit := True\<rparr>)"
    "0 < n \<Longrightarrow> n \<le> INT_MAX \<Longrightarrow> pinfo_inv (o1\<lparr>pi_pid_explicit := True, pi_pid := n\<rparr>)"
  using assms by (auto simp: pinfo_inv_def)

lemma pinfo_option_inv:
  assumes "pinfo_option self o1 arg rest = Inr (o2, rest')" "pinfo_inv o1" "0 < self" "self \<le> INT_MAX"
  shows "pinfo_inv o2"
proof -
  note upd = pinfo_inv_updates [OF assms(2), simplified]
  have pos: "Option.bind x parse_positive_long = Some n \<Longrightarrow> 0 < n" for x n
    by (auto simp: bind_eq_Some_conv parse_positive_long_pos)
  show ?thesis
    using assms(1) unfolding pinfo_option_def
    by (auto simp: Let_def upd assms(3) assms(4) [simplified] dest: pos parse_positive_long_pos
        split: pinfo_flag.splits if_splits option.splits)
qed

lemma pinfo_option_never_options: "pinfo_option self o1 arg rest \<noteq> Inl (Options o2)"
  by (simp add: pinfo_option_def Let_def split: pinfo_flag.splits option.splits)

lemma pinfo_options_inv:
  assumes "pinfo_options self o1 as = Options o2" "pinfo_inv o1" "0 < self" "self \<le> INT_MAX"
  shows "pinfo_inv o2"
  using assms
proof (induction self o1 "as" rule: pinfo_options.induct)
  case (2 self o1 arg rest)
  show ?case
  proof (cases "pinfo_option self o1 arg rest")
    case (Inl stop)
    with 2(2) pinfo_option_never_options [of self o1 arg rest o2] show ?thesis by simp
  next
    case (Inr x)
    obtain o3 rest' where x: "x = (o3, rest')" by (cases x)
    with 2(2) Inr have "pinfo_options self o3 rest' = Options o2" by simp
    moreover have "pinfo_inv o3" using pinfo_option_inv 2(3-5) Inr x by blast
    ultimately show ?thesis using 2(1) [OF Inr x [symmetric]] 2(4,5) by blast
  qed
qed simp

text \<open>
  The options that \<open>pinfo\<close> accepts are in range: an interval of 1 to 60000 milliseconds, a process
  identifier that fits in a \<open>pid_t\<close>, and a sample count that is 0 (sample for ever) exactly if
  \<open>--watch\<close> was given without \<open>--count\<close>.
\<close>

theorem pinfo_options_valid:
  assumes "0 < self" "self \<le> INT_MAX"
    and "pinfo_options self \<lparr>pi_pid = self, pi_watch = False, pi_pid_explicit = False, pi_interval_ms = 1000,
           pi_count = 1, pi_count_explicit = False\<rparr> as = Options o1"
  shows "1 \<le> pi_interval_ms o1 \<and> pi_interval_ms o1 \<le> 60000 \<and> 0 < pi_pid o1 \<and> pi_pid o1 \<le> INT_MAX \<and>
    0 \<le> pi_count o1 \<and> (pi_count o1 = 0 \<longleftrightarrow> pi_watch o1 \<and> \<not> pi_count_explicit o1)"
  using pinfo_options_inv [OF assms(3) _ assms(1,2)] assms(1,2) by (simp add: pinfo_inv_def)

theorem pinfo_options_valid_witness:
  "\<exists>o1. pinfo_options 100 \<lparr>pi_pid = 100, pi_watch = False, pi_pid_explicit = False, pi_interval_ms = 1000,
      pi_count = 1, pi_count_explicit = False\<rparr> [''-w'', ''7'', ''--interval'', ''50''] = Options o1 \<and>
    pi_pid o1 = 7 \<and> pi_count o1 = 0 \<and> pi_interval_ms o1 = 50 \<and> pi_watch o1"
proof -
  let ?s = "\<lparr>pi_pid = 100, pi_watch = False, pi_pid_explicit = False, pi_interval_ms = 1000,
      pi_count = 1, pi_count_explicit = False\<rparr>"
  have o: "pinfo_options 100 ?s [''-w'', ''7'', ''--interval'', ''50''] =
    Options \<lparr>pi_pid = 7, pi_watch = True, pi_pid_explicit = True, pi_interval_ms = 50, pi_count = 0, pi_count_explicit = False\<rparr>"
    by code_simp
  with pinfo_options_valid [OF _ _ o] show ?thesis by simp
qed

text \<open>
  What a list of calls has written to a descriptor and how long it has slept (in nanoseconds); what a list of
  samples should look like: each is the display of one inspection, with a numbered title under \<open>--watch\<close> and an
  empty line between two of them; and that the samples were inspected one after the other during a run.
\<close>

definition written_to :: "int \<Rightarrow> trace \<Rightarrow> string list" where
  "written_to fd cs = concat (map (\<lambda>c. case c of WriteAll fd' t \<Rightarrow> if fd' = fd then [t] else [] | _ \<Rightarrow> []) cs)"

definition slept :: "trace \<Rightarrow> int list" where
  "slept cs = concat (map (\<lambda>c. case c of Nanosleep sec nsec \<Rightarrow> [sec * 1000000000 + nsec] | _ \<Rightarrow> []) cs)"



lemma written_slept_simps [simp]:
  "written_to fd [] = []" "written_to fd (as @ bs) = written_to fd as @ written_to fd bs"
  "written_to fd (WriteAll fd' t # cs) = (if fd' = fd then [t] else []) @ written_to fd cs"
  "written_to fd (Nanosleep a b # cs) = written_to fd cs"
  "slept [] = []" "slept (as @ bs) = slept as @ slept bs" "slept (WriteAll fd' t # cs) = slept cs"
  "slept (Nanosleep a b # cs) = (a * 1000000000 + b) # slept cs"
  by (simp_all add: written_to_def slept_def)










end
