(* ===== verification/Job_Control.thy ===== *)
theory Job_Control
  imports Kernel
begin

text \<open>
  The job table of \<open>src/job_control.cpp\<close>: process and job states, the wait-status decoding, the
  operations of the class \<open>JobControl\<close> with every system call they make, and the
  \<open>SIGCHLD\<close> flag. Loops that wait for the kernel are \<^theory_text>\<open>partial_function\<close>s: \<^const>\<open>None\<close> is ``does
  not return''.
\<close>

section \<open>State\<close>

datatype ProcessState = Running | Stopped | Done

datatype JobState = Running | Stopped | Done

record ProcessRecord =
  proc_pid :: int
  proc_state :: ProcessState
  proc_wait_status :: "32 word"

record Job =
  job_id :: int
  job_pgid :: int
  job_processes :: "ProcessRecord list"
  job_last_pid :: int
  job_command :: string
  job_state :: JobState
  job_last_status :: int
  job_state_changed :: bool
  job_terminal_modes :: termios
  job_has_terminal_modes :: bool

text \<open>The members of \<open>JobControl\<close>, and the flag that the signal handler sets.\<close>

record JobControl =
  jc_interactive :: bool
  jc_terminal_fd :: int
  jc_shell_pgid :: int
  jc_shell_terminal_modes :: termios
  jc_next_job_id :: int
  jc_jobs :: "Job list"
  sigchld_pending :: bool

definition on_sigchld :: "JobControl \<Rightarrow> JobControl" where
  "on_sigchld jc = jc\<lparr>sigchld_pending := True\<rparr>"


section \<open>Decoding\<close>

definition decode_wait_status :: "32 word \<Rightarrow> int" where
  "decode_wait_status status =
     (if WIFEXITED status then WEXITSTATUS status
      else if WIFSIGNALED status then 128 + WTERMSIG status
      else if WIFSTOPPED status then 128 + WSTOPSIG status
      else 0)"

fun state_name :: "JobState \<Rightarrow> string" where
  "state_name JobState.Running = ''Running''"
| "state_name JobState.Stopped = ''Stopped''"
| "state_name JobState.Done = ''Done''"

text \<open>
  \<open>None\<close> is \<open>std::nullopt\<close> (the current job). The conversion is complete when the first character
  that was not consumed is the terminating NUL of \<open>c_str\<close>.
\<close>

definition parse_job_id :: "string \<Rightarrow> int option" where
  "parse_job_id spec =
     (if spec = [] \<or> spec = ''%+'' then None
      else let text = (if hd spec = CHR ''%'' then tl spec else spec)
        in if text = [] then None
           else let (value, rest) = strtol text
             in if rest = text \<or> (rest \<noteq> [] \<and> hd rest \<noteq> nul) \<or> value \<le> 0 then Some (-1)
                else Some (int32_cast value))"


section \<open>Construction\<close>

definition ignored_signals :: "int list" where
  "ignored_signals = [SIGINT, SIGQUIT, SIGTSTP, SIGTTIN, SIGTTOU]"

text \<open>All handlers are installed with an empty mask and without flags.\<close>

definition install_handler :: "int \<Rightarrow> handler \<Rightarrow> trace \<Rightarrow> trace" where
  "install_handler signal_number f h = emit (Sigaction signal_number f) h"

definition ignore_signal :: "int \<Rightarrow> trace \<Rightarrow> trace" where
  "ignore_signal signal_number h = install_handler signal_number SIG_IGN h"

definition default_signal :: "int \<Rightarrow> trace \<Rightarrow> trace" where
  "default_signal signal_number h = install_handler signal_number SIG_DFL h"

definition reset_child_signal_handlers :: "trace \<Rightarrow> trace" where
  "reset_child_signal_handlers h =
     fold default_signal [SIGINT, SIGQUIT, SIGTSTP, SIGTTIN, SIGTTOU, SIGCHLD] h"

text \<open>Waiting until the shell is in the foreground of its terminal.\<close>

partial_function (option) await_foreground :: "kernel \<Rightarrow> int \<Rightarrow> int \<Rightarrow> trace \<Rightarrow> (int \<times> trace) option" where
  "await_foreground K fd pgid h =
     (let (r, h1) = syscall K (Tcgetpgrp fd) h
      in if ret r \<noteq> pgid then
           (let h2 = emit (Kill (- pgid) SIGTTIN) h1; (g, h3) = syscall K Getpgrp h2
            in await_foreground K fd (ret g) h3)
         else Some (pgid, h1))"

definition jc_new :: "bool \<Rightarrow> int \<Rightarrow> termios \<Rightarrow> JobControl" where
  "jc_new interactive pgid tmodes =
     \<lparr>jc_interactive = interactive, jc_terminal_fd = STDIN_FILENO, jc_shell_pgid = pgid,
      jc_shell_terminal_modes = tmodes, jc_next_job_id = 1, jc_jobs = [], sigchld_pending = False\<rparr>"

text \<open>The rest of the constructor once the shell is in the foreground.\<close>

definition claim_terminal :: "kernel \<Rightarrow> trace \<Rightarrow> JobControl \<times> trace" where
  "claim_terminal K h =
     (let h1 = fold ignore_signal ignored_signals h;
          (p, h2) = syscall K Getpid h1;
          h3 = emit (Setpgid (ret p) (ret p)) h2;
          (g, h4) = syscall K Getpgrp h3;
          h5 = emit (Tcsetpgrp STDIN_FILENO (ret g)) h4;
          (m, h6) = syscall K (Tcgetattr STDIN_FILENO) h5
      in (jc_new True (ret g) (modes m), h6))"

definition job_control_init :: "kernel \<Rightarrow> trace \<Rightarrow> (JobControl \<times> trace) option" where
  "job_control_init K h =
     (let (tty, h1) = syscall K (Isatty STDIN_FILENO) h;
          h2 = emit (Sigaction SIGCHLD On_sigchld) h1
      in if ret tty = 0 then Some (jc_new False (-1) 0, h2)
         else let (g, h3) = syscall K Getpgrp h2
           in map_option (\<lambda>(pgid, h4). claim_terminal K h4)
                (await_foreground K STDIN_FILENO (ret g) h3))"


section \<open>The job table\<close>

definition add_job :: "int \<Rightarrow> int list \<Rightarrow> int \<Rightarrow> string \<Rightarrow> JobControl \<Rightarrow> int \<times> JobControl" where
  "add_job pgid pids last_pid command jc =
     (let job = \<lparr>job_id = jc_next_job_id jc, job_pgid = pgid,
                 job_processes = map (\<lambda>pid. \<lparr>proc_pid = pid, proc_state = ProcessState.Running,
                                            proc_wait_status = 0\<rparr>) pids,
                 job_last_pid = last_pid, job_command = command, job_state = JobState.Running,
                 job_last_status = 0, job_state_changed = False,
                 job_terminal_modes = 0, job_has_terminal_modes = False\<rparr>
      in (job_id job, jc\<lparr>jc_next_job_id := jc_next_job_id jc + 1, jc_jobs := jc_jobs jc @ [job]\<rparr>))"

definition find_job :: "int \<Rightarrow> JobControl \<Rightarrow> Job option" where
  "find_job i jc = find (\<lambda>job. job_id job = i) (jc_jobs jc)"

definition resolve_job :: "string \<Rightarrow> JobControl \<Rightarrow> Job option" where
  "resolve_job spec jc =
     (case parse_job_id spec of
        Some i \<Rightarrow> if i < 0 then None else find_job i jc
      | None \<Rightarrow> find (\<lambda>job. job_state job \<noteq> JobState.Done) (rev (jc_jobs jc)))"

text \<open>Changing the job that a pointer from \<open>find_job\<close> designates.\<close>

fun modify_first :: "('a \<Rightarrow> bool) \<Rightarrow> ('a \<Rightarrow> 'a) \<Rightarrow> 'a list \<Rightarrow> 'a list" where
  "modify_first P f [] = []"
| "modify_first P f (x # xs) = (if P x then f x # xs else x # modify_first P f xs)"

definition modify_job :: "int \<Rightarrow> (Job \<Rightarrow> Job) \<Rightarrow> JobControl \<Rightarrow> JobControl" where
  "modify_job i f jc = jc\<lparr>jc_jobs := modify_first (\<lambda>job. job_id job = i) f (jc_jobs jc)\<rparr>"

definition erase_job :: "int \<Rightarrow> JobControl \<Rightarrow> JobControl" where
  "erase_job i jc = jc\<lparr>jc_jobs := filter (\<lambda>job. job_id job \<noteq> i) (jc_jobs jc)\<rparr>"

definition recompute_state :: "Job \<Rightarrow> Job" where
  "recompute_state job =
     (let any_running = list_ex (\<lambda>p. proc_state p = ProcessState.Running) (job_processes job);
          any_stopped = list_ex (\<lambda>p. proc_state p = ProcessState.Stopped) (job_processes job);
          all_done = \<not> list_ex (\<lambda>p. proc_state p = ProcessState.Running \<or>
                                   proc_state p = ProcessState.Stopped) (job_processes job);
          new_state = (if all_done then JobState.Done else if any_running then JobState.Running
                       else if any_stopped then JobState.Stopped else job_state job)
      in job\<lparr>job_state := new_state,
             job_state_changed := job_state_changed job \<or> new_state \<noteq> job_state job\<rparr>)"

definition update_record :: "32 word \<Rightarrow> ProcessRecord \<Rightarrow> ProcessRecord" where
  "update_record status p =
     p\<lparr>proc_wait_status := status,
       proc_state := (if WIFEXITED status \<or> WIFSIGNALED status then ProcessState.Done
                      else if WIFSTOPPED status then ProcessState.Stopped
                      else if WIFCONTINUED status then ProcessState.Running
                      else proc_state p)\<rparr>"

definition has_process :: "int \<Rightarrow> Job \<Rightarrow> bool" where
  "has_process pid job \<longleftrightarrow> list_ex (\<lambda>p. proc_pid p = pid) (job_processes job)"

definition update_job :: "int \<Rightarrow> 32 word \<Rightarrow> Job \<Rightarrow> Job" where
  "update_job pid status job =
     (let job1 = job\<lparr>job_processes :=
                   modify_first (\<lambda>p. proc_pid p = pid) (update_record status) (job_processes job)\<rparr>;
          job2 = (if pid = job_last_pid job1 \<and> \<not> WIFCONTINUED status
                  then job1\<lparr>job_last_status := decode_wait_status status\<rparr> else job1)
      in recompute_state job2)"

definition update_process :: "int \<Rightarrow> 32 word \<Rightarrow> JobControl \<Rightarrow> JobControl" where
  "update_process pid status jc =
     jc\<lparr>jc_jobs := modify_first (has_process pid) (update_job pid status) (jc_jobs jc)\<rparr>"

text \<open>What \<open>fg\<close> and \<open>bg\<close> do to the records of a stopped job before or after sending \<open>SIGCONT\<close>.\<close>

definition resume_process :: "ProcessRecord \<Rightarrow> ProcessRecord" where
  "resume_process p =
     (if proc_state p = ProcessState.Stopped then p\<lparr>proc_state := ProcessState.Running\<rparr> else p)"

definition resume_records :: "Job \<Rightarrow> Job" where
  "resume_records job =
     job\<lparr>job_processes := map resume_process (job_processes job),
         job_state := JobState.Running, job_state_changed := False\<rparr>"


section \<open>The terminal\<close>

definition give_terminal_to :: "JobControl \<Rightarrow> int \<Rightarrow> termios option \<Rightarrow> trace \<Rightarrow> trace" where
  "give_terminal_to jc pgid tmodes h =
     (if \<not> jc_interactive jc then h
      else (let h1 = emit (Tcsetpgrp (jc_terminal_fd jc) pgid) h
            in case tmodes of None \<Rightarrow> h1 | Some m \<Rightarrow> emit (Tcsetattr (jc_terminal_fd jc) m) h1))"

definition reclaim_terminal :: "JobControl \<Rightarrow> trace \<Rightarrow> trace" where
  "reclaim_terminal jc h =
     (if \<not> jc_interactive jc then h
      else h @ [Tcsetpgrp (jc_terminal_fd jc) (jc_shell_pgid jc),
                Tcsetattr (jc_terminal_fd jc) (jc_shell_terminal_modes jc)])"


section \<open>Reaping\<close>

partial_function (option) reap_loop :: "kernel \<Rightarrow> JobControl \<Rightarrow> trace \<Rightarrow> (JobControl \<times> trace) option" where
  "reap_loop K jc h =
     (let (r, h1) = syscall K (Waitpid (-1) [WNOHANG, WUNTRACED, WCONTINUED]) h
      in if 0 < ret r then reap_loop K (update_process (ret r) (wstatus r) jc) h1
         else if ret r = -1 \<and> errno r = EINTR then reap_loop K jc h1
         else Some (jc, h1))"

definition job_line :: "Job \<Rightarrow> string \<Rightarrow> string" where
  "job_line job what = ''['' @ to_string (job_id job) @ ''] '' @ what @ [tab] @ job_command job @ [newline]"

text \<open>
  The first loop of \<open>notify_and_cleanup_done_jobs\<close>: the updated jobs, the lines written and the
  identifiers collected in \<open>done_ids\<close>.
\<close>

fun notify_jobs :: "Job list \<Rightarrow> Job list \<times> syscall list \<times> int list" where
  "notify_jobs [] = ([], [], [])"
| "notify_jobs (job # jobs) =
     (let (js, ws, ds) = notify_jobs jobs
      in if \<not> job_state_changed job then (job # js, ws, ds)
         else if job_state job = JobState.Done then
           (job # js, WriteAll STDOUT_FILENO (job_line job ''Done'') # ws, job_id job # ds)
         else if job_state job = JobState.Stopped then
           (job\<lparr>job_state_changed := False\<rparr> # js,
            WriteAll STDOUT_FILENO (job_line job ''Stopped'') # ws, ds)
         else (job\<lparr>job_state_changed := False\<rparr> # js, ws, ds))"

definition notify_and_cleanup_done_jobs :: "JobControl \<Rightarrow> trace \<Rightarrow> JobControl \<times> trace" where
  "notify_and_cleanup_done_jobs jc h =
     (let (js, ws, done_ids) = notify_jobs (jc_jobs jc)
      in (jc\<lparr>jc_jobs := filter (\<lambda>job. job_id job \<notin> set done_ids) js\<rparr>, h @ ws))"

definition reap_background :: "kernel \<Rightarrow> bool \<Rightarrow> JobControl \<Rightarrow> trace \<Rightarrow> (JobControl \<times> trace) option" where
  "reap_background K notify jc h =
     Option.bind
       (if sigchld_pending jc then reap_loop K (jc\<lparr>sigchld_pending := False\<rparr>) h else Some (jc, h))
       (\<lambda>(jc1, h1). Some (if notify then notify_and_cleanup_done_jobs jc1 h1 else (jc1, h1)))"


section \<open>Foreground and background\<close>

partial_function (option) wait_loop ::
  "kernel \<Rightarrow> int \<Rightarrow> JobControl \<Rightarrow> trace \<Rightarrow> (JobControl \<times> trace) option" where
  "wait_loop K i jc h =
     (case find_job i jc of
        None \<Rightarrow> Some (jc, h)
      | Some job \<Rightarrow>
          if job_state job = JobState.Running then
            (let (r, h1) = syscall K (Waitpid (- job_pgid job) [WUNTRACED, WCONTINUED]) h
             in if 0 < ret r then wait_loop K i (update_process (ret r) (wstatus r) jc) h1
                else if ret r = -1 \<and> errno r = EINTR then wait_loop K i jc h1
                else if ret r = -1 then Some (jc, h1)
                else wait_loop K i jc h1)
          else Some (jc, h))"

declare await_foreground.simps [code] reap_loop.simps [code] wait_loop.simps [code]

text \<open>The part of \<open>wait_foreground\<close> after the waiting loop.\<close>

definition save_job_modes :: "kernel \<Rightarrow> int \<Rightarrow> JobControl \<Rightarrow> trace \<Rightarrow> JobControl \<times> trace" where
  "save_job_modes K i jc h =
     (case find_job i jc of
        None \<Rightarrow> (jc, h)
      | Some job \<Rightarrow>
          if jc_interactive jc \<and> job_state job = JobState.Stopped then
            (let (r, h1) = syscall K (Tcgetattr (jc_terminal_fd jc)) h
             in (if ret r = 0
                 then modify_job i (\<lambda>j. j\<lparr>job_terminal_modes := modes r, job_has_terminal_modes := True\<rparr>) jc
                 else jc, h1))
          else (jc, h))"

definition foreground_result :: "int \<Rightarrow> JobControl \<Rightarrow> trace \<Rightarrow> int \<times> JobControl \<times> trace" where
  "foreground_result i jc h =
     (case find_job i jc of
        None \<Rightarrow> (1, jc, h)
      | Some job \<Rightarrow>
          if job_state job = JobState.Stopped then
            ((if job_last_status job \<noteq> 0 then job_last_status job else 128 + SIGTSTP),
             modify_job i (\<lambda>j. j\<lparr>job_state_changed := False\<rparr>) jc,
             emit (WriteAll STDOUT_FILENO (job_line job ''Stopped'')) h)
          else if job_state job = JobState.Done then (job_last_status job, erase_job i jc, h)
          else (job_last_status job, jc, h))"

definition wait_foreground ::
  "kernel \<Rightarrow> int \<Rightarrow> bool \<Rightarrow> JobControl \<Rightarrow> trace \<Rightarrow> (int \<times> JobControl \<times> trace) option" where
  "wait_foreground K i continue_job jc h =
     (case find_job i jc of
        None \<Rightarrow> Some (1, jc, h)
      | Some job \<Rightarrow>
          (let h1 = give_terminal_to jc (job_pgid job)
                      (if job_has_terminal_modes job then Some (job_terminal_modes job) else None) h;
               jc1 = (if continue_job then modify_job i resume_records jc else jc);
               (killed, h2) = (if continue_job then syscall K (Kill (- job_pgid job) SIGCONT) h1
                               else (reply_ok, h1))
           in if continue_job \<and> ret killed = -1 then Some (1, jc1, reclaim_terminal jc1 h2)
              else Option.bind (wait_loop K i jc1 h2) (\<lambda>(jc2, h3).
                let (jc3, h4) = save_job_modes K i jc2 h3
                in Some (foreground_result i jc3 (reclaim_terminal jc3 h4)))))"

definition foreground ::
  "kernel \<Rightarrow> string \<Rightarrow> int \<Rightarrow> int \<Rightarrow> JobControl \<Rightarrow> trace \<Rightarrow> (int \<times> JobControl \<times> trace) option" where
  "foreground K spec output_fd error_fd jc h =
     Option.bind (reap_background K False jc h) (\<lambda>(jc1, h1).
       case resolve_job spec jc1 of
         None \<Rightarrow> Some (1, jc1, emit (WriteAll error_fd (''fg: no such job'' @ [newline])) h1)
       | Some job \<Rightarrow>
           if job_state job = JobState.Done
           then Some (1, jc1, emit (WriteAll error_fd (''fg: no such job'' @ [newline])) h1)
           else wait_foreground K (job_id job) (job_state job = JobState.Stopped) jc1
                  (emit (WriteAll output_fd (job_command job @ [newline])) h1))"

definition continue_background ::
  "kernel \<Rightarrow> string \<Rightarrow> int \<Rightarrow> int \<Rightarrow> JobControl \<Rightarrow> trace \<Rightarrow> (int \<times> JobControl \<times> trace) option" where
  "continue_background K spec output_fd error_fd jc h =
     Option.bind (reap_background K False jc h) (\<lambda>(jc1, h1).
       case resolve_job spec jc1 of
         None \<Rightarrow> Some (1, jc1, emit (WriteAll error_fd (''bg: no such job'' @ [newline])) h1)
       | Some job \<Rightarrow>
           if job_state job = JobState.Done
           then Some (1, jc1, emit (WriteAll error_fd (''bg: no such job'' @ [newline])) h1)
           else
             (let stopped = (job_state job = JobState.Stopped);
                  (r, h2) = (if stopped then syscall K (Kill (- job_pgid job) SIGCONT) h1
                             else (reply_ok, h1))
              in if stopped \<and> ret r = -1
                 then Some (1, jc1, emit (WriteAll error_fd (''bg: failed to continue job'' @ [newline])) h2)
                 else Some (0, (if stopped then modify_job (job_id job) resume_records jc1 else jc1),
                        emit (WriteAll output_fd
                          (''['' @ to_string (job_id job) @ ''] '' @ job_command job @ '' &'' @ [newline])) h2)))"

definition render_job :: "int \<Rightarrow> Job \<Rightarrow> string" where
  "render_job current_id job =
     ''['' @ to_string (job_id job) @ '']'' @ (if job_id job = current_id then ''+ '' else ''  '') @
     state_name (job_state job) @ [tab] @ job_command job @ [newline]"

definition render_jobs :: "JobControl \<Rightarrow> string" where
  "render_jobs jc =
     (let current_id = (case find (\<lambda>job. job_state job \<noteq> JobState.Done) (rev (jc_jobs jc)) of
                          None \<Rightarrow> -1 | Some job \<Rightarrow> job_id job)
      in concat (map (render_job current_id)
           (filter (\<lambda>job. job_state job \<noteq> JobState.Done) (jc_jobs jc))))"



section \<open>Signal handlers\<close>

lemma fold_install_handler:
  "fold ignore_signal ss h = h @ map (\<lambda>s. Sigaction s SIG_IGN) ss"
  "fold default_signal ss h = h @ map (\<lambda>s. Sigaction s SIG_DFL) ss"
  by (induction ss arbitrary: h)
    (simp_all add: ignore_signal_def default_signal_def install_handler_def emit_def)

lemmas reset_handlers_calls = reset_child_signal_handlers_def [unfolded fold_install_handler]
lemmas claim_terminal_calls = claim_terminal_def [unfolded fold_install_handler]


section \<open>Lists\<close>

lemma modify_first_list_all:
  "list_all Q xs \<Longrightarrow> (\<And>x. find P xs = Some x \<Longrightarrow> Q x \<Longrightarrow> Q (f x)) \<Longrightarrow> list_all Q (modify_first P f xs)"
  by (induction xs) auto

lemma modify_first_map:
  "(\<And>x. find P xs = Some x \<Longrightarrow> g (f x) = g x) \<Longrightarrow> map g (modify_first P f xs) = map g xs"
  by (induction xs) auto

lemma find_modify_first_same:
  "(\<And>x. P x \<Longrightarrow> P (f x)) \<Longrightarrow> find P (modify_first P f xs) = map_option f (find P xs)"
  by (induction xs) auto

lemma modify_first_Nil_iff [simp]: "modify_first P f xs = [] \<longleftrightarrow> xs = []"
  by (cases xs) auto

lemma find_SomeD: "find P xs = Some x \<Longrightarrow> x \<in> set xs \<and> P x"
  by (auto simp: find_Some_iff)


section \<open>The invariant of the job table\<close>

text \<open>The job state that a list of process records stands for.\<close>

definition processes_state :: "ProcessRecord list \<Rightarrow> JobState" where
  "processes_state ps =
     (if list_all (\<lambda>p. proc_state p = ProcessState.Done) ps then JobState.Done
      else if list_ex (\<lambda>p. proc_state p = ProcessState.Running) ps then JobState.Running
      else JobState.Stopped)"

definition job_wf :: "Job \<Rightarrow> bool" where
  "job_wf job \<longleftrightarrow> job_processes job \<noteq> [] \<and> job_state job = processes_state (job_processes job)"

definition jc_inv :: "JobControl \<Rightarrow> bool" where
  "jc_inv jc \<longleftrightarrow>
     list_all job_wf (jc_jobs jc) \<and> sorted_wrt (<) (map job_id (jc_jobs jc)) \<and>
     list_all (\<lambda>i. 0 < i \<and> i < jc_next_job_id jc) (map job_id (jc_jobs jc)) \<and> 0 < jc_next_job_id jc"

lemma recompute_state_state: "job_state (recompute_state job) = processes_state (job_processes job)"
proof -
  have "proc_state p = ProcessState.Running \<or> proc_state p = ProcessState.Stopped \<or>
    proc_state p = ProcessState.Done" for p :: ProcessRecord
    by (cases "proc_state p") auto
  then show ?thesis
    by (auto simp: recompute_state_def processes_state_def Let_def list_ex_iff list_all_iff)
qed

lemma recompute_state_fields [simp]:
  "job_id (recompute_state job) = job_id job" "job_processes (recompute_state job) = job_processes job"
  "job_pgid (recompute_state job) = job_pgid job" "job_last_pid (recompute_state job) = job_last_pid job"
  "job_last_status (recompute_state job) = job_last_status job"
  "job_command (recompute_state job) = job_command job"
  by (simp_all add: recompute_state_def Let_def)

lemma update_job_fields [simp]:
  "job_id (update_job pid st job) = job_id job" "job_pgid (update_job pid st job) = job_pgid job"
  "job_processes (update_job pid st job) =
     modify_first (\<lambda>p. proc_pid p = pid) (update_record st) (job_processes job)"
  by (simp_all add: update_job_def Let_def)

lemma update_job_wf: "job_processes job \<noteq> [] \<Longrightarrow> job_wf (update_job pid st job)"
  by (simp add: job_wf_def) (simp add: update_job_def Let_def recompute_state_state)

lemma job_wf_nonempty: "job_wf job \<Longrightarrow> job_processes job \<noteq> []"
  by (simp add: job_wf_def)

lemma resume_records_wf:
  assumes "job_wf job" "job_state job \<noteq> JobState.Done"
  shows "job_wf (resume_records job)"
proof -
  from assms obtain p where p: "p \<in> set (job_processes job)" "proc_state p \<noteq> ProcessState.Done"
    by (auto simp: job_wf_def processes_state_def list_all_iff split: if_splits)
  have g: "proc_state (resume_process p) = ProcessState.Running"
    using p(2) by (cases "proc_state p") (simp_all add: resume_process_def)
  have "processes_state (map resume_process (job_processes job)) = JobState.Running"
    using p(1) g by (auto simp: processes_state_def list_ex_iff list_all_iff intro!: bexI [of _ p])
  moreover have "job_processes job \<noteq> []" using p by auto
  ultimately show ?thesis by (simp add: job_wf_def resume_records_def)
qed

lemma resume_records_id [simp]: "job_id (resume_records job) = job_id job"
  by (simp add: resume_records_def)

lemma jc_inv_modify:
  assumes "jc_inv jc" "\<And>job. find P (jc_jobs jc) = Some job \<Longrightarrow> job_wf job \<Longrightarrow> job_wf (f job)"
    and "\<And>job. job_id (f job) = job_id job"
  shows "jc_inv (jc\<lparr>jc_jobs := modify_first P f (jc_jobs jc)\<rparr>)"
proof -
  have "list_all job_wf (modify_first P f (jc_jobs jc))"
    using assms(1,2) by (intro modify_first_list_all) (auto simp: jc_inv_def)
  moreover have "map job_id (modify_first P f (jc_jobs jc)) = map job_id (jc_jobs jc)"
    using assms(3) by (intro modify_first_map)
  ultimately show ?thesis using assms(1) by (simp add: jc_inv_def)
qed

lemma sorted_ids_filter:
  "sorted_wrt (<) (map job_id js) \<Longrightarrow> sorted_wrt (<) (map job_id (filter P js))"
  by (induction js) auto

lemma jc_inv_filter: "jc_inv jc \<Longrightarrow> jc_inv (jc\<lparr>jc_jobs := filter P (jc_jobs jc)\<rparr>)"
  by (auto simp: jc_inv_def list_all_iff sorted_ids_filter)

lemma jc_inv_update_process [intro]: "jc_inv jc \<Longrightarrow> jc_inv (update_process pid st jc)"
  unfolding update_process_def by (rule jc_inv_modify) (simp_all add: update_job_wf job_wf_nonempty)

lemma jc_inv_erase [intro]: "jc_inv jc \<Longrightarrow> jc_inv (erase_job i jc)"
  unfolding erase_job_def by (rule jc_inv_filter)

lemma jc_inv_sigchld [simp]: "jc_inv (jc\<lparr>sigchld_pending := b\<rparr>) = jc_inv jc"
  by (simp add: jc_inv_def)

lemma jc_inv_resume:
  assumes "jc_inv jc" "find_job i jc = Some job" "job_state job \<noteq> JobState.Done"
  shows "jc_inv (modify_job i resume_records jc)"
  unfolding modify_job_def using assms
  by (intro jc_inv_modify) (auto simp: find_job_def resume_records_wf)

lemma jc_inv_find: "jc_inv jc \<Longrightarrow> find_job i jc = Some job \<Longrightarrow> job_wf job \<and> job_id job = i"
  by (auto simp: jc_inv_def find_job_def list_all_iff dest!: find_SomeD)

lemma sorted_less_distinct: "sorted_wrt (<) (xs :: int list) \<Longrightarrow> distinct xs"
  by (simp add: strict_sorted_iff)

lemma jc_inv_mem_find:
  assumes "jc_inv jc" "job \<in> set (jc_jobs jc)"
  shows "find_job (job_id job) jc = Some job"
proof -
  have "distinct (map job_id (jc_jobs jc))" using assms(1) by (simp add: jc_inv_def sorted_less_distinct)
  moreover have "distinct (map job_id js) \<Longrightarrow> job \<in> set js \<Longrightarrow> find (\<lambda>j. job_id j = job_id job) js = Some job" for js
  proof (induction js)
    case (Cons j js)
    show ?case
    proof (cases "job = j")
      case False
      with Cons.prems have "job_id job \<in> job_id ` set js" by simp
      with Cons.prems have "job_id j \<noteq> job_id job" by auto
      with Cons False show ?thesis by simp
    qed simp
  qed simp
  ultimately show ?thesis using assms(2) by (simp add: find_job_def)
qed

lemma jc_inv_add:
  assumes "jc_inv jc" "pids \<noteq> []"
  shows "jc_inv (snd (add_job pgid pids lp cmd jc))"
proof -
  have "processes_state (map (\<lambda>pid. \<lparr>proc_pid = pid, proc_state = ProcessState.Running,
      proc_wait_status = 0\<rparr>) pids) = JobState.Running"
    using assms(2) by (cases pids) (simp_all add: processes_state_def)
  with assms show ?thesis
    by (auto simp: add_job_def jc_inv_def job_wf_def sorted_wrt_append list_all_iff Let_def)
qed

lemma resolve_job_mem:
  assumes "resolve_job spec jc = Some job"
  shows "job \<in> set (jc_jobs jc)"
  using assms by (auto simp: resolve_job_def find_job_def split: option.splits if_splits dest!: find_SomeD)


section \<open>Frames: what an operation leaves alone\<close>

definition same_shell :: "JobControl \<Rightarrow> JobControl \<Rightarrow> bool" where
  "same_shell jc jc' \<longleftrightarrow>
     jc_interactive jc' = jc_interactive jc \<and> jc_terminal_fd jc' = jc_terminal_fd jc \<and>
     jc_shell_pgid jc' = jc_shell_pgid jc \<and> jc_shell_terminal_modes jc' = jc_shell_terminal_modes jc"

lemma same_shell_refl [simp]: "same_shell jc jc"
  by (simp add: same_shell_def)

lemma same_shell_trans: "same_shell a b \<Longrightarrow> same_shell b c \<Longrightarrow> same_shell a c"
  by (simp add: same_shell_def)

lemma same_shell_ops [simp]:
  "same_shell jc (update_process pid st jc)" "same_shell jc (modify_job i f jc)"
  "same_shell jc (erase_job i jc)" "same_shell jc (jc\<lparr>jc_jobs := js\<rparr>)"
  "same_shell jc (jc\<lparr>sigchld_pending := b\<rparr>)" "same_shell jc (snd (add_job pgid pids lp cmd jc))"
  by (simp_all add: same_shell_def update_process_def modify_job_def erase_job_def add_job_def Let_def)

text \<open>The process group that owns the terminal \<open>fd\<close> after a trace, if the trace ever set it.\<close>

definition terminal_owner :: "int \<Rightarrow> trace \<Rightarrow> int option" where
  "terminal_owner fd h =
     foldl (\<lambda>own c. case c of Tcsetpgrp f p \<Rightarrow> if f = fd then Some p else own | _ \<Rightarrow> own) None h"

definition no_tcsetpgrp :: "trace \<Rightarrow> bool" where
  "no_tcsetpgrp h \<longleftrightarrow> list_all (\<lambda>c. case c of Tcsetpgrp _ _ \<Rightarrow> False | _ \<Rightarrow> True) h"

lemma terminal_owner_append:
  "no_tcsetpgrp cs \<Longrightarrow> terminal_owner fd (h @ cs) = terminal_owner fd h"
proof (induction cs rule: rev_induct)
  case (snoc c cs)
  then show ?case by (cases c) (auto simp: terminal_owner_def no_tcsetpgrp_def)
qed simp

lemma terminal_owner_reclaim:
  "jc_interactive jc \<Longrightarrow> terminal_owner (jc_terminal_fd jc) (reclaim_terminal jc h) = Some (jc_shell_pgid jc)"
  by (simp add: reclaim_terminal_def terminal_owner_def)



section \<open>Rules for the waiting loops\<close>

text \<open>
  \<open>closed_wait K i I\<close>: one round of the foreground loop for job \<open>i\<close> keeps \<open>I\<close>; a report of
  \<open>waitpid\<close> is applied to the table, any other answer leaves the table alone.
\<close>

definition closed_call :: "kernel \<Rightarrow> syscall \<Rightarrow> (JobControl \<Rightarrow> trace \<Rightarrow> bool) \<Rightarrow> JobControl \<Rightarrow> trace \<Rightarrow> bool" where
  "closed_call K c I jc h \<longleftrightarrow>
     (if 0 < ret (K h c) then I (update_process (ret (K h c)) (wstatus (K h c)) jc) (h @ [c])
      else I jc (h @ [c]))"

abbreviation (input) fg_call :: "Job \<Rightarrow> syscall" where
  "fg_call job \<equiv> Waitpid (- job_pgid job) [WUNTRACED, WCONTINUED]"

abbreviation (input) reap_call :: syscall where
  "reap_call \<equiv> Waitpid (-1) [WNOHANG, WUNTRACED, WCONTINUED]"

definition closed_wait :: "kernel \<Rightarrow> int \<Rightarrow> (JobControl \<Rightarrow> trace \<Rightarrow> bool) \<Rightarrow> bool" where
  "closed_wait K i I \<longleftrightarrow>
     (\<forall>jc h job. I jc h \<longrightarrow> find_job i jc = Some job \<longrightarrow> closed_call K (fg_call job) I jc h)"

definition closed_reap :: "kernel \<Rightarrow> (JobControl \<Rightarrow> trace \<Rightarrow> bool) \<Rightarrow> bool" where
  "closed_reap K I \<longleftrightarrow> (\<forall>jc h. I jc h \<longrightarrow> closed_call K reap_call I jc h)"

text \<open>When the foreground loop ends: the job is gone, no longer running, or \<open>waitpid\<close> has failed.\<close>

definition wait_ended :: "kernel \<Rightarrow> int \<Rightarrow> JobControl \<Rightarrow> trace \<Rightarrow> bool" where
  "wait_ended K i jc h \<longleftrightarrow>
     (case find_job i jc of None \<Rightarrow> True
      | Some job \<Rightarrow> job_state job \<noteq> JobState.Running \<or>
          (\<exists>h0. h = h0 @ [fg_call job] \<and> ret (K h0 (fg_call job)) = -1))"

lemma wait_loop_rule:
  assumes "wait_loop K i jc h = Some (jc', h')" "I jc h" "closed_wait K i I"
  shows "I jc' h'" "wait_ended K i jc' h'"
proof -
  have "closed_wait K i I \<longrightarrow> I jc h \<longrightarrow> I (fst (jc', h')) (snd (jc', h')) \<and> wait_ended K i (fst (jc', h')) (snd (jc', h'))"
  proof (rule wait_loop.raw_induct [where P = "\<lambda>K i jc h r. closed_wait K i I \<longrightarrow> I jc h \<longrightarrow>
        I (fst r) (snd r) \<and> wait_ended K i (fst r) (snd r)", OF _ assms(1)], intro impI)
    fix f K i jc h r
    assume IH: "\<And>K i jc h r. f K i jc h = Some r \<Longrightarrow>
        closed_wait K i I \<longrightarrow> I jc h \<longrightarrow> I (fst r) (snd r) \<and> wait_ended K i (fst r) (snd r)"
      and body: "(case find_job i jc of None \<Rightarrow> Some (jc, h)
        | Some job \<Rightarrow>
          if job_state job = JobState.Running then
            (let (q, h1) = syscall K (fg_call job) h
             in if 0 < ret q then f K i (update_process (ret q) (wstatus q) jc) h1
                else if ret q = -1 \<and> errno q = EINTR then f K i jc h1
                else if ret q = -1 then Some (jc, h1) else f K i jc h1)
          else Some (jc, h)) = Some r"
      and cl: "closed_wait K i I" and I: "I jc h"
    show "I (fst r) (snd r) \<and> wait_ended K i (fst r) (snd r)"
    proof (cases "\<exists>job. find_job i jc = Some job \<and> job_state job = JobState.Running")
      case False
      with body I show ?thesis by (auto simp: wait_ended_def split: option.splits)
    next
      case True
      then obtain job where job: "find_job i jc = Some job" "job_state job = JobState.Running" by blast
      define c where "c = fg_call job"
      have step: "closed_call K c I jc h"
        using cl I job unfolding closed_wait_def c_def by blast
      have "(if 0 < ret (K h c) then f K i (update_process (ret (K h c)) (wstatus (K h c)) jc) (h @ [c])
          else if ret (K h c) = -1 \<and> errno (K h c) = EINTR then f K i jc (h @ [c])
          else if ret (K h c) = -1 then Some (jc, h @ [c]) else f K i jc (h @ [c])) = Some r"
        using body job unfolding c_def by (simp add: syscall_def split del: if_split)
      then consider
        "0 < ret (K h c)" "f K i (update_process (ret (K h c)) (wstatus (K h c)) jc) (h @ [c]) = Some r"
        | "\<not> 0 < ret (K h c)" "f K i jc (h @ [c]) = Some r"
        | "\<not> 0 < ret (K h c)" "ret (K h c) = -1" "r = (jc, h @ [c])"
        by (metis option.inject)
      then show ?thesis
      proof cases
        case 1
        from IH [OF 1(2)] cl step 1(1) show ?thesis by (simp add: closed_call_def)
      next
        case 2
        from IH [OF 2(2)] cl step 2(1) show ?thesis by (simp add: closed_call_def)
      next
        case 3
        with step job show ?thesis by (simp add: wait_ended_def closed_call_def c_def)
      qed
    qed
  qed
  with assms(2,3) show "I jc' h'" "wait_ended K i jc' h'" by simp_all
qed

lemma reap_loop_rule:
  assumes "reap_loop K jc h = Some (jc', h')" "I jc h" "closed_reap K I"
  shows "I jc' h'"
proof -
  have "closed_reap K I \<longrightarrow> I jc h \<longrightarrow> I (fst (jc', h')) (snd (jc', h'))"
  proof (rule reap_loop.raw_induct [where P = "\<lambda>K jc h r. closed_reap K I \<longrightarrow> I jc h \<longrightarrow> I (fst r) (snd r)",
        OF _ assms(1)], intro impI)
    fix f K jc h r
    assume IH: "\<And>K jc h r. f K jc h = Some r \<Longrightarrow> closed_reap K I \<longrightarrow> I jc h \<longrightarrow> I (fst r) (snd r)"
      and cl: "closed_reap K I" and I: "I jc h"
      and body: "(let (q, h1) = syscall K reap_call h
        in if 0 < ret q then f K (update_process (ret q) (wstatus q) jc) h1
           else if ret q = -1 \<and> errno q = EINTR then f K jc h1 else Some (jc, h1)) = Some r"
    define c where "c = reap_call"
    have step: "closed_call K c I jc h"
      using cl I unfolding closed_reap_def c_def by blast
    have "(if 0 < ret (K h c) then f K (update_process (ret (K h c)) (wstatus (K h c)) jc) (h @ [c])
        else if ret (K h c) = -1 \<and> errno (K h c) = EINTR then f K jc (h @ [c])
        else Some (jc, h @ [c])) = Some r"
      using body unfolding c_def by (simp add: syscall_def split del: if_split)
    then consider
        "0 < ret (K h c)" "f K (update_process (ret (K h c)) (wstatus (K h c)) jc) (h @ [c]) = Some r"
      | "\<not> 0 < ret (K h c)" "f K jc (h @ [c]) = Some r" | "\<not> 0 < ret (K h c)" "r = (jc, h @ [c])"
      by (metis option.inject)
    then show "I (fst r) (snd r)"
    proof cases
      case 1
      from IH [OF 1(2)] cl step 1(1) show ?thesis by (simp add: closed_call_def)
    next
      case 2
      from IH [OF 2(2)] cl step 2(1) show ?thesis by (simp add: closed_call_def)
    next
      case 3
      with step show ?thesis by (simp add: closed_call_def)
    qed
  qed
  with assms(2,3) show ?thesis by simp
qed

end
