(* ===== verification/Job_Sessions.thy ===== *)
theory Job_Sessions
  imports Job_Control
begin

text \<open>
  What every operation of the job table keeps: the table invariant, the identity of the shell and
  the ownership of the terminal. The interface that the executor relies on is the locale
  \<open>job_table\<close>; sequences of operations are the inductive relation \<open>jc_reach\<close>.
\<close>

section \<open>The session invariant\<close>

text \<open>
  Between operations the table is well formed and, in an interactive shell, the last
  \<open>tcsetpgrp\<close> on the terminal gave it to the shell's own process group.
\<close>

definition session_ok :: "JobControl \<Rightarrow> trace \<Rightarrow> bool" where
  "session_ok jc h \<longleftrightarrow>
     jc_inv jc \<and>
     (jc_interactive jc \<longrightarrow> terminal_owner (jc_terminal_fd jc) h = Some (jc_shell_pgid jc))"

lemma same_shell_simps:
  assumes "same_shell jc jc'"
  shows "jc_interactive jc' = jc_interactive jc" "jc_terminal_fd jc' = jc_terminal_fd jc"
    "jc_shell_pgid jc' = jc_shell_pgid jc" "jc_shell_terminal_modes jc' = jc_shell_terminal_modes jc"
  using assms by (simp_all add: same_shell_def)

lemma session_ok_quiet:
  "session_ok jc h \<Longrightarrow> no_tcsetpgrp cs \<Longrightarrow> session_ok jc (h @ cs)"
  by (simp add: session_ok_def terminal_owner_append)

lemma session_ok_table:
  "session_ok jc h \<Longrightarrow> same_shell jc jc' \<Longrightarrow> jc_inv jc' \<Longrightarrow> session_ok jc' h"
  by (simp add: session_ok_def same_shell_simps)

lemma session_ok_emit:
  "session_ok jc h \<Longrightarrow> no_tcsetpgrp [c] \<Longrightarrow> session_ok jc (emit c h)"
  by (simp add: emit_def session_ok_quiet)

lemma session_ok_inv: "session_ok jc h \<Longrightarrow> jc_inv jc"
  by (simp add: session_ok_def)

lemma session_ok_reclaim: "jc_inv jc \<Longrightarrow> session_ok jc (reclaim_terminal jc h)"
  by (simp add: session_ok_def terminal_owner_reclaim)

lemma no_tcsetpgrp_simps [simp]:
  "no_tcsetpgrp []" "no_tcsetpgrp (WriteAll fd s # cs) = no_tcsetpgrp cs"
  "no_tcsetpgrp (Waitpid p fl # cs) = no_tcsetpgrp cs" "no_tcsetpgrp (Kill p sg # cs) = no_tcsetpgrp cs"
  "no_tcsetpgrp (Tcgetattr fd # cs) = no_tcsetpgrp cs" "no_tcsetpgrp (Close fd # cs) = no_tcsetpgrp cs"
  "no_tcsetpgrp (MkPipe # cs) = no_tcsetpgrp cs" "no_tcsetpgrp (Fork i # cs) = no_tcsetpgrp cs"
  "no_tcsetpgrp (Setpgid p g # cs) = no_tcsetpgrp cs" "no_tcsetpgrp (Open nm ofl md # cs) = no_tcsetpgrp cs"
  "no_tcsetpgrp (as @ cs) \<longleftrightarrow> no_tcsetpgrp as \<and> no_tcsetpgrp cs"
  by (simp_all add: no_tcsetpgrp_def)


section \<open>Every operation keeps the session invariant\<close>

lemma jc_inv_modify_quiet:
  assumes "jc_inv jc"
    and "\<And>j. job_id (f j) = job_id j" "\<And>j. job_processes (f j) = job_processes j"
    and "\<And>j. job_state (f j) = job_state j"
  shows "jc_inv (modify_job i f jc)"
  unfolding modify_job_def using assms by (intro jc_inv_modify) (simp_all add: job_wf_def)

lemma wait_loop_session:
  assumes "wait_loop K i jc h = Some (jc', h')" "jc_inv jc"
  shows "jc_inv jc' \<and> same_shell jc jc'" "wait_ended K i jc' h'"
proof -
  have closed: "closed_wait K i (\<lambda>jc' h'. jc_inv jc' \<and> same_shell jc jc')"
    unfolding closed_wait_def closed_call_def
    by (auto intro: same_shell_trans same_shell_ops)
  show "jc_inv jc' \<and> same_shell jc jc'"
    using wait_loop_rule(1) [OF assms(1) _ closed] assms(2) by simp
  show "wait_ended K i jc' h'"
    using wait_loop_rule(2) [OF assms(1) _ closed] assms(2) by simp
qed

lemma session_ok_update:
  "session_ok jc h \<Longrightarrow> no_tcsetpgrp cs \<Longrightarrow> session_ok (update_process pid st jc) (h @ cs)"
  by (rule session_ok_table [OF session_ok_quiet]) (auto intro: session_ok_inv)

lemma reap_loop_session:
  assumes "reap_loop K jc h = Some (jc', h')" "session_ok jc h"
  shows "session_ok jc' h'" "same_shell jc jc'"
proof -
  have "closed_reap K (\<lambda>jc' h'. session_ok jc' h' \<and> same_shell jc jc')"
    unfolding closed_reap_def closed_call_def
    by (auto simp: session_ok_quiet session_ok_update intro: same_shell_trans same_shell_ops)
  from reap_loop_rule [OF assms(1) _ this] assms(2)
  show "session_ok jc' h'" "same_shell jc jc'" by simp_all
qed

lemma save_job_modes_inv:
  assumes "save_job_modes K i jc h = (jc', h')" "jc_inv jc"
  shows "jc_inv jc'" "same_shell jc jc'"
  using assms
  by (auto simp: save_job_modes_def syscall_def split: option.splits if_splits
      intro!: jc_inv_modify_quiet)

lemma foreground_result_session:
  assumes "foreground_result i jc h = (r, jc', h')" "session_ok jc h"
  shows "session_ok jc' h'" "same_shell jc jc'"
proof -
  have q: "session_ok jc'' h" if "same_shell jc jc''" "jc_inv jc''" for jc''
    using assms(2) that by (rule session_ok_table)
  have inv: "jc_inv jc" using assms(2) by (rule session_ok_inv)
  have "jc_inv (modify_job i (\<lambda>j. j\<lparr>job_state_changed := False\<rparr>) jc)"
    by (rule jc_inv_modify_quiet [OF inv]) simp_all
  then show "session_ok jc' h'" "same_shell jc jc'"
    using assms inv q [of "modify_job i (\<lambda>j. j\<lparr>job_state_changed := False\<rparr>) jc"] q [of "erase_job i jc"]
    by (auto simp: foreground_result_def session_ok_emit jc_inv_erase split: option.splits if_splits)
qed

lemma jc_inv_resume_if:
  assumes "jc_inv jc" "find_job i jc = Some job" "b \<longrightarrow> job_state job \<noteq> JobState.Done"
  shows "jc_inv (if b then modify_job i resume_records jc else jc)"
  using assms jc_inv_resume by auto

text \<open>The two ways in which a wait for an existing job ends: \<open>SIGCONT\<close> failed, or the loop ended.\<close>

lemma wait_foreground_cases:
  assumes "wait_foreground K i b jc h = Some (r, jc', h')" "find_job i jc = Some job"
    and "jc1 = (if b then modify_job i resume_records jc else jc)"
  obtains (killed) h2 where "b" "r = 1" "jc' = jc1" "h' = reclaim_terminal jc1 h2"
  | (waited) h2 jc2 h3 jc3 h4 where "wait_loop K i jc1 h2 = Some (jc2, h3)"
      "save_job_modes K i jc2 h3 = (jc3, h4)"
      "foreground_result i jc3 (reclaim_terminal jc3 h4) = (r, jc', h')"
      "h2 = give_terminal_to jc (job_pgid job)
         (if job_has_terminal_modes job then Some (job_terminal_modes job) else None) h @
         (if b then [Kill (- job_pgid job) SIGCONT] else [])"
proof -
  define h1 where "h1 = give_terminal_to jc (job_pgid job)
      (if job_has_terminal_modes job then Some (job_terminal_modes job) else None) h"
  define c where "c = Kill (- job_pgid job) SIGCONT"
  define h2 where "h2 = (if b then h1 @ [c] else h1)"
  have eq: "(if b \<and> ret (K h1 c) = -1 then Some (1, jc1, reclaim_terminal jc1 h2)
      else Option.bind (wait_loop K i jc1 h2) (\<lambda>(jc2, h3).
                let (jc3, h4) = save_job_modes K i jc2 h3
                in Some (foreground_result i jc3 (reclaim_terminal jc3 h4)))) = Some (r, jc', h')"
    using assms
    by (cases b) (simp_all add: wait_foreground_def Let_def h1_def h2_def c_def syscall_def split del: if_split cong: if_cong)
  show thesis
  proof (cases "b \<and> ret (K h1 c) = -1")
    case True
    with eq show thesis by (intro killed [of h2]) auto
  next
    case False
    with eq obtain jc2 h3 where "wait_loop K i jc1 h2 = Some (jc2, h3)"
      "(let (jc3, h4) = save_job_modes K i jc2 h3
        in Some (foreground_result i jc3 (reclaim_terminal jc3 h4))) = Some (r, jc', h')"
      by (auto simp: bind_eq_Some_conv)
    then show thesis
      by (cases "save_job_modes K i jc2 h3") (auto intro!: waited simp: h1_def h2_def c_def)
  qed
qed

lemma wait_foreground_session:
  assumes "wait_foreground K i b jc h = Some (r, jc', h')" "session_ok jc h"
    and "\<And>job. find_job i jc = Some job \<Longrightarrow> b \<Longrightarrow> job_state job \<noteq> JobState.Done"
  shows "session_ok jc' h'" "same_shell jc jc'"
proof -
  have inv: "jc_inv jc" using assms(2) by (rule session_ok_inv)
  have "session_ok jc' h' \<and> same_shell jc jc'"
  proof (cases "find_job i jc")
    case None
    with assms show ?thesis by (simp add: wait_foreground_def)
  next
    case (Some job)
    define jc1 where "jc1 = (if b then modify_job i resume_records jc else jc)"
    have inv1: "jc_inv jc1" unfolding jc1_def using inv Some assms(3) [OF Some] by (intro jc_inv_resume_if) auto
    have sh1: "same_shell jc jc1" by (simp add: jc1_def)
    from assms(1) Some jc1_def show ?thesis
    proof (cases rule: wait_foreground_cases)
      case (killed h2)
      with inv1 sh1 show ?thesis by (simp add: session_ok_reclaim)
    next
      case (waited h2 jc2 h3 jc3 h4)
      have a: "jc_inv jc2" "same_shell jc1 jc2" using wait_loop_session(1) [OF waited(1) inv1] by auto
      have c: "jc_inv jc3" "same_shell jc2 jc3" using save_job_modes_inv [OF waited(2) a(1)] by auto
      have "session_ok jc3 (reclaim_terminal jc3 h4)" using c(1) by (rule session_ok_reclaim)
      with foreground_result_session [OF waited(3)] have "session_ok jc' h'" "same_shell jc3 jc'" by auto
      with a c sh1 show ?thesis by (blast intro: same_shell_trans)
    qed
  qed
  then show "session_ok jc' h'" "same_shell jc jc'" by auto
qed


lemma notify_jobs_eq:
  "notify_jobs js =
     (map (\<lambda>j. if job_state_changed j \<and> job_state j \<noteq> JobState.Done then j\<lparr>job_state_changed := False\<rparr> else j) js,
      map (\<lambda>j. WriteAll STDOUT_FILENO (job_line j (state_name (job_state j))))
        (filter (\<lambda>j. job_state_changed j \<and> job_state j \<noteq> JobState.Running) js),
      map job_id (filter (\<lambda>j. job_state_changed j \<and> job_state j = JobState.Done) js))"
proof (induction js)
  case (Cons j js)
  then show ?case by (cases "job_state j") simp_all
qed simp

lemma notify_session:
  assumes "notify_and_cleanup_done_jobs jc h = (jc', h')" "session_ok jc h"
  shows "session_ok jc' h'" "same_shell jc jc'"
proof -
  let ?f = "\<lambda>j :: Job. if job_state_changed j \<and> job_state j \<noteq> JobState.Done then j\<lparr>job_state_changed := False\<rparr> else j"
  have inv: "jc_inv (jc\<lparr>jc_jobs := map ?f (jc_jobs jc)\<rparr>)"
    using assms(2) by (auto simp: session_ok_def jc_inv_def job_wf_def list_all_iff comp_def if_distrib cong: if_cong)
  have quiet: "no_tcsetpgrp (map (\<lambda>j. WriteAll fd (f j)) js)" for f and js :: "Job list" and fd
    by (induction js) simp_all
  define ds where "ds = map job_id (filter (\<lambda>j. job_state_changed j \<and> job_state j = JobState.Done) (jc_jobs jc))"
  define ws where "ws = map (\<lambda>j. WriteAll STDOUT_FILENO (job_line j (state_name (job_state j))))
        (filter (\<lambda>j. job_state_changed j \<and> job_state j \<noteq> JobState.Running) (jc_jobs jc))"
  let ?P = "\<lambda>j. job_id j \<notin> set ds"
  have eq: "notify_and_cleanup_done_jobs jc h = (jc\<lparr>jc_jobs := filter ?P (map ?f (jc_jobs jc))\<rparr>, h @ ws)"
    unfolding notify_and_cleanup_done_jobs_def notify_jobs_eq ds_def ws_def Let_def prod.case ..
  have jc': "jc' = jc\<lparr>jc_jobs := filter ?P (map ?f (jc_jobs jc))\<rparr>" and h': "h' = h @ ws"
    using assms(1) unfolding eq prod.inject by simp_all
  have "no_tcsetpgrp ws" unfolding ws_def by (rule quiet)
  have "jc_inv jc'" using jc_inv_filter [OF inv, of ?P] unfolding jc' by simp
  then have "session_ok jc' h" unfolding jc' by (intro session_ok_table [OF assms(2)]) simp_all
  with \<open>no_tcsetpgrp ws\<close> show "session_ok jc' h'" unfolding h' by (intro session_ok_quiet)
  show "same_shell jc jc'" unfolding jc' by simp
qed

lemma session_ok_sigchld [simp]: "session_ok (jc\<lparr>sigchld_pending := b\<rparr>) h = session_ok jc h"
  by (simp add: session_ok_def)

lemma same_shell_sigchld [simp]: "same_shell (jc\<lparr>sigchld_pending := b\<rparr>) jc' = same_shell jc jc'"
  by (simp add: same_shell_def)

lemma reap_background_session:
  assumes "reap_background K notify jc h = Some (jc', h')" "session_ok jc h"
  shows "session_ok jc' h'" "same_shell jc jc'"
proof -
  obtain jc1 h1 where 1: "(if sigchld_pending jc then reap_loop K (jc\<lparr>sigchld_pending := False\<rparr>) h
      else Some (jc, h)) = Some (jc1, h1)"
    and 2: "(if notify then notify_and_cleanup_done_jobs jc1 h1 else (jc1, h1)) = (jc', h')"
    using assms(1) by (auto simp: reap_background_def bind_eq_Some_conv)
  have a: "session_ok jc1 h1" "same_shell jc jc1"
    using 1 assms(2) by (auto split: if_splits dest: reap_loop_session)
  then show "session_ok jc' h'" "same_shell jc jc'"
    using 2 by (auto split: if_splits dest: notify_session intro: same_shell_trans)
qed


lemma resolve_job_find:
  assumes "jc_inv jc" "resolve_job spec jc = Some job"
  shows "find_job (job_id job) jc = Some job"
  using assms by (blast intro: jc_inv_mem_find resolve_job_mem)

lemma foreground_session:
  assumes "foreground K spec out err jc h = Some (r, jc', h')" "session_ok jc h"
  shows "session_ok jc' h'" "same_shell jc jc'"
proof -
  obtain jc1 h1 where reap: "reap_background K False jc h = Some (jc1, h1)"
    and rest: "(case resolve_job spec jc1 of
         None \<Rightarrow> Some (1, jc1, emit (WriteAll err (''fg: no such job'' @ [newline])) h1)
       | Some job \<Rightarrow>
           if job_state job = JobState.Done
           then Some (1, jc1, emit (WriteAll err (''fg: no such job'' @ [newline])) h1)
           else wait_foreground K (job_id job) (job_state job = JobState.Stopped) jc1
                  (emit (WriteAll out (job_command job @ [newline])) h1)) = Some (r, jc', h')"
    using assms(1) unfolding foreground_def by (auto simp: bind_eq_Some_conv)
  have ok1: "session_ok jc1 h1" "same_shell jc jc1" using reap_background_session [OF reap assms(2)] by auto
  have out: "session_ok jc1 (emit (WriteAll fd s) h1)" for fd s by (simp add: session_ok_emit ok1)
  have "session_ok jc' h' \<and> same_shell jc1 jc'"
  proof (cases "\<exists>job. resolve_job spec jc1 = Some job \<and> job_state job \<noteq> JobState.Done")
    case False
    with rest out ok1 show ?thesis by (auto split: option.splits)
  next
    case True
    then obtain job where job: "resolve_job spec jc1 = Some job" "job_state job \<noteq> JobState.Done" by blast
    with ok1(1) have f: "find_job (job_id job) jc1 = Some job" by (blast intro: resolve_job_find session_ok_inv)
    from rest job have "wait_foreground K (job_id job) (job_state job = JobState.Stopped) jc1
        (emit (WriteAll out (job_command job @ [newline])) h1) = Some (r, jc', h')" by simp
    from wait_foreground_session [OF this out] f job(2) show ?thesis by auto
  qed
  with ok1(2) show "session_ok jc' h'" "same_shell jc jc'" by (auto intro: same_shell_trans)
qed

lemma continue_background_session:
  assumes "continue_background K spec out err jc h = Some (r, jc', h')" "session_ok jc h"
  shows "session_ok jc' h'" "same_shell jc jc'"
proof -
  obtain jc1 h1 where reap: "reap_background K False jc h = Some (jc1, h1)"
    using assms(1) unfolding continue_background_def by (auto simp: bind_eq_Some_conv)
  have ok1: "session_ok jc1 h1" "same_shell jc jc1" using reap_background_session [OF reap assms(2)] by auto
  have kill: "session_ok jc1 (h1 @ [Kill p s])" for p s by (simp add: session_ok_quiet ok1)
  have "jc_inv jc1" using ok1(1) by (rule session_ok_inv)
  then have "session_ok (modify_job (job_id job) resume_records jc1) (h1 @ [Kill p s])"
    if "resolve_job spec jc1 = Some job" "job_state job = JobState.Stopped" for job p s
    using that by (intro session_ok_table [OF kill]) (auto intro: jc_inv_resume resolve_job_find)
  then have "session_ok jc' h' \<and> same_shell jc1 jc'"
    using assms(1) ok1(1) kill unfolding continue_background_def reap
    by (auto simp: Let_def syscall_def session_ok_emit split: option.splits if_splits)
  with ok1(2) show "session_ok jc' h'" "same_shell jc jc'" by (auto intro: same_shell_trans)
qed

lemma add_job_session:
  assumes "session_ok jc h" "pids \<noteq> []"
  shows "session_ok (snd (add_job pgid pids lp cmd jc)) h"
  using assms by (intro session_ok_table [OF assms(1)] jc_inv_add) (auto intro: session_ok_inv)

lemma jc_inv_new [simp]: "jc_inv (jc_new b g m)"
  by (simp add: jc_inv_def jc_new_def)

lemma claim_terminal_session: "session_ok (fst (claim_terminal K h)) (snd (claim_terminal K h))"
  by (simp add: claim_terminal_calls session_ok_def syscall_def emit_def Let_def)
    (simp add: terminal_owner_def jc_new_def)

lemma job_control_init_session:
  assumes "job_control_init K h = Some (jc, h')"
  shows "session_ok jc h'"
proof -
  have "session_ok (jc_new False g m) h'" for g m by (simp add: session_ok_def) (simp add: jc_new_def)
  moreover have "session_ok jc h'" if "claim_terminal K h4 = (jc, h')" for h4
    using claim_terminal_session [of K h4] that by simp
  ultimately show ?thesis
    using assms by (auto simp: job_control_init_def syscall_def Let_def split: if_splits)
qed


section \<open>The interface of the job table\<close>

text \<open>
  What a client of the table relies on when it registers and looks up jobs.
  \<open>Job.make\<close>-style construction is left to the provider: the law lists the fields.
\<close>

locale job_table =
  fixes add :: "int \<Rightarrow> int list \<Rightarrow> int \<Rightarrow> string \<Rightarrow> 't \<Rightarrow> int \<times> 't"
    and lookup :: "int \<Rightarrow> 't \<Rightarrow> Job option"
    and invar :: "'t \<Rightarrow> bool"
  assumes add_invar: "invar t \<Longrightarrow> pids \<noteq> [] \<Longrightarrow> invar (snd (add pgid pids lp cmd t))"
    and add_fresh: "invar t \<Longrightarrow> lookup (fst (add pgid pids lp cmd t)) t = None"
    and add_found: "invar t \<Longrightarrow> add pgid pids lp cmd t = (i, t') \<Longrightarrow>
      \<exists>job. lookup i t' = Some job \<and> job_id job = i \<and> job_pgid job = pgid \<and>
        map proc_pid (job_processes job) = pids \<and> job_last_pid job = lp \<and>
        job_command job = cmd \<and> job_state job = JobState.Running"
    and add_other: "invar t \<Longrightarrow> add pgid pids lp cmd t = (i, t') \<Longrightarrow> j \<noteq> i \<Longrightarrow> lookup j t' = lookup j t"
begin

text \<open>Registering a list of launches one after the other.\<close>

fun add_all :: "(int \<times> int list \<times> int \<times> string) list \<Rightarrow> 't \<Rightarrow> int list \<times> 't" where
  "add_all [] t = ([], t)"
| "add_all ((pgid, pids, lp, cmd) # xs) t =
     (let (i, t1) = add pgid pids lp cmd t; (is, t2) = add_all xs t1 in (i # is, t2))"

lemma add_all_facts:
  assumes "invar t" "list_all (\<lambda>(_, pids, _, _). pids \<noteq> []) xs" "add_all xs t = (is, t')"
  shows "invar t' \<and> distinct is \<and> (\<forall>i \<in> set is. lookup i t = None \<and> lookup i t' \<noteq> None) \<and>
    (\<forall>j. lookup j t \<noteq> None \<longrightarrow> lookup j t' = lookup j t)"
  using assms
proof (induction xs arbitrary: t "is")
  case (Cons x xs)
  obtain pgid pids lp cmd where x: "x = (pgid, pids, lp, cmd)" by (cases x)
  obtain i t1 where a: "add pgid pids lp cmd t = (i, t1)" by (cases "add pgid pids lp cmd t")
  with Cons.prems x obtain js where js: "add_all xs t1 = (js, t')" "is = i # js"
    by (auto split: prod.splits)
  have inv: "invar t1" using add_invar [of t pids pgid lp cmd] Cons.prems x a by simp
  have IH: "invar t'" "distinct js" "\<forall>i \<in> set js. lookup i t1 = None \<and> lookup i t' \<noteq> None"
    "\<forall>j. lookup j t1 \<noteq> None \<longrightarrow> lookup j t' = lookup j t1"
    using Cons.IH [OF inv _ js(1)] Cons.prems x by auto
  have i: "lookup i t = None" "lookup i t1 \<noteq> None"
    using add_fresh [OF Cons.prems(1), of pgid pids lp cmd] add_found [OF Cons.prems(1) a] a by auto
  have other: "lookup j t1 = lookup j t" if "j \<noteq> i" for j using add_other [OF Cons.prems(1) a that] .
  show ?case
  proof (intro conjI ballI allI impI)
    show "distinct is" using IH(2,3) i js(2) by auto
    show "lookup j t = None" if "j \<in> set is" for j using that IH(3) i other js(2) by (cases "j = i") auto
    show "lookup j t' \<noteq> None" if "j \<in> set is" for j using that IH(3,4) i js(2) by auto
    show "lookup j t' = lookup j t" if "lookup j t \<noteq> None" for j
      using that IH(4) i other [of j] by (cases "j = i") auto
  qed (use IH(1) in simp)
qed simp

end

lemma find_snoc:
  "find P (xs @ [x]) = (case find P xs of Some y \<Rightarrow> Some y | None \<Rightarrow> if P x then Some x else None)"
  by (induction xs) auto

lemma find_job_append:
  "find_job i (jc\<lparr>jc_next_job_id := n, jc_jobs := jc_jobs jc @ [job]\<rparr>) =
     (case find_job i jc of Some j \<Rightarrow> Some j | None \<Rightarrow> if job_id job = i then Some job else None)"
  by (simp add: find_job_def find_snoc)

lemma find_job_fresh: "jc_inv jc \<Longrightarrow> find_job (jc_next_job_id jc) jc = None"
  by (auto simp: jc_inv_def find_job_def find_None_iff list_all_iff)

interpretation jt: job_table add_job find_job jc_inv
proof unfold_locales
  show "jc_inv (snd (add_job pgid pids lp cmd t))" if "jc_inv t" "pids \<noteq> []" for t pids pgid lp cmd
    using that by (rule jc_inv_add)
  show "find_job (fst (add_job pgid pids lp cmd t)) t = None" if "jc_inv t" for t pgid pids lp cmd
    using that by (simp add: add_job_def Let_def find_job_fresh)
  show "\<exists>job. find_job i t' = Some job \<and> job_id job = i \<and> job_pgid job = pgid \<and>
        map proc_pid (job_processes job) = pids \<and> job_last_pid job = lp \<and>
        job_command job = cmd \<and> job_state job = JobState.Running"
    if "jc_inv t" "add_job pgid pids lp cmd t = (i, t')" for t pgid pids lp cmd i t'
    using that by (auto simp: add_job_def Let_def find_job_append find_job_fresh comp_def)
  show "find_job j t' = find_job j t"
    if "jc_inv t" "add_job pgid pids lp cmd t = (i, t')" "j \<noteq> i" for t pgid pids lp cmd i t' j
    using that by (auto simp: add_job_def Let_def find_job_append split: option.splits)
qed


section \<open>Sequences of operations\<close>

text \<open>
  The job tables and traces a session can reach, for a kernel \<open>K\<close>. The shell starts with the
  constructor; a \<open>SIGCHLD\<close> may arrive between any two operations; a launch is the calls that start
  the processes of a pipeline (none of them \<open>tcsetpgrp\<close>) and \<open>add_job\<close>.
\<close>

inductive jc_reach :: "kernel \<Rightarrow> JobControl \<Rightarrow> trace \<Rightarrow> bool" for K where
  init: "job_control_init K h = Some (jc, h') \<Longrightarrow> jc_reach K jc h'"
| signal: "jc_reach K jc h \<Longrightarrow> jc_reach K (on_sigchld jc) h"
| other_calls: "jc_reach K jc h \<Longrightarrow> no_tcsetpgrp cs \<Longrightarrow> jc_reach K jc (h @ cs)"
| launch: "jc_reach K jc h \<Longrightarrow> pids \<noteq> [] \<Longrightarrow> jc_reach K (snd (add_job pgid pids lp cmd jc)) h"
| reap: "jc_reach K jc h \<Longrightarrow> reap_background K notify jc h = Some (jc', h') \<Longrightarrow> jc_reach K jc' h'"
| wait: "jc_reach K jc h \<Longrightarrow> wait_foreground K i False jc h = Some (r, jc', h') \<Longrightarrow> jc_reach K jc' h'"
| fg: "jc_reach K jc h \<Longrightarrow> foreground K spec out err jc h = Some (r, jc', h') \<Longrightarrow> jc_reach K jc' h'"
| bg: "jc_reach K jc h \<Longrightarrow> continue_background K spec out err jc h = Some (r, jc', h') \<Longrightarrow> jc_reach K jc' h'"

lemma jc_reach_session: "jc_reach K jc h \<Longrightarrow> session_ok jc h"
proof (induction rule: jc_reach.induct)
  case (signal jc h)
  then show ?case by (simp add: on_sigchld_def)
next
  case (wait jc h i r jc' h')
  then show ?case by (auto dest: wait_foreground_session)
qed (auto dest: job_control_init_session reap_background_session foreground_session
    continue_background_session intro: add_job_session session_ok_quiet)


section \<open>Reports of the kernel\<close>

text \<open>The process events that the kernel reported through \<open>waitpid\<close> during the calls \<open>cs\<close> issued after \<open>h\<close>.\<close>

fun wait_reports :: "kernel \<Rightarrow> trace \<Rightarrow> trace \<Rightarrow> (int \<times> 32 word) list" where
  "wait_reports K h [] = []"
| "wait_reports K h (c # cs) =
     (case c of
        Waitpid _ _ \<Rightarrow> (if 0 < ret (K h c) then [(ret (K h c), wstatus (K h c))] else [])
      | _ \<Rightarrow> []) @ wait_reports K (h @ [c]) cs"

definition apply_reports :: "(int \<times> 32 word) list \<Rightarrow> JobControl \<Rightarrow> JobControl" where
  "apply_reports evs jc = fold (\<lambda>(pid, st). update_process pid st) evs jc"

lemma wait_reports_append:
  "wait_reports K h (as @ cs) = wait_reports K h as @ wait_reports K (h @ as) cs"
  by (induction "as" arbitrary: h) (auto split: syscall.splits)

lemma apply_reports_append: "apply_reports (as @ bs) jc = apply_reports bs (apply_reports as jc)"
  by (simp add: apply_reports_def)

lemma find_job_update_process:
  "find_job i (update_process pid st jc) \<noteq> None \<longleftrightarrow> find_job i jc \<noteq> None"
proof -
  have "map job_id (jc_jobs (update_process pid st jc)) = map job_id (jc_jobs jc)"
    unfolding update_process_def by (simp add: modify_first_map)
  then have "job_id ` set (jc_jobs (update_process pid st jc)) = job_id ` set (jc_jobs jc)"
    by (metis set_map)
  moreover have "find_job i jc \<noteq> None \<longleftrightarrow> i \<in> job_id ` set (jc_jobs jc)" for jc
    by (auto simp: find_job_def find_None_iff)
  ultimately show ?thesis by simp
qed

text \<open>A loop that applies every report has applied, in the end, the reports of its whole trace.\<close>

definition reports_applied :: "kernel \<Rightarrow> JobControl \<Rightarrow> trace \<Rightarrow> JobControl \<Rightarrow> trace \<Rightarrow> bool" where
  "reports_applied K jc h jc' h' \<longleftrightarrow>
     (\<exists>cs. h' = h @ cs \<and> jc' = apply_reports (wait_reports K h cs) jc)"

lemma reports_applied_refl [simp]: "reports_applied K jc h jc h"
  by (simp add: reports_applied_def apply_reports_def)

lemma reports_applied_call:
  assumes "reports_applied K jc h jc' h'"
  shows "closed_call K (Waitpid p fl) (reports_applied K jc h) jc' h'"
proof -
  from assms obtain cs where "h' = h @ cs" "jc' = apply_reports (wait_reports K h cs) jc"
    by (auto simp: reports_applied_def)
  then show ?thesis
    by (auto simp: closed_call_def reports_applied_def wait_reports_append apply_reports_append
        apply_reports_def intro!: exI [of _ "cs @ [Waitpid p fl]"])
qed

lemma reap_loop_reports:
  "reap_loop K jc h = Some (jc', h') \<Longrightarrow> reports_applied K jc h jc' h'"
  by (erule reap_loop_rule) (simp_all add: closed_reap_def reports_applied_call)

lemma wait_loop_reports:
  "wait_loop K i jc h = Some (jc', h') \<Longrightarrow> reports_applied K jc h jc' h'"
  by (erule wait_loop_rule) (simp_all add: closed_wait_def reports_applied_call)



section \<open>The state of a job as a function of the reports\<close>

text \<open>The abstract view: each process is in the state its latest report says.\<close>

definition report_state :: "32 word \<Rightarrow> ProcessState \<Rightarrow> ProcessState" where
  "report_state st old =
     (if WIFEXITED st \<or> WIFSIGNALED st then ProcessState.Done
      else if WIFSTOPPED st then ProcessState.Stopped
      else if WIFCONTINUED st then ProcessState.Running else old)"

definition pid_state :: "(int \<times> 32 word) list \<Rightarrow> int \<Rightarrow> ProcessState" where
  "pid_state evs pid =
     fold (\<lambda>(p, st) s. if p = pid then report_state st s else s) evs ProcessState.Running"

definition pid_status :: "(int \<times> 32 word) list \<Rightarrow> int \<Rightarrow> int" where
  "pid_status evs pid =
     fold (\<lambda>(p, st) s. if p = pid \<and> \<not> WIFCONTINUED st then decode_wait_status st else s) evs 0"

definition state_of_pids :: "(int \<times> 32 word) list \<Rightarrow> int list \<Rightarrow> JobState" where
  "state_of_pids evs pids =
     (if \<forall>p \<in> set pids. pid_state evs p = ProcessState.Done then JobState.Done
      else if \<exists>p \<in> set pids. pid_state evs p = ProcessState.Running then JobState.Running
      else JobState.Stopped)"

text \<open>The job of the table that tracks the processes \<open>pids\<close> after the reports \<open>evs\<close>.\<close>

definition tracks :: "int list \<Rightarrow> int \<Rightarrow> (int \<times> 32 word) list \<Rightarrow> Job \<Rightarrow> bool" where
  "tracks pids lp evs job \<longleftrightarrow>
     map proc_pid (job_processes job) = pids \<and> job_last_pid job = lp \<and> lp \<in> set pids \<and>
     (\<forall>p \<in> set (job_processes job). proc_state p = pid_state evs (proc_pid p)) \<and>
     job_last_status job = pid_status evs lp"

lemma pid_state_snoc:
  "pid_state (evs @ [(p, st)]) pid = (if p = pid then report_state st (pid_state evs pid) else pid_state evs pid)"
  by (simp add: pid_state_def)

lemma pid_status_snoc:
  "pid_status (evs @ [(p, st)]) pid =
     (if p = pid \<and> \<not> WIFCONTINUED st then decode_wait_status st else pid_status evs pid)"
  by (simp add: pid_status_def)

lemma modify_first_distinct:
  assumes "distinct (map g xs)"
  shows "modify_first (\<lambda>x. g x = k) f xs = map (\<lambda>x. if g x = k then f x else x) xs"
  using assms
proof (induction xs)
  case (Cons x xs)
  show ?case
  proof (cases "g x = k")
    case True
    with Cons.prems have "map (\<lambda>y. if g y = k then f y else y) xs = xs"
      by (intro map_idI) (auto, metis image_eqI)
    with True show ?thesis by simp
  qed (use Cons in auto)
qed simp

lemma tracks_update:
  assumes "tracks pids lp evs job" "distinct pids"
  shows "tracks pids lp (evs @ [(p, st)]) (update_job p st job)"
proof -
  have "distinct (map proc_pid (job_processes job))" using assms by (simp add: tracks_def)
  from modify_first_distinct [OF this]
  have ps: "job_processes (update_job p st job) =
      map (\<lambda>x. if proc_pid x = p then update_record st x else x) (job_processes job)" by simp
  have "map proc_pid (job_processes (update_job p st job)) = pids"
    using assms(1) by (simp add: tracks_def modify_first_map update_record_def)
  moreover have "\<forall>x \<in> set (job_processes (update_job p st job)). proc_state x = pid_state (evs @ [(p, st)]) (proc_pid x)"
    unfolding ps
  proof
    fix x assume "x \<in> set (map (\<lambda>x. if proc_pid x = p then update_record st x else x) (job_processes job))"
    then obtain y where y: "y \<in> set (job_processes job)" "x = (if proc_pid y = p then update_record st y else y)"
      by auto
    with assms(1) have "proc_state y = pid_state evs (proc_pid y)" by (simp add: tracks_def)
    with y(2) show "proc_state x = pid_state (evs @ [(p, st)]) (proc_pid x)"
      by (simp add: pid_state_snoc update_record_def report_state_def)
  qed
  moreover have "job_last_pid (update_job p st job) = lp" "job_last_status (update_job p st job) = pid_status (evs @ [(p, st)]) lp"
    using assms(1) unfolding tracks_def by (simp_all add: update_job_def Let_def pid_status_snoc)
  moreover have "lp \<in> set pids" using assms(1) by (simp add: tracks_def)
  ultimately show ?thesis by (simp add: tracks_def)
qed

lemma tracks_state:
  assumes "tracks pids lp evs job" "job_wf job"
  shows "job_state job = state_of_pids evs pids"
proof -
  have "set pids = proc_pid ` set (job_processes job)" using assms(1) by (auto simp: tracks_def)
  then show ?thesis using assms
    by (auto simp: tracks_def job_wf_def processes_state_def state_of_pids_def list_all_iff list_ex_iff)
qed

text \<open>The table in which job \<open>i\<close> is the only one with one of the processes \<open>pids\<close>.\<close>

definition owns :: "int \<Rightarrow> int list \<Rightarrow> JobControl \<Rightarrow> bool" where
  "owns i pids jc \<longleftrightarrow>
     (\<forall>j \<in> set (jc_jobs jc). job_id j \<noteq> i \<longrightarrow> (\<forall>p \<in> set pids. \<not> has_process p j))"


lemma has_process_update [simp]: "has_process p (update_job q st job) = has_process p job"
proof -
  have "map proc_pid (job_processes (update_job q st job)) = map proc_pid (job_processes job)"
    by (simp add: modify_first_map update_record_def)
  moreover have "has_process p j \<longleftrightarrow> p \<in> set (map proc_pid (job_processes j))" for j
    by (auto simp: has_process_def list_ex_iff)
  ultimately show ?thesis by metis
qed

lemma find_modify_first_hit:
  assumes "find P xs = Some x" "find Q xs = Some x" "P (f x)"
  shows "find P (modify_first Q f xs) = Some (f x)"
  using assms
proof (induction xs)
  case (Cons y ys)
  then have "P x" "Q x" by (blast dest: find_SomeD)+
  with Cons show ?case by (cases "y = x") (auto split: if_splits)
qed simp

lemma find_modify_first_miss:
  assumes "find P xs = Some x" "\<not> Q x" "\<And>y. P (f y) = P y"
  shows "find P (modify_first Q f xs) = Some x"
  using assms(1,2)
proof (induction xs)
  case (Cons y ys)
  then show ?case by (cases "P y"; cases "Q y") (simp_all add: assms(3))
qed simp

lemma update_process_owned:
  assumes "jc_inv jc" "owns i pids jc" "find_job i jc = Some job" "tracks pids lp evs job" "distinct pids"
  shows "owns i pids (update_process p st jc)"
    "\<exists>job'. find_job i (update_process p st jc) = Some job' \<and> tracks pids lp (evs @ [(p, st)]) job'"
proof -
  show "owns i pids (update_process p st jc)"
  proof -
    have "list_all (\<lambda>j. job_id j \<noteq> i \<longrightarrow> (\<forall>p \<in> set pids. \<not> has_process p j)) (jc_jobs (update_process p st jc))"
      using assms(2) by (simp add: update_process_def modify_first_list_all owns_def list_all_iff [symmetric])
    then show ?thesis by (simp add: owns_def list_all_iff)
  qed
  have job: "job \<in> set (jc_jobs jc)" "job_id job = i"
    using assms(3) by (auto simp: find_job_def dest: find_SomeD)
  have pids: "has_process q job \<longleftrightarrow> q \<in> set pids" for q
    using assms(4) by (auto simp: tracks_def has_process_def list_ex_iff)
  show "\<exists>job'. find_job i (update_process p st jc) = Some job' \<and> tracks pids lp (evs @ [(p, st)]) job'"
  proof (cases "p \<in> set pids")
    case True
    have "find (has_process p) (jc_jobs jc) = Some job"
    proof -
      have "find (has_process p) (jc_jobs jc) \<noteq> None" using True pids job(1) by (auto simp: find_None_iff)
      then obtain j where j: "find (has_process p) (jc_jobs jc) = Some j" by auto
      then have "j \<in> set (jc_jobs jc)" "has_process p j" by (auto dest: find_SomeD)
      with True assms(2) have "job_id j = i" by (auto simp: owns_def)
      with jc_inv_mem_find [OF assms(1) \<open>j \<in> _\<close>] assms(3) j show ?thesis by simp
    qed
    from find_modify_first_hit [OF assms(3) [unfolded find_job_def] this, of "update_job p st"] job(2)
    have "find_job i (update_process p st jc) = Some (update_job p st job)"
      by (simp add: find_job_def update_process_def)
    then show ?thesis using tracks_update [OF assms(4,5)] by blast
  next
    case False
    then have np: "\<not> has_process p job" using pids by simp
    from find_modify_first_miss [OF assms(3) [unfolded find_job_def], of "has_process p" "update_job p st"]
    have "find_job i (update_process p st jc) = Some job"
      by (simp add: find_job_def update_process_def np)
    moreover have "tracks pids lp (evs @ [(p, st)]) job"
      using assms(4) False by (auto simp: tracks_def pid_state_snoc pid_status_snoc)
    ultimately show ?thesis by blast
  qed
qed


lemma apply_reports_owned:
  assumes "jc_inv jc" "owns i pids jc" "find_job i jc = Some job" "tracks pids lp [] job" "distinct pids"
  shows "jc_inv (apply_reports evs jc) \<and> owns i pids (apply_reports evs jc) \<and>
    (\<exists>job'. find_job i (apply_reports evs jc) = Some job' \<and> tracks pids lp evs job')"
proof (induction evs rule: rev_induct)
  case Nil
  then show ?case using assms by (simp add: apply_reports_def)
next
  case (snoc ev evs)
  obtain p st where ev: "ev = (p, st)" by (cases ev)
  from snoc obtain job' where *: "jc_inv (apply_reports evs jc)" "owns i pids (apply_reports evs jc)"
    "find_job i (apply_reports evs jc) = Some job'" "tracks pids lp evs job'" by blast
  have "apply_reports (evs @ [ev]) jc = update_process p st (apply_reports evs jc)"
    by (simp add: apply_reports_def ev)
  with update_process_owned [OF * assms(5), of p st] *(1) show ?case
    by (auto simp: ev)
qed

lemma add_job_tracked:
  assumes "jc_inv jc" "lp \<in> set pids" "add_job pgid pids lp cmd jc = (i, jc1)"
    and "\<forall>j \<in> set (jc_jobs jc). \<forall>p \<in> set pids. \<not> has_process p j"
  obtains job where "jc_inv jc1" "owns i pids jc1" "find_job i jc1 = Some job" "tracks pids lp [] job"
    "job_pgid job = pgid" "job_command job = cmd" "job_state job = JobState.Running" "job_id job = i"
    "\<not> job_has_terminal_modes job"
proof -
  have inv: "jc_inv jc1" using jc_inv_add [OF assms(1), of pids pgid lp cmd] assms(2,3) by fastforce
  define job where "job = last (jc_jobs jc1)"
  have job: "jc_jobs jc1 = jc_jobs jc @ [job]" "job_id job = i" "tracks pids lp [] job"
    "job_pgid job = pgid" "job_command job = cmd" "job_state job = JobState.Running"
    "\<not> job_has_terminal_modes job"
    using assms(2,3)
    by (auto simp: add_job_def Let_def job_def tracks_def comp_def pid_state_def pid_status_def)
  have "owns i pids jc1" using assms(4) job(1,2) by (auto simp: owns_def)
  moreover have "find_job i jc1 = Some job" using jc_inv_mem_find [OF inv, of job] job(1,2) by simp
  ultimately show thesis using that inv job by blast
qed

end
