(* ===== verification/Job_Theorems.thy ===== *)
theory Job_Theorems
  imports Job_Sessions
begin

text \<open>
  The promises of the job table, stated over the model of \<open>src/job_control.cpp\<close>: the session
  invariant on every reachable state, the outcome of a foreground wait as a function of the
  process events that the kernel reported, the end of the waiting loops, notification, the
  decoding of wait statuses and of job designators.
\<close>

section \<open>Calls other than waitpid\<close>

definition quiet_ext :: "trace \<Rightarrow> trace \<Rightarrow> bool" where
  "quiet_ext h h' \<longleftrightarrow> (\<exists>cs. h' = h @ cs \<and> list_all (\<lambda>c. \<not> is_waitpid c) cs)"

lemma quiet_ext_refl [simp]: "quiet_ext h h"
  by (simp add: quiet_ext_def)

lemma quiet_ext_trans: "quiet_ext a b \<Longrightarrow> quiet_ext b c \<Longrightarrow> quiet_ext a c"
  by (auto simp: quiet_ext_def)

lemma quiet_ext_snoc: "quiet_ext h h' \<Longrightarrow> \<not> is_waitpid c \<Longrightarrow> quiet_ext h (h' @ [c])"
  by (auto simp: quiet_ext_def)

text \<open>Some \<open>waitpid\<close> of the trace has failed.\<close>

definition wait_failed :: "kernel \<Rightarrow> trace \<Rightarrow> bool" where
  "wait_failed K h \<longleftrightarrow> (\<exists>h0 c rest. h = h0 @ c # rest \<and> is_waitpid c \<and> ret (K h0 c) = -1)"

lemma wait_failedI: "h = h0 @ c # rest \<Longrightarrow> is_waitpid c \<Longrightarrow> ret (K h0 c) = -1 \<Longrightarrow> wait_failed K h"
  unfolding wait_failed_def by blast

lemma wait_reports_quiet: "list_all (\<lambda>c. \<not> is_waitpid c) cs \<Longrightarrow> wait_reports K h cs = []"
  by (induction cs arbitrary: h) (auto simp: is_waitpid_def split: syscall.splits)

lemma give_terminal_quiet: "quiet_ext h (give_terminal_to jc g m h)"
  by (simp add: give_terminal_to_def emit_def Let_def quiet_ext_def is_waitpid_def split: option.splits)

lemma reclaim_quiet: "quiet_ext h (reclaim_terminal jc h)"
  by (auto simp: reclaim_terminal_def quiet_ext_def is_waitpid_def)

lemma save_job_modes_quiet:
  assumes "save_job_modes K i jc h = (jc', h')"
  shows "quiet_ext h h'"
    and "find_job i jc = Some job \<Longrightarrow> \<exists>m b. find_job i jc' = Some (job\<lparr>job_terminal_modes := m, job_has_terminal_modes := b\<rparr>)"
proof -
  show "quiet_ext h h'"
    using assms by (auto simp: save_job_modes_def syscall_def quiet_ext_snoc is_waitpid_def
        split: option.splits if_splits)
  have same: "find_job i (modify_job i f jc) = map_option f (find_job i jc)" if "\<And>j. job_id (f j) = job_id j" for f
    unfolding find_job_def modify_job_def JobControl.simps by (simp add: find_modify_first_same that)
  have self: "j\<lparr>job_terminal_modes := job_terminal_modes j, job_has_terminal_modes := job_has_terminal_modes j\<rparr> = j" for j :: Job
    by simp
  show "\<exists>m b. find_job i jc' = Some (job\<lparr>job_terminal_modes := m, job_has_terminal_modes := b\<rparr>)"
    if "find_job i jc = Some job"
    using assms that self [of job, symmetric]
    by (auto simp: save_job_modes_def syscall_def same split: if_splits) (metis self)+
qed

lemma reports_between:
  assumes "quiet_ext h h2" "reports_applied K jc h2 jc' h3" "quiet_ext h3 h4"
  shows "reports_applied K jc h jc' h4"
proof -
  obtain a b c where "h2 = h @ a" "list_all (\<lambda>c. \<not> is_waitpid c) a" "h3 = h2 @ b"
    "jc' = apply_reports (wait_reports K h2 b) jc" "h4 = h3 @ c" "list_all (\<lambda>c. \<not> is_waitpid c) c"
    using assms by (auto simp: quiet_ext_def reports_applied_def)
  then show ?thesis
    by (auto simp: reports_applied_def wait_reports_append wait_reports_quiet intro!: exI [of _ "a @ b @ c"])
qed


lemma foreground_result_cases:
  assumes "foreground_result i jc h = (r, jc', h')" "find_job i jc = Some job"
  shows "quiet_ext h h'"
    "job_state job = JobState.Done \<Longrightarrow> r = job_last_status job \<and> jc' = erase_job i jc"
    "job_state job = JobState.Running \<Longrightarrow> r = job_last_status job \<and> jc' = jc"
    "job_state job = JobState.Stopped \<Longrightarrow>
       r = (if job_last_status job \<noteq> 0 then job_last_status job else 148) \<and>
       find_job i jc' = Some (job\<lparr>job_state_changed := False\<rparr>)"
proof -
  have "find_job i (modify_job i (\<lambda>j. j\<lparr>job_state_changed := False\<rparr>) jc) = Some (job\<lparr>job_state_changed := False\<rparr>)"
    using assms(2) unfolding find_job_def modify_job_def JobControl.simps
    by (simp add: find_modify_first_same)
  with assms show "job_state job = JobState.Stopped \<Longrightarrow>
       r = (if job_last_status job \<noteq> 0 then job_last_status job else 148) \<and>
       find_job i jc' = Some (job\<lparr>job_state_changed := False\<rparr>)"
    by (auto simp: foreground_result_def)
qed (use assms in \<open>auto simp: foreground_result_def emit_def quiet_ext_snoc is_waitpid_def split: if_splits\<close>)

lemma find_erased [simp]: "find_job i (erase_job i jc) = None"
  by (simp add: find_job_def erase_job_def find_None_iff)

text \<open>
  The outcome of a wait for job \<open>i\<close> that ended with the job in state \<open>st\<close> and with the status \<open>ls\<close> of
  its last process: the result \<open>r\<close> and what is left of the job in the table.
\<close>

definition wait_outcome ::
  "kernel \<Rightarrow> int \<Rightarrow> JobState \<Rightarrow> int \<Rightarrow> int \<Rightarrow> JobControl \<Rightarrow> trace \<Rightarrow> bool" where
  "wait_outcome K i st ls r jc' h' \<longleftrightarrow>
     (case st of
        JobState.Done \<Rightarrow> r = ls \<and> find_job i jc' = None
      | JobState.Stopped \<Rightarrow> r = (if ls \<noteq> 0 then ls else 148) \<and>
          (\<exists>job. find_job i jc' = Some job \<and> job_state job = JobState.Stopped \<and> \<not> job_state_changed job)
      | JobState.Running \<Rightarrow> r = ls \<and>
          (\<exists>job. find_job i jc' = Some job \<and> job_state job = JobState.Running) \<and> wait_failed K h')"

text \<open>
  Waiting for a job that is running: the reports that arrived are all applied, and the outcome
  is read off the resulting job.
\<close>

lemma wait_foreground_reports:
  assumes "wait_foreground K i False jc h = Some (r, jc', h')" "find_job i jc = Some job" "jc_inv jc"
  obtains jc2 job2 where "reports_applied K jc h jc2 h'" "find_job i jc2 = Some job2"
    "wait_outcome K i (job_state job2) (job_last_status job2) r jc' h'"
  using assms(1,2) refl
proof (cases rule: wait_foreground_cases)
  case (waited h2 jc2 h3 jc3 h4)
  have w: "wait_loop K i jc h2 = Some (jc2, h3)" using waited(1) by simp
  have rep: "reports_applied K jc h2 jc2 h3" using wait_loop_reports [OF w] .
  then obtain cs where "jc2 = apply_reports (wait_reports K h2 cs) jc" by (auto simp: reports_applied_def)
  moreover have "find_job i (apply_reports evs jc) \<noteq> None" for evs
    using assms(2)
    by (induction evs rule: rev_induct)
      (simp_all add: apply_reports_def split_beta find_job_update_process del: not_None_eq)
  ultimately obtain job2 where job2: "find_job i jc2 = Some job2" by auto
  obtain m b where job3: "find_job i jc3 = Some (job2\<lparr>job_terminal_modes := m, job_has_terminal_modes := b\<rparr>)"
    using save_job_modes_quiet(2) [OF waited(2) job2] by blast
  note res = foreground_result_cases [OF waited(3) job3]
  have "quiet_ext h h2" using waited(4) give_terminal_quiet by simp
  moreover have q: "quiet_ext h3 h'"
    using save_job_modes_quiet(1) [OF waited(2)] reclaim_quiet res(1) by (blast intro: quiet_ext_trans)
  ultimately have rep': "reports_applied K jc h jc2 h'" using rep by (blast intro: reports_between)
  have fail: "wait_failed K h'" if run: "job_state job2 = JobState.Running"
  proof -
    have "wait_ended K i jc2 h3" using wait_loop_session(2) [OF w assms(3)] .
    with run job2 obtain h0 where "h3 = h0 @ [fg_call job2]" "ret (K h0 (fg_call job2)) = -1"
      by (auto simp: wait_ended_def)
    with q show ?thesis by (auto simp: quiet_ext_def is_waitpid_def intro!: wait_failedI [of _ h0])
  qed
  have "wait_outcome K i (job_state job2) (job_last_status job2) r jc' h'"
  proof (cases "job_state job2")
    case Running
    with res(3) job3 fail show ?thesis by (simp add: wait_outcome_def)
  next
    case Stopped
    with res(4) show ?thesis by (simp add: wait_outcome_def)
  next
    case Done
    with res(2) show ?thesis by (simp add: wait_outcome_def)
  qed
  with rep' job2 show thesis by (rule that)
qed simp


section \<open>Properties\<close>

text \<open>
  C7. In every state that a session can reach, by any sequence of launches, waits, \<open>fg\<close>, \<open>bg\<close>,
  reaping, notifications and \<open>SIGCHLD\<close> deliveries and for every behaviour of the kernel, job
  identifiers are positive, strictly increasing and below the next identifier, the state of
  every job is the one its process records stand for, and in an interactive shell the terminal
  belongs to the shell's own process group.
\<close>

theorem session_invariant:
  assumes "jc_reach K jc h"
  shows "jc_inv jc \<and> (jc_interactive jc \<longrightarrow> terminal_owner (jc_terminal_fd jc) h = Some (jc_shell_pgid jc))"
  using jc_reach_session [OF assms] by (simp add: session_ok_def)

definition demo_kernel :: kernel where
  "demo_kernel = scripted_kernel [(200, stop_status 20), (200, exit_status 3)]"

definition demo_start :: "JobControl \<times> trace" where
  "demo_start = the (job_control_init demo_kernel [])"

lemma demo_start_reach: "jc_reach demo_kernel (fst demo_start) (snd demo_start)"
proof -
  have "job_control_init demo_kernel [] = Some demo_start" by code_simp
  then show ?thesis by (intro jc_reach.init [of _ "[]"]) simp
qed

theorem session_invariant_witness:
  "(let jc = snd (add_job 200 [200] 200 ''cat'' (fst demo_start)) in
     jc_inv jc \<and> (jc_interactive jc \<longrightarrow> terminal_owner (jc_terminal_fd jc) (snd demo_start) = Some (jc_shell_pgid jc)))"
proof -
  have "jc_reach demo_kernel (snd (add_job 200 [200] 200 ''cat'' (fst demo_start))) (snd demo_start)"
    by (rule jc_reach.launch [OF demo_start_reach]) simp
  from session_invariant [OF this] show ?thesis by (simp add: Let_def)
qed

text \<open>
  C3. Waiting in the foreground for a job that was just registered returns the outcome that the
  kernel reported. The reports that arrive during the wait determine the state of every
  process; when they say that all processes have ended, the result is the decoded status of the
  last process and the job is gone from the table; when they leave the job stopped, the result
  is the (non-zero) stop status and the job stays in the table, stopped; the wait is given up with
  the job still running only after \<open>waitpid\<close> has failed.
\<close>

theorem foreground_job_outcome:
  assumes "jc_inv jc" "distinct pids" "lp \<in> set pids"
    and "\<forall>j \<in> set (jc_jobs jc). \<forall>p \<in> set pids. \<not> has_process p j"
    and "add_job pgid pids lp cmd jc = (i, jc1)"
    and "wait_foreground K i False jc1 h = Some (r, jc', h')"
  shows "\<exists>cs. h' = h @ cs \<and>
    (let evs = wait_reports K h cs in wait_outcome K i (state_of_pids evs pids) (pid_status evs lp) r jc' h')"
proof -
  obtain job where job: "jc_inv jc1" "owns i pids jc1" "find_job i jc1 = Some job" "tracks pids lp [] job"
    using add_job_tracked [OF assms(1,3,5,4)] by blast
  obtain jc2 job2 where w: "reports_applied K jc1 h jc2 h'" "find_job i jc2 = Some job2"
    and res: "wait_outcome K i (job_state job2) (job_last_status job2) r jc' h'"
    by (rule wait_foreground_reports [OF assms(6) job(3,1)])
  obtain cs where cs: "h' = h @ cs" "jc2 = apply_reports (wait_reports K h cs) jc1"
    using w(1) by (auto simp: reports_applied_def)
  have t: "jc_inv jc2" "tracks pids lp (wait_reports K h cs) job2"
    using apply_reports_owned [OF job assms(2), of "wait_reports K h cs"] w(2) cs(2) by auto
  have st: "job_state job2 = state_of_pids (wait_reports K h cs) pids"
    using tracks_state [OF t(2)] jc_inv_find [OF t(1) w(2)] by simp
  have ls: "job_last_status job2 = pid_status (wait_reports K h cs) lp" using t(2) by (simp add: tracks_def)
  from cs(1) res show ?thesis by (auto simp: st ls Let_def)
qed

theorem foreground_job_outcome_witness:
  "\<exists>cs jc' h'. wait_foreground demo_kernel 1 False (snd (add_job 200 [200] 200 ''cat'' (jc_new True 100 0))) [] = Some (148, jc', h')
     \<and> h' = [] @ cs \<and>
     (let evs = wait_reports demo_kernel [] cs
      in wait_outcome demo_kernel 1 (state_of_pids evs [200]) (pid_status evs 200) 148 jc' h')"
proof -
  let ?jc1 = "snd (add_job 200 [200] 200 ''cat'' (jc_new True 100 0))"
  have "case wait_foreground demo_kernel 1 False ?jc1 [] of Some (r, _) \<Rightarrow> r = 148 | None \<Rightarrow> False"
    by code_simp
  then obtain jc' h' where w: "wait_foreground demo_kernel 1 False ?jc1 [] = Some (148, jc', h')"
    by (auto split: option.splits)
  have a: "add_job 200 [200] 200 ''cat'' (jc_new True 100 0) = (1, ?jc1)" by code_simp
  have n: "\<forall>j \<in> set (jc_jobs (jc_new True 100 0)). \<forall>p \<in> set [200]. \<not> has_process p j" by (simp add: jc_new_def)
  show ?thesis
    using foreground_job_outcome [OF jc_inv_new _ _ n a w] w by fastforce
qed


text \<open>
  What \<open>waitpid\<close> has to tell: a report of a child, or an interruption by a signal. An error such as
  \<open>ECHILD\<close> is no news, and neither is the answer 0 to a call that does not wait.
\<close>

definition is_news :: "syscall \<Rightarrow> reply \<Rightarrow> bool" where
  "is_news c r =
     (case c of
        Waitpid _ fl \<Rightarrow> \<not> (ret r = -1 \<and> errno r \<noteq> EINTR) \<and> \<not> (ret r = 0 \<and> WNOHANG \<in> set fl)
      | _ \<Rightarrow> False)"

fun news :: "kernel \<Rightarrow> trace \<Rightarrow> trace \<Rightarrow> nat" where
  "news K h [] = 0"
| "news K h (c # cs) = (if is_news c (K h c) then 1 else 0) + news K (h @ [c]) cs"

definition forks :: "trace \<Rightarrow> nat" where
  "forks h = length (filter (\<lambda>c. case c of Fork _ \<Rightarrow> True | _ \<Rightarrow> False) h)"

text \<open>
  Every child comes to its end: whatever was called before, the kernel has had at most \<open>N\<close> news to
  tell for each \<open>fork\<close> so far, and \<open>N\<close> more. A child can be stopped and continued several times, and
  signals can interrupt the waiting, but not forever; new children bring new reports.
\<close>

definition children_end :: "kernel \<Rightarrow> nat \<Rightarrow> bool" where
  "children_end K N \<longleftrightarrow> (\<forall>h. news K [] h \<le> N * (forks h + 1))"

lemma news_append: "news K h (as @ bs) = news K h as + news K (h @ as) bs"
  by (induction "as" arbitrary: h) simp_all

lemma forks_waitpid [simp]: "forks (h @ [Waitpid p fl]) = forks h"
  by (simp add: forks_def)

text \<open>What is left to be told, which every call of \<open>waitpid\<close> with news makes smaller.\<close>

definition news_left :: "kernel \<Rightarrow> nat \<Rightarrow> trace \<Rightarrow> nat" where
  "news_left K N h = N * (forks h + 1) - news K [] h"

lemma news_left_less:
  assumes "children_end K N" "is_news (Waitpid p fl) (K h (Waitpid p fl))"
  shows "news_left K N (h @ [Waitpid p fl]) < news_left K N h"
proof -
  have "news K [] (h @ [Waitpid p fl]) \<le> N * (forks (h @ [Waitpid p fl]) + 1)"
    using assms(1) unfolding children_end_def by blast
  then have "Suc (news K [] h) \<le> N * (forks h + 1)" using assms(2) by (simp add: news_append)
  with assms(2) show ?thesis by (simp add: news_left_def news_append)
qed

lemma wait_loop_returns:
  assumes "children_end K N"
  shows "\<exists>r. wait_loop K i jc h = Some r"
proof (induction "news_left K N h" arbitrary: jc h rule: less_induct)
  case less
  show ?case
  proof (cases "\<exists>job. find_job i jc = Some job \<and> job_state job = JobState.Running")
    case False
    then show ?thesis by (subst wait_loop.simps) (auto split: option.splits)
  next
    case True
    then obtain job where job: "find_job i jc = Some job" "job_state job = JobState.Running" by blast
    show ?thesis
    proof (cases "is_news (fg_call job) (K h (fg_call job))")
      case False
      with job show ?thesis by (subst wait_loop.simps) (auto simp: syscall_def is_news_def)
    next
      case True
      then have "\<exists>r. wait_loop K i jc' (h @ [fg_call job]) = Some r" for jc'
        by (intro less news_left_less [OF assms])
      with job show ?thesis by (subst wait_loop.simps) (simp add: syscall_def)
    qed
  qed
qed

lemma reap_loop_returns:
  assumes "children_end K N"
  shows "\<exists>r. reap_loop K jc h = Some r"
proof (induction "news_left K N h" arbitrary: jc h rule: less_induct)
  case less
  show ?case
  proof (cases "is_news reap_call (K h reap_call)")
    case False
    then show ?thesis by (subst reap_loop.simps) (auto simp: syscall_def is_news_def)
  next
    case True
    then have "\<exists>r. reap_loop K jc' (h @ [reap_call]) = Some r" for jc'
      by (intro less news_left_less [OF assms])
    then show ?thesis by (subst reap_loop.simps) (simp add: syscall_def)
  qed
qed

lemma wait_foreground_returns:
  assumes "children_end K N"
  shows "\<exists>r. wait_foreground K i b jc h = Some r"
proof -
  have "\<exists>r. Option.bind (wait_loop K i jc1 h1) (\<lambda>(jc2, h3).
      case save_job_modes K i jc2 h3 of (jc3, h4) \<Rightarrow>
        Some (foreground_result i jc3 (reclaim_terminal jc3 h4))) = Some r" for jc1 h1
    using wait_loop_returns [OF assms] by (rule bind_returns) (simp add: split_beta del: split_paired_Ex)
  then show ?thesis
    unfolding wait_foreground_def Let_def by (auto split: option.split prod.split simp del: bind_eq_Some_conv)
qed

lemma reap_background_returns:
  assumes "children_end K N"
  obtains jc' h' where "reap_background K n jc h = Some (jc', h')"
proof -
  obtain jc1 h1 where "reap_loop K (jc\<lparr>sigchld_pending := False\<rparr>) h = Some (jc1, h1)"
    using reap_loop_returns [OF assms] by fastforce
  then have "\<exists>r. reap_background K n jc h = Some r" by (simp add: reap_background_def)
  then show thesis using that by fastforce
qed

lemma foreground_returns:
  assumes "children_end K N"
  shows "\<exists>r. foreground K spec out err jc h = Some r"
proof -
  obtain jc1 h1 where r: "reap_background K False jc h = Some (jc1, h1)"
    using reap_background_returns [OF assms] .
  show ?thesis
    using wait_foreground_returns [OF assms] unfolding foreground_def r by (auto split: option.splits)
qed

lemma continue_background_returns:
  assumes "children_end K N"
  shows "\<exists>r. continue_background K spec out err jc h = Some r"
proof -
  obtain jc1 h1 where r: "reap_background K False jc h = Some (jc1, h1)"
    using reap_background_returns [OF assms] .
  show ?thesis
    unfolding continue_background_def r by (auto simp: Let_def split_beta split: option.splits)
qed

text \<open>
  C16. No operation of job control hangs on a kernel whose children end: if \<open>waitpid\<close> has finitely much
  news for each child (reports and interruptions, at most \<open>N\<close> per \<open>fork\<close> and \<open>N\<close> more), then waiting in the
  foreground, reaping, \<open>fg\<close> and \<open>bg\<close> all return, from any table and for any arguments.
\<close>

theorem job_operations_return:
  assumes "children_end K N"
  shows "(\<exists>r. wait_foreground K i b jc h = Some r) \<and> (\<exists>r. reap_background K n jc h = Some r) \<and>
    (\<exists>r. foreground K spec out err jc h = Some r) \<and> (\<exists>r. continue_background K spec out err jc h = Some r)"
proof -
  obtain jc2 h2 where "reap_background K n jc h = Some (jc2, h2)"
    using reap_background_returns [OF assms] .
  with wait_foreground_returns [OF assms] foreground_returns [OF assms] continue_background_returns [OF assms]
  show ?thesis by simp
qed

text \<open>The scripted kernel has one report for each event of its script.\<close>

lemma scripted_news: "news (scripted_kernel evs) h cs \<le> length evs - length (filter is_waitpid h)"
proof (induction cs arbitrary: h)
  case (Cons c cs)
  let ?n = "length (filter is_waitpid h)"
  have over: "\<not> is_news c (scripted_kernel evs h c)" if "length evs \<le> ?n"
    using that by (cases c) (simp_all add: is_news_def scripted_kernel_def)
  show ?case
  proof (cases "is_waitpid c")
    case True
    with Cons [of "h @ [c]"] have "news (scripted_kernel evs) (h @ [c]) cs \<le> length evs - Suc ?n" by simp
    with over show ?thesis by (cases "length evs \<le> ?n") auto
  next
    case False
    then have "\<not> is_news c r" for r by (auto simp: is_news_def is_waitpid_def split: syscall.splits)
    with False Cons [of "h @ [c]"] show ?thesis by simp
  qed
qed simp

lemma scripted_children_end: "children_end (scripted_kernel evs) (length evs)"
proof -
  have "news (scripted_kernel evs) [] h \<le> length evs" for h using scripted_news [of evs "[]" h] by simp
  then show ?thesis unfolding children_end_def by (simp add: trans_le_add1)
qed

theorem job_operations_return_witness:
  "children_end demo_kernel 2 \<and> (\<exists>r. wait_foreground demo_kernel 1 True (fst demo_start) [] = Some r)"
proof -
  have "children_end demo_kernel 2"
    using scripted_children_end [of "[(200, stop_status 20), (200, exit_status 3)]"]
    by (simp add: demo_kernel_def numeral_2_eq_2)
  then show ?thesis using job_operations_return by blast
qed

text \<open>
  C26. Notification reports, in table order, one line for every job whose state changed to stopped
  or done; it removes exactly the jobs that are done and were changed, keeps the others in order
  with their change flags cleared, and so never reports the same change twice.
\<close>

theorem notify_and_cleanup_correct:
  assumes "jc_inv jc"
  shows "notify_and_cleanup_done_jobs jc h =
     (jc\<lparr>jc_jobs := map (\<lambda>j. j\<lparr>job_state_changed := False\<rparr>)
        (filter (\<lambda>j. \<not> (job_state_changed j \<and> job_state j = JobState.Done)) (jc_jobs jc))\<rparr>,
      h @ map (\<lambda>j. WriteAll STDOUT_FILENO (job_line j (state_name (job_state j))))
            (filter (\<lambda>j. job_state_changed j \<and> job_state j \<noteq> JobState.Running) (jc_jobs jc)))"
proof -
  have mem: "(\<exists>j' \<in> set js. job_state_changed j' \<and> job_state j' = JobState.Done \<and> job_id j' = job_id j) \<longleftrightarrow>
      job_state_changed j \<and> job_state j = JobState.Done"
    if "distinct (map job_id js)" "j \<in> set js" for j js
    using that by (auto simp: distinct_map inj_on_def)
  have d: "distinct (map job_id (jc_jobs jc))" using assms by (simp add: jc_inv_def sorted_less_distinct)
  have flag: "j\<lparr>job_state_changed := False\<rparr> = j" if "\<not> job_state_changed j" for j :: Job using that by simp
  have "filter (\<lambda>job. job_id job \<notin> job_id ` {j \<in> set (jc_jobs jc). job_state_changed j \<and> job_state j = JobState.Done})
      (map (\<lambda>j. if job_state_changed j \<and> job_state j \<noteq> JobState.Done then j\<lparr>job_state_changed := False\<rparr> else j) (jc_jobs jc)) =
    map (\<lambda>j. j\<lparr>job_state_changed := False\<rparr>)
        (filter (\<lambda>j. \<not> (job_state_changed j \<and> job_state j = JobState.Done)) (jc_jobs jc))"
    unfolding filter_map comp_def
  proof (rule map_cong [OF filter_cong [OF refl]])
    fix j assume "j \<in> set (jc_jobs jc)"
    from mem [OF d this] show "(job_id (if job_state_changed j \<and> job_state j \<noteq> JobState.Done
          then j\<lparr>job_state_changed := False\<rparr> else j)
        \<notin> job_id ` {j \<in> set (jc_jobs jc). job_state_changed j \<and> job_state j = JobState.Done}) =
        (\<not> (job_state_changed j \<and> job_state j = JobState.Done))"
      by (auto simp: image_iff)
  qed (auto simp: flag)
  then show ?thesis by (simp add: notify_and_cleanup_done_jobs_def notify_jobs_eq)
qed


text \<open>After a notification no change is left to be reported.\<close>

lemma notify_reports_all: "list_all (\<lambda>j. \<not> job_state_changed j) (jc_jobs (fst (notify_and_cleanup_done_jobs jc h)))"
  by (auto simp: notify_and_cleanup_done_jobs_def notify_jobs_eq list_all_iff)

definition demo_table :: JobControl where
  "demo_table = update_process 201 (exit_status 0)
     (snd (add_job 201 [201] 201 ''true'' (snd (add_job 200 [200] 200 ''cat'' (jc_new True 100 0)))))"

lemma demo_table_inv: "jc_inv demo_table"
  unfolding demo_table_def by (intro jc_inv_update_process jc_inv_add jc_inv_new) simp_all

theorem notify_and_cleanup_correct_witness:
  "snd (notify_and_cleanup_done_jobs demo_table []) = [WriteAll 1 (''[2] Done'' @ [tab] @ ''true'' @ [newline])] \<and>
   map job_id (jc_jobs (fst (notify_and_cleanup_done_jobs demo_table []))) = [1]"
  unfolding notify_and_cleanup_correct [OF demo_table_inv] by code_simp

text \<open>
  C27. The shell's status of a process is its exit code when it exited, \<open>128\<close> plus the signal when
  a signal ended or stopped it, and it is never outside \<open>0\<close> to \<open>383\<close>.
\<close>

theorem decode_wait_status_correct:
  "decode_wait_status (exit_status code) = uint code \<and>
   (0 < uint sig \<longrightarrow> uint sig < 127 \<longrightarrow> decode_wait_status (signal_status sig) = 128 + uint sig) \<and>
   decode_wait_status (stop_status ssig) = 128 + uint ssig \<and>
   0 \<le> decode_wait_status st \<and> decode_wait_status st < 384"
proof -
  have up8: "uint (ucast c :: 32 word) = uint c" for c :: "8 word" by (rule uint_up_ucast) (simp add: is_up)
  have up7: "uint (ucast c :: 32 word) = uint c" for c :: "7 word" by (rule uint_up_ucast) (simp add: is_up)
  have high: "WEXITSTATUS (exit_status code) = uint code" "WEXITSTATUS (stop_status ssig) = uint ssig"
    by (simp_all only: WEXITSTATUS_def exit_status_high stop_status_high up8)
  have "decode_wait_status (exit_status code) = uint code"
    by (simp add: decode_wait_status_def WIFEXITED_def WTERMSIG_def exit_status_low high)
  moreover have "decode_wait_status (signal_status sig) = 128 + uint sig" if "0 < uint sig" "uint sig < 127"
    using that by (simp add: decode_wait_status_def WIFEXITED_def WIFSIGNALED_iff WTERMSIG_def signal_status_low up7)
  moreover have "decode_wait_status (stop_status ssig) = 128 + uint ssig"
    by (simp add: decode_wait_status_def WIFEXITED_def WIFSIGNALED_iff WIFSTOPPED_def WTERMSIG_def WSTOPSIG_def
        stop_status_low high)
  moreover have "0 \<le> decode_wait_status st \<and> decode_wait_status st < 384"
    using WTERMSIG_range [of st] WEXITSTATUS_range [of st]
    by (auto simp: decode_wait_status_def WSTOPSIG_def)
  ultimately show ?thesis by simp
qed

theorem decode_wait_status_correct_witness:
  "decode_wait_status (signal_status 9) = 137 \<and> decode_wait_status (stop_status 20) = 148"
  using decode_wait_status_correct [where sig = 9 and ssig = 20] by simp

lemma parse_job_id_number:
  assumes "0 < n" "n \<le> LONG_MAX"
  shows "parse_job_id (CHR ''%'' # to_string n) = Some (int32_cast n) \<and>
    parse_job_id (to_string n) = Some (int32_cast n)"
proof -
  obtain k where k: "n = int k" using assms(1) by (metis less_imp_le nonneg_int_cases)
  have s: "to_string (int k) = digits_of k" using assms(1) k by (simp add: to_string_def)
  have hd: "hd (digits_of k) \<noteq> CHR ''%''" "hd (digits_of k) \<noteq> CHR ''+''"
    using hd_digits_of [of k] by (auto simp: isdigit_def)
  then have "digits_of k \<noteq> ''+''" "digits_of k \<noteq> ''%+''" by auto
  moreover have "scan_number (digits_of k) = Some (False, k, [])"
    using scan_number_digits [of "digits_of k"] by (simp add: digits_of_isdigit)
  ultimately show ?thesis
    using assms hd(1) not_sym [OF digits_of_nonempty [of k]] unfolding k s
    by (simp add: parse_job_id_def strtol_def signed_value_def)
qed

text \<open>
  The conversion to \<open>int\<close> wraps: a designator just above \<open>2\<^sup>3\<^sup>2\<close> denotes an unrelated job.
\<close>

lemma parse_job_id_wraps: "parse_job_id ''%4294967297'' = Some 1"
proof -
  have "to_string 4294967297 = ''4294967297''"
    by (simp add: to_string_def digit_char_def digits_of.simps) code_simp
  moreover have "int32_cast 4294967297 = 1" by (simp add: int32_cast_def int_word_sint)
  ultimately show ?thesis using parse_job_id_number [of 4294967297] by simp
qed

text \<open>
  A job designator \<open>%n\<close>, or just \<open>n\<close>, denotes job \<open>n\<close>, for every identifier that an \<open>int\<close> can
  hold.
\<close>

lemma parse_job_id_designator:
  assumes "0 < n" "n \<le> INT_MAX"
  shows "parse_job_id (CHR ''%'' # to_string n) = Some n \<and> parse_job_id (to_string n) = Some n"
proof -
  have "int32_cast n = n" using assms by (simp add: int32_cast_def int_word_sint)
  with parse_job_id_number [of n] assms show ?thesis by simp
qed

lemma parse_job_id_designator_witness: "parse_job_id (CHR ''%'' # to_string 42) = Some 42"
  using parse_job_id_designator [of 42] by simp

text \<open>
  C28. The current job (\<open>fg\<close> or \<open>bg\<close> without a designator, or \<open>%+\<close>, or \<open>%\<close>) is the job most
  recently started that is not done; there is none exactly if every job is done.
\<close>

theorem resolve_current_job:
  assumes "jc_inv jc" "spec = [] \<or> spec = ''%+'' \<or> spec = ''%''"
  shows "(resolve_job spec jc = None \<longleftrightarrow> (\<forall>j \<in> set (jc_jobs jc). job_state j = JobState.Done)) \<and>
    (\<forall>job. resolve_job spec jc = Some job \<longrightarrow>
       find_job (job_id job) jc = Some job \<and> job_state job \<noteq> JobState.Done \<and>
       (\<forall>j \<in> set (jc_jobs jc). job_state j \<noteq> JobState.Done \<longrightarrow> job_id j \<le> job_id job))"
proof -
  have eq: "resolve_job spec jc = find (\<lambda>job. job_state job \<noteq> JobState.Done) (rev (jc_jobs jc))"
    using assms(2) by (auto simp: resolve_job_def parse_job_id_def)
  have latest: "job_id j \<le> job_id job"
    if "find P (rev js) = Some job" "sorted_wrt (<) (map job_id js)" "j \<in> set js" "P j" for P job j js
    using that
  proof (induction js rule: rev_induct)
    case (snoc x xs)
    show ?case
    proof (cases "P x")
      case True
      with snoc.prems show ?thesis by (auto simp: sorted_wrt_append)
    next
      case False
      with snoc.prems have "j \<in> set xs" by auto
      with False snoc show ?thesis by (auto simp: sorted_wrt_append)
    qed
  qed simp
  have srt: "sorted_wrt (<) (map job_id (jc_jobs jc))" using assms(1) by (simp add: jc_inv_def)
  show ?thesis unfolding eq
  proof (intro conjI allI impI ballI)
    fix job assume f: "find (\<lambda>job. job_state job \<noteq> JobState.Done) (rev (jc_jobs jc)) = Some job"
    from find_SomeD [OF f] have "job \<in> set (jc_jobs jc)" "job_state job \<noteq> JobState.Done" by auto
    with assms(1) show "find_job (job_id job) jc = Some job" "job_state job \<noteq> JobState.Done"
      by (auto intro: jc_inv_mem_find)
    show "job_id j \<le> job_id job" if "j \<in> set (jc_jobs jc)" "job_state j \<noteq> JobState.Done" for j
      using latest [OF f srt that(1)] that(2) .
  qed (auto simp: find_None_iff)
qed

theorem resolve_current_job_witness:
  "\<exists>job. resolve_job ''%+'' demo_table = Some job \<and> job_id job = 1 \<and> find_job (job_id job) demo_table = Some job"
proof -
  have "map_option job_id (resolve_job ''%+'' demo_table) = Some 1" by code_simp
  then obtain job where "resolve_job ''%+'' demo_table = Some job" "job_id job = 1" by auto
  with resolve_current_job [OF demo_table_inv, of "''%+''"] show ?thesis by blast
qed

text \<open>
  C29. \<open>bg\<close> resumes a stopped job only after the kernel has accepted \<open>SIGCONT\<close> for its process group:
  then no process of the job counts as stopped, the job is running and the answer is 0; when the
  signal cannot be sent, the table is unchanged and the answer is 1.
\<close>

theorem continue_background_stopped:
  assumes "reap_background K False jc h = Some (jc1, h1)" "resolve_job spec jc1 = Some job"
    and "job_state job = JobState.Stopped" "jc_inv jc1"
  shows "\<exists>r jc' h'. continue_background K spec out err jc h = Some (r, jc', h') \<and>
    (if ret (K h1 (Kill (- job_pgid job) SIGCONT)) = -1
     then r = 1 \<and> jc' = jc1 \<and>
       h' = h1 @ [Kill (- job_pgid job) SIGCONT, WriteAll err (''bg: failed to continue job'' @ [newline])]
     else r = 0 \<and>
       h' = h1 @ [Kill (- job_pgid job) SIGCONT, WriteAll out
             (''['' @ to_string (job_id job) @ ''] '' @ job_command job @ '' &'' @ [newline])] \<and>
       (\<exists>job'. find_job (job_id job) jc' = Some job' \<and> job_state job' = JobState.Running \<and>
          list_all (\<lambda>p. proc_state p \<noteq> ProcessState.Stopped) (job_processes job')) \<and>
       (\<forall>j. j \<noteq> job_id job \<longrightarrow> find_job j jc' = find_job j jc1))"
proof -
  have f: "find_job (job_id job) jc1 = Some job" using assms(2,4) by (blast intro: resolve_job_find)
  have run: "find_job (job_id job) (modify_job (job_id job) resume_records jc1) = Some (resume_records job)"
    using f unfolding find_job_def modify_job_def JobControl.simps by (simp add: find_modify_first_same)
  have other: "find_job j (modify_job i resume_records jc1) = find_job j jc1" if "j \<noteq> i" for i j
  proof -
    have "find (\<lambda>job. job_id job = j) (modify_first (\<lambda>job. job_id job = i) resume_records js) =
        find (\<lambda>job. job_id job = j) js" for js
      using that by (induction js) auto
    then show ?thesis by (simp add: find_job_def modify_job_def)
  qed
  have "list_all (\<lambda>p. proc_state p \<noteq> ProcessState.Stopped) (job_processes (resume_records job))"
    by (auto simp: resume_records_def list_all_iff resume_process_def)
  with assms f run other show ?thesis
    by (auto simp: continue_background_def syscall_def emit_def) (auto simp: resume_records_def)
qed

definition demo_stopped :: JobControl where
  "demo_stopped = update_process 200 (stop_status 20) (snd (add_job 200 [200] 200 ''cat'' (jc_new True 100 0)))"

theorem continue_background_stopped_witness:
  "\<exists>r jc' h'. continue_background demo_kernel ''%1'' 1 2 demo_stopped [] = Some (r, jc', h') \<and> r = 0"
proof -
  have inv: "jc_inv demo_stopped"
    unfolding demo_stopped_def by (intro jc_inv_update_process jc_inv_add jc_inv_new) simp_all
  have "map_option job_state (resolve_job ''%1'' demo_stopped) = Some JobState.Stopped" by code_simp
  then obtain job where job: "resolve_job ''%1'' demo_stopped = Some job" "job_state job = JobState.Stopped" by auto
  have "reap_background demo_kernel False demo_stopped [] = Some (demo_stopped, [])"
    by (simp add: reap_background_def demo_stopped_def update_process_def add_job_def Let_def jc_new_def)
  from continue_background_stopped [OF this job inv, of 1 2] show ?thesis
    by (auto simp: demo_kernel_def scripted_kernel_def reply_ok_def)
qed

end
