(* ===== verification/Executor.thy ===== *)
theory Executor
  imports Builtins Job_Theorems
begin

text \<open>
  \<open>src/executor.cpp\<close>: the display of commands, redirections and pipes, the launch of a pipeline and
  the execution of a plan. One definition covers both sides of \<open>fork\<close>, as the code does: when the
  kernel answers 0, the process is the child, and its end is an \<open>Inl\<close> of the result. \<open>None\<close> is
  ``does not return''.
\<close>

section \<open>Results and state\<close>

record ExecutionResult =
  exit_requested :: bool
  exit_code :: int
  status :: int

definition exec_result :: "bool \<Rightarrow> int \<Rightarrow> int \<Rightarrow> ExecutionResult" where
  "exec_result e c s = \<lparr>exit_requested = e, exit_code = c, status = s\<rparr>"

record 'r shell =
  jobs :: JobControl
  hist :: "'r HistoryState"
  calls :: trace


section \<open>Decisions\<close>

fun should_execute :: "ChainOperator \<Rightarrow> int \<Rightarrow> bool" where
  "should_execute Always previous_status = True"
| "should_execute And previous_status = (previous_status = 0)"
| "should_execute Or previous_status = (previous_status \<noteq> 0)"

definition is_job_builtin :: "string \<Rightarrow> bool" where
  "is_job_builtin name \<longleftrightarrow> name = ''jobs'' \<or> name = ''fg'' \<or> name = ''bg''"

definition requires_child_builtin_execution :: "Command \<Rightarrow> bool" where
  "requires_child_builtin_execution command =
     (if args command = [] then False
      else if hd (args command) = ''run'' \<or> hd (args command) = ''sandbox'' \<or> hd (args command) = ''trace'' then True
      else if hd (args command) \<noteq> ''pinfo'' then False
      else list_ex (\<lambda>arg. arg = ''--watch'' \<or> arg = ''-w'') (args command))"


section \<open>Display\<close>

definition quote_for_display :: "string \<Rightarrow> string" where
  "quote_for_display value =
     (if value = [] then [squote, squote]
      else if list_ex (\<lambda>c. isspace c \<or> c = CHR ''|'' \<or> c = CHR ''&'' \<or> c = CHR '';'' \<or> c = CHR ''<'' \<or> c = CHR ''>'') value
      then [squote] @ concat (map (\<lambda>c. if c = squote then [squote, bslash, squote, squote] else [c]) value) @ [squote]
      else value)"

fun format_args :: "string \<Rightarrow> string list \<Rightarrow> string" where
  "format_args txt [] = txt"
| "format_args txt (arg # rest) =
     format_args ((if txt \<noteq> [] then txt @ '' '' else txt) @ quote_for_display arg) rest"

definition format_command :: "Command \<Rightarrow> string" where
  "format_command command =
     format_args [] (args command) @
     (if has_input_redirect command then '' < '' @ quote_for_display (input_file command) else []) @
     (if has_output_redirect command
      then (if append_output command then '' >> '' else '' > '') @ quote_for_display (output_file command) else []) @
     (if has_error_redirect command
      then (if append_error command then '' 2>> '' else '' 2> '') @ quote_for_display (error_file command) else [])"

fun format_commands :: "Command list \<Rightarrow> string" where
  "format_commands [] = []"
| "format_commands [c] = format_command c"
| "format_commands (c # cs) = format_command c @ '' | '' @ format_commands cs"

definition format_pipeline :: "Pipeline \<Rightarrow> string" where
  "format_pipeline pl = format_commands (commands pl)"


section \<open>Descriptors\<close>

definition open_output_redirect :: "kernel \<Rightarrow> string \<Rightarrow> bool \<Rightarrow> trace \<Rightarrow> int \<times> trace" where
  "open_output_redirect K path appending h =
     (let (r, h1) = syscall K (Open (c_str path) [O_WRONLY, O_CREAT, if appending then O_APPEND else O_TRUNC] 420) h
      in (ret r, h1))"

definition open_input_redirect :: "kernel \<Rightarrow> string \<Rightarrow> trace \<Rightarrow> int \<times> trace" where
  "open_input_redirect K path h = (let (r, h1) = syscall K (Open (c_str path) [O_RDONLY] 0) h in (ret r, h1))"

text \<open>A pipe is its read end and its write end.\<close>

type_synonym PipePair = "int \<times> int"

fun close_all_pipes :: "PipePair list \<Rightarrow> trace \<Rightarrow> trace" where
  "close_all_pipes [] h = h"
| "close_all_pipes ((r, w) # pipes) h = close_all_pipes pipes (close_fd w (close_fd r h))"

text \<open>Destruction of the vector of pipes: members are destroyed in reverse order of declaration.\<close>

fun destroy_pipes :: "PipePair list \<Rightarrow> trace \<Rightarrow> trace" where
  "destroy_pipes [] h = h"
| "destroy_pipes ((r, w) # pipes) h = destroy_pipes pipes (close_fd r (close_fd w h))"


section \<open>The child\<close>

definition duplicate_or_exit :: "kernel \<Rightarrow> int \<Rightarrow> int \<Rightarrow> string \<Rightarrow> trace \<Rightarrow> unit step_end \<times> trace" where
  "duplicate_or_exit K from to label h =
     (if from = to then (Inr (), h)
      else let (r, h1) = syscall K (Dup2 from to) h
        in if ret r = -1
           then (Inl (Exited 1), emit (WriteAll STDERR_FILENO (''Failed to redirect '' @ label @ [newline])) h1)
           else (Inr (), h1))"

text \<open>The descriptor that a stream gets: of the redirection file, or of the pipe or the terminal.\<close>

definition child_open ::
  "bool \<Rightarrow> (trace \<Rightarrow> int \<times> trace) \<Rightarrow> string \<Rightarrow> int \<Rightarrow> trace \<Rightarrow> (int \<times> int) step_end \<times> trace" where
  "child_open redirect opener what otherwise h =
     (if redirect then
        (let (fd, h1) = opener h
         in if fd < 0
            then (Inl (Exited 1), emit (WriteAll STDERR_FILENO (''Error opening '' @ what @ '' file'' @ [newline])) h1)
            else (Inr (fd, fd), h1))
      else (Inr (otherwise, -1), h))"

definition configure_child_io ::
  "kernel \<Rightarrow> Command \<Rightarrow> nat \<Rightarrow> nat \<Rightarrow> PipePair list \<Rightarrow> trace \<Rightarrow> unit step_end \<times> trace" where
  "configure_child_io K command index command_count pipes h =
     and_then (child_open (has_input_redirect command) (open_input_redirect K (input_file command)) ''input''
         (if 0 < index then fst (pipes ! (index - 1)) else STDIN_FILENO) h) (\<lambda>(input_fd, command_input) h1.
     and_then (child_open (has_output_redirect command)
         (open_output_redirect K (output_file command) (append_output command)) ''output''
         (if index + 1 < command_count then snd (pipes ! index) else STDOUT_FILENO) h1) (\<lambda>(output_fd, command_output) h2.
     and_then (child_open (has_error_redirect command)
         (open_output_redirect K (error_file command) (append_error command)) ''error''
         STDERR_FILENO h2) (\<lambda>(error_fd, command_error) h3.
     and_then (duplicate_or_exit K input_fd STDIN_FILENO ''stdin'' h3) (\<lambda>_ h4.
     and_then (duplicate_or_exit K output_fd STDOUT_FILENO ''stdout'' h4) (\<lambda>_ h5.
     and_then (duplicate_or_exit K error_fd STDERR_FILENO ''stderr'' h5) (\<lambda>_ h6.
       (Inr (), close_fd command_input (close_fd command_output (close_fd command_error (close_all_pipes pipes h6))))))))))"

definition exec_external_child :: "environ \<Rightarrow> kernel \<Rightarrow> Command \<Rightarrow> trace \<Rightarrow> child_end \<times> trace" where
  "exec_external_child e K command h =
     (let name = hd (args command); executable = find_executable e name
      in if executable = []
         then (Exited 127, emit (WriteAll STDERR_FILENO (name @ '': command not found'' @ [newline])) h)
         else let (r, h1) = execv K executable (args command) h
           in if ret r \<noteq> -1 then (Replaced executable (args command), h1)
              else (Exited 126, emit (WriteAll STDERR_FILENO (''Error executing '' @ name @ [newline])) h1))"

text \<open>What the child does once its descriptors are in place.\<close>

definition child_command :: "'r world \<Rightarrow> Command \<Rightarrow> 'r shell \<Rightarrow> trace \<Rightarrow> (child_end \<times> trace) option" where
  "child_command w command sh h =
     (let name = hd (args command)
      in if is_job_builtin name then
           (if name = ''jobs'' then Some (Exited 0, emit (WriteAll STDOUT_FILENO (render_jobs (jobs sh))) h)
            else Some (Exited 1, emit (WriteAll STDERR_FILENO (name @ '': job control unavailable in child context'' @ [newline])) h))
         else if name = ''run'' then Some (execute_resource_run_child (env w h) (sys w) command STDOUT_FILENO STDERR_FILENO h)
         else if name = ''sandbox'' then execute_sandbox_child (env w) (sys w) command STDOUT_FILENO STDERR_FILENO h
         else if name = ''trace'' then execute_trace_child (env w) (sys w) command STDOUT_FILENO STDERR_FILENO h
         else if is_builtin name then
           map_option (\<lambda>(r, _, h1). (case r of Inl c \<Rightarrow> c
                | Inr b \<Rightarrow> Exited (if b_exit_requested b then b_exit_code b else b_status b), h1))
             (execute_builtin w command STDOUT_FILENO STDERR_FILENO ChildProcess (hist sh) h)
         else Some (exec_external_child (env w h) (sys w) command h))"

definition child_main ::
  "'r world \<Rightarrow> Command \<Rightarrow> nat \<Rightarrow> nat \<Rightarrow> PipePair list \<Rightarrow> int \<Rightarrow> 'r shell \<Rightarrow> trace \<Rightarrow> (child_end \<times> trace) option" where
  "child_main w command index command_count pipes pgid sh h =
     (let (child_pgid, h1) = (if pgid = 0 then (let (r, h1) = syscall (sys w) Getpid h in (ret r, h1)) else (pgid, h));
          (r, h2) = syscall (sys w) (Setpgid 0 child_pgid) h1
      in if ret r = -1 then Some (Exited 1, h2)
         else case configure_child_io (sys w) command index command_count pipes (reset_child_signal_handlers h2) of
                (Inl c, h3) \<Rightarrow> Some (c, h3)
              | (Inr _, h3) \<Rightarrow> child_command w command sh h3)"

section \<open>The parent\<close>

fun make_pipes :: "kernel \<Rightarrow> nat \<Rightarrow> PipePair list \<Rightarrow> trace \<Rightarrow> bool \<times> PipePair list \<times> trace" where
  "make_pipes K 0 pipes h = (True, pipes, h)"
| "make_pipes K (Suc n) pipes h =
     (let (r, h1) = syscall K MkPipe h
      in if ret r = -1 then (False, pipes, emit (WriteAll STDERR_FILENO (''Failed to create pipe'' @ [newline])) h1)
         else make_pipes K n (pipes @ [(ret r, ret2 r)]) h1)"

text \<open>
  The fork loop, from command \<open>index\<close> on. It ends with \<open>Inl\<close> when this process is a child, and
  otherwise with the failure flag of \<open>fork\<close> or the process group and the processes started.
\<close>

datatype launch_end = Fork_failed | Launched int "int list"

fun launch_loop ::
  "'r world \<Rightarrow> Command list \<Rightarrow> nat \<Rightarrow> nat \<Rightarrow> PipePair list \<Rightarrow> int \<Rightarrow> int list \<Rightarrow> 'r shell \<Rightarrow> trace \<Rightarrow>
   (launch_end step_end \<times> trace) option" where
  "launch_loop w [] index command_count pipes pgid pids sh h = Some (Inr (Launched pgid pids), h)"
| "launch_loop w (command # rest) index command_count pipes pgid pids sh h =
     (if args command = [] then launch_loop w rest (index + 1) command_count pipes pgid pids sh h
      else let (r, h1) = syscall (sys w) (Fork index) h; pid = ret r
        in if pid = -1 then
             (let h2 = close_all_pipes pipes (emit (WriteAll STDERR_FILENO (''Failed to fork process'' @ [newline])) h1)
              in Some (Inr Fork_failed, if 0 < pgid then emit (Kill (- pgid) SIGTERM) h2 else h2))
           else if pid = 0 then
             map_option (\<lambda>(c, h2). (Inl c, h2)) (child_main w command index command_count pipes pgid sh h1)
           else
             (let pgid' = (if pgid = 0 then pid else pgid);
                  (r2, h2) = syscall (sys w) (Setpgid pid pgid') h1;
                  h3 = (if ret r2 = -1 \<and> errno r2 \<noteq> EACCES \<and> errno r2 \<noteq> ESRCH
                        then emit (WriteAll STDERR_FILENO (''Failed to assign process group'' @ [newline])) h2 else h2)
              in launch_loop w rest (index + 1) command_count pipes pgid' (pids @ [pid]) sh h3))"

definition execute_job_builtin ::
  "kernel \<Rightarrow> Command \<Rightarrow> int \<Rightarrow> int \<Rightarrow> JobControl \<Rightarrow> trace \<Rightarrow> (int \<times> JobControl \<times> trace) option" where
  "execute_job_builtin K command output_fd error_fd jc h =
     (let name = hd (args command); spec = (if 1 < length (args command) then args command ! 1 else [])
      in if name = ''jobs'' then
           map_option (\<lambda>(jc1, h1). (0, jc1, emit (WriteAll output_fd (render_jobs jc1)) h1)) (reap_background K False jc h)
         else if name = ''fg'' then foreground K spec output_fd error_fd jc h
         else if name = ''bg'' then continue_background K spec output_fd error_fd jc h
         else Some (1, jc, h))"

text \<open>
  The redirections of a built-in that runs in the shell: the three descriptors to close at the end
  and the streams to use, or \<open>None\<close> after a message. The descriptors opened so far are closed on
  every path, as the destructors of \<open>UniqueFd\<close> do.
\<close>

definition open_redirects :: "kernel \<Rightarrow> Command \<Rightarrow> trace \<Rightarrow> (int \<times> int \<times> int) option \<times> trace" where
  "open_redirects K command h =
     (let fail = (\<lambda>what h. emit (WriteAll STDERR_FILENO (''Error opening '' @ what @ '' file'' @ [newline])) h);
          (i, h1) = (if has_input_redirect command then open_input_redirect K (input_file command) h else (-1, h))
      in if has_input_redirect command \<and> i < 0 then (None, fail ''input'' h1)
         else let (out, h2) = (if has_output_redirect command
                  then open_output_redirect K (output_file command) (append_output command) h1 else (-1, h1))
           in if has_output_redirect command \<and> out < 0 then (None, close_fd i (fail ''output'' h2))
              else let (er, h3) = (if has_error_redirect command
                       then open_output_redirect K (error_file command) (append_error command) h2 else (-1, h2))
                in if has_error_redirect command \<and> er < 0 then (None, close_fd i (close_fd out (fail ''error'' h3)))
                   else (Some (i, out, er), h3))"

definition execute_parent_builtin ::
  "'r world \<Rightarrow> Command \<Rightarrow> 'r shell \<Rightarrow> (ExecutionResult step_end \<times> 'r shell) option" where
  "execute_parent_builtin w command sh =
     (case open_redirects (sys w) command (calls sh) of
        (None, h1) \<Rightarrow> Some (Inr (exec_result False 0 1), sh\<lparr>calls := h1\<rparr>)
      | (Some (i, out, er), h1) \<Rightarrow>
          (let output_fd = (if has_output_redirect command then out else STDOUT_FILENO);
               error_fd = (if has_error_redirect command then er else STDERR_FILENO);
               close_all = (\<lambda>h. close_fd i (close_fd out (close_fd er h)))
           in if is_job_builtin (hd (args command)) then
                map_option (\<lambda>(st, jc1, h2). (Inr (exec_result False 0 st), sh\<lparr>jobs := jc1, calls := close_all h2\<rparr>))
                  (execute_job_builtin (sys w) command output_fd error_fd (jobs sh) h1)
              else
                map_option (\<lambda>(r, s1, h2). case r of
                    Inl c \<Rightarrow> (Inl c, sh\<lparr>hist := s1, calls := h2\<rparr>)
                  | Inr b \<Rightarrow> (Inr (exec_result (b_exit_requested b) (b_exit_code b) (b_status b)),
                              sh\<lparr>hist := s1, calls := close_all h2\<rparr>))
                  (execute_builtin w command output_fd error_fd ParentShell (hist sh) h1)))"

definition runs_in_parent :: "Pipeline \<Rightarrow> bool" where
  "runs_in_parent pl \<longleftrightarrow>
     \<not> background pl \<and> length (commands pl) = 1 \<and> args (hd (commands pl)) \<noteq> [] \<and>
     is_builtin (hd (args (hd (commands pl)))) \<and> \<not> requires_child_builtin_execution (hd (commands pl))"

text \<open>The part of \<open>execute_pipeline\<close> after the fork loop.\<close>

definition finish_launch ::
  "kernel \<Rightarrow> Pipeline \<Rightarrow> int \<Rightarrow> int list \<Rightarrow> JobControl \<Rightarrow> trace \<Rightarrow> (ExecutionResult \<times> JobControl \<times> trace) option" where
  "finish_launch K pl pgid pids jc h =
     (if pids = [] then Some (exec_result False 0 1, jc, h)
      else let (job_id, jc1) = add_job pgid pids (last pids) (format_pipeline pl) jc
        in if background pl then
             Some (exec_result False 0 0, jc1,
               emit (WriteAll STDOUT_FILENO (''['' @ to_string job_id @ ''] '' @ to_string pgid @ [newline])) h)
           else map_option (\<lambda>(st, jc2, h1). (exec_result False 0 st, jc2, h1)) (wait_foreground K job_id False jc1 h))"

definition execute_pipeline ::
  "'r world \<Rightarrow> Pipeline \<Rightarrow> 'r shell \<Rightarrow> (ExecutionResult step_end \<times> 'r shell) option" where
  "execute_pipeline w pl sh =
     (if commands pl = [] then Some (Inr (exec_result False 0 0), sh)
      else if runs_in_parent pl then execute_parent_builtin w (hd (commands pl)) sh
      else case make_pipes (sys w) (length (commands pl) - 1) [] (calls sh) of
        (False, pipes, h1) \<Rightarrow> Some (Inr (exec_result False 0 1), sh\<lparr>calls := destroy_pipes pipes h1\<rparr>)
      | (True, pipes, h1) \<Rightarrow>
          Option.bind (launch_loop w (commands pl) 0 (length (commands pl)) pipes 0 [] sh h1) (\<lambda>(e, h2).
            case e of
              Inl c \<Rightarrow> Some (Inl c, sh\<lparr>calls := h2\<rparr>)
            | Inr Fork_failed \<Rightarrow> Some (Inr (exec_result False 0 1), sh\<lparr>calls := h2\<rparr>)
            | Inr (Launched pgid pids) \<Rightarrow>
                map_option (\<lambda>(r, jc, h3). (Inr r, sh\<lparr>jobs := jc, calls := h3\<rparr>))
                  (finish_launch (sys w) pl pgid pids (jobs sh) (close_all_pipes pipes h2))))"


section \<open>Plans\<close>

text \<open>
  The loop of \<open>Executor::execute\<close> over an arbitrary way of running a pipeline; \<open>last\<close> is the last result
  and \<open>have_status\<close> whether there was one.
\<close>

fun execute_steps ::
  "(Pipeline \<Rightarrow> 's \<Rightarrow> (ExecutionResult step_end \<times> 's) option) \<Rightarrow> PipelineStep list \<Rightarrow> bool \<Rightarrow> ExecutionResult \<Rightarrow> 's \<Rightarrow>
   (ExecutionResult step_end \<times> 's) option" where
  "execute_steps run [] have_status last_result s = Some (Inr last_result, s)"
| "execute_steps run (stp # stps) have_status last_result s =
     (if have_status \<and> \<not> should_execute (connector stp) (status last_result)
      then execute_steps run stps have_status last_result s
      else Option.bind (run (pipeline stp) s) (\<lambda>(e, s1).
             case e of
               Inl c \<Rightarrow> Some (Inl c, s1)
             | Inr r \<Rightarrow> if exit_requested r then Some (Inr r, s1) else execute_steps run stps True r s1))"

definition execute :: "'r world \<Rightarrow> ExecutionPlan \<Rightarrow> 'r shell \<Rightarrow> (ExecutionResult step_end \<times> 'r shell) option" where
  "execute w ep sh = execute_steps (execute_pipeline w) (steps ep) False (exec_result False 0 0) sh"

end
