(* ===== verification/Main_Loop.thy ===== *)
theory Main_Loop
  imports Executor
begin

text \<open>
  \<open>src/main.cpp\<close>: completion, the signal handler and the event hook of the prompt, and the loop that
  reads, parses and executes. GNU Readline is a parameter: the operations that the code calls on it
  (\<open>editor\<close>), and for every call of \<open>readline\<close> a \<open>prompt\<close> that says which callbacks it makes, which
  signals arrive, what it does to its own state and what it returns. \<open>None\<close> is ``does not return''.
\<close>

section \<open>State\<close>

text \<open>
  The variables of the file, the two static variables of \<open>command_completion\<close>, and the state of the
  shell. \<open>prompt_interrupted\<close> holds 0 or 1 only, and \<open>active_executor\<close> is null or the executor.
\<close>

record 'r main_state =
  completion_matches :: "string list"
  completion_prefix :: string
  first_tab_pressed :: bool
  prompt_interrupted :: bool
  active_executor :: bool
  static_matches :: "string list"
  static_index :: nat
  sh :: "'r shell"

text \<open>The signals that the shell handles, and what happens while \<open>readline\<close> waits for input.\<close>

datatype signal = Sigint | Sigchld

datatype prompt_event = Signal signal | Event_hook | Attempt_completion string int int

text \<open>
  One round of the prompt: the signals that arrived since the last prompt, the events during the call of
  \<open>readline\<close>, the effect of the call on the state of Readline, and its result (\<open>None\<close> is the null
  pointer).
\<close>

record 'r prompt =
  arrivals :: "signal list"
  events :: "prompt_event list"
  edited :: "'r \<Rightarrow> 'r"
  line_read :: "string option"

type_synonym 'r generator = "string \<Rightarrow> int \<Rightarrow> 'r main_state \<Rightarrow> string option \<times> 'r main_state"

record 'r editor =
  rl_replace_line :: "string \<Rightarrow> int \<Rightarrow> 'r \<Rightarrow> 'r"
  set_rl_done :: "int \<Rightarrow> 'r \<Rightarrow> 'r"
  rl_forced_update_display :: "'r \<Rightarrow> 'r"
  rl_set_keyboard_input_timeout :: "int \<Rightarrow> 'r \<Rightarrow> 'r"
  rl_completion_matches :: "string \<Rightarrow> 'r generator \<Rightarrow> 'r main_state \<Rightarrow> string list option \<times> 'r main_state"

definition map_calls :: "(trace \<Rightarrow> trace) \<Rightarrow> 'r main_state \<Rightarrow> 'r main_state" where
  "map_calls f s = s\<lparr>sh := sh s\<lparr>calls := f (calls (sh s))\<rparr>\<rparr>"

definition map_hist :: "('r HistoryState \<Rightarrow> 'r HistoryState) \<Rightarrow> 'r main_state \<Rightarrow> 'r main_state" where
  "map_hist f s = s\<lparr>sh := sh s\<lparr>hist := f (hist (sh s))\<rparr>\<rparr>"

definition map_rl :: "('r \<Rightarrow> 'r) \<Rightarrow> 'r main_state \<Rightarrow> 'r main_state" where
  "map_rl f = map_hist (\<lambda>hs. hs\<lparr>rl_state := f (rl_state hs)\<rparr>)"

text \<open>Both standard streams are unit-buffered, so every output reaches its descriptor at once.\<close>

definition cout :: "string \<Rightarrow> 'r main_state \<Rightarrow> 'r main_state" where
  "cout txt = map_calls (emit (WriteAll STDOUT_FILENO txt))"

definition cerr :: "string \<Rightarrow> 'r main_state \<Rightarrow> 'r main_state" where
  "cerr txt = map_calls (emit (WriteAll STDERR_FILENO txt))"


section \<open>Signals and the event hook\<close>

definition handle_prompt_sigint :: "'r main_state \<Rightarrow> 'r main_state" where
  "handle_prompt_sigint s = map_calls (emit (Write STDOUT_FILENO [newline])) (s\<lparr>prompt_interrupted := True\<rparr>)"

definition deliver :: "signal \<Rightarrow> 'r main_state \<Rightarrow> 'r main_state" where
  "deliver sig s =
     (case sig of
        Sigint \<Rightarrow> handle_prompt_sigint s
      | Sigchld \<Rightarrow> s\<lparr>sh := sh s\<lparr>jobs := on_sigchld (jobs (sh s))\<rparr>\<rparr>)"

definition reap_background_jobs :: "'r world \<Rightarrow> bool \<Rightarrow> 'r main_state \<Rightarrow> 'r main_state option" where
  "reap_background_jobs w notify s =
     map_option (\<lambda>(jc, h). s\<lparr>sh := sh s\<lparr>jobs := jc, calls := h\<rparr>\<rparr>)
       (reap_background (sys w) notify (jobs (sh s)) (calls (sh s)))"

definition readline_event_hook :: "'r world \<Rightarrow> 'r editor \<Rightarrow> 'r main_state \<Rightarrow> 'r main_state option" where
  "readline_event_hook w ed s =
     Option.bind (if active_executor s then reap_background_jobs w False s else Some s) (\<lambda>s1.
       Some (if prompt_interrupted s1 then map_rl (set_rl_done ed 1 \<circ> rl_replace_line ed [] 0) s1 else s1))"


section \<open>Completion\<close>

definition bell :: char where
  "bell = CHR 0x07"

definition ring_bell :: "'r main_state \<Rightarrow> 'r main_state" where
  "ring_bell = cout [bell]"

fun common_length :: "string \<Rightarrow> string \<Rightarrow> nat" where
  "common_length (a # as) (b # bs) = (if a = b then Suc (common_length as bs) else 0)"
| "common_length _ _ = 0"

fun longest_common_prefix :: "string list \<Rightarrow> string" where
  "longest_common_prefix [] = []"
| "longest_common_prefix (m # ms) = foldl (\<lambda>prefix m. take (common_length prefix m) prefix) m ms"

text \<open>\<open>std::sort\<close>; any sorting algorithm gives the same list, since \<open>operator<\<close> is a strict total order.\<close>

fun insert_string :: "string \<Rightarrow> string list \<Rightarrow> string list" where
  "insert_string x [] = [x]"
| "insert_string x (y # ys) = (if str_less y x then y # insert_string x ys else x # y # ys)"

definition sort_strings :: "string list \<Rightarrow> string list" where
  "sort_strings xs = foldr insert_string xs []"

definition starts_with :: "string \<Rightarrow> string \<Rightarrow> bool" where
  "starts_with pre s \<longleftrightarrow> take (length pre) s = pre"

definition candidates :: "environ \<Rightarrow> string \<Rightarrow> string list" where
  "candidates e pre = remdups_adj (sort_strings (filter (starts_with pre) (builtin_commands @ get_path_executables e)))"

definition command_completion :: "'r world \<Rightarrow> 'r generator" where
  "command_completion w txt state s =
     (let s1 = (if state = 0 then
                  (let prefix = c_str txt; ms = candidates (env w (calls (sh s))) prefix
                   in s\<lparr>static_index := 0, static_matches := ms, completion_matches := ms, completion_prefix := prefix\<rparr>)
                else s)
      in if length (static_matches s1) \<le> static_index s1 then (None, s1)
         else (Some (c_str (static_matches s1 ! static_index s1)), s1\<lparr>static_index := static_index s1 + 1\<rparr>))"

fun list_rest :: "string list \<Rightarrow> 'r main_state \<Rightarrow> 'r main_state" where
  "list_rest [] s = s"
| "list_rest (m # ms) s = list_rest ms (cout m (cout ''  '' s))"

fun list_matches :: "string list \<Rightarrow> 'r main_state \<Rightarrow> 'r main_state" where
  "list_matches [] s = s"
| "list_matches (m # ms) s = list_rest ms (cout m s)"

definition shell_completion :: "'r world \<Rightarrow> 'r editor \<Rightarrow> string \<Rightarrow> int \<Rightarrow> 'r main_state \<Rightarrow> string list option \<times> 'r main_state" where
  "shell_completion w ed txt start s =
     (if start \<noteq> 0 then (None, s)
      else let (matches, s1) = rl_completion_matches ed txt (command_completion w) s
        in if completion_matches s1 = [] then (matches, (ring_bell s1)\<lparr>first_tab_pressed := False\<rparr>)
           else if length (completion_matches s1) = 1 then (matches, s1\<lparr>first_tab_pressed := False\<rparr>)
           else if \<not> first_tab_pressed s1 then
             (if length (completion_prefix s1) < length (longest_common_prefix (completion_matches s1))
              then (matches, s1\<lparr>first_tab_pressed := False\<rparr>)
              else (None, (ring_bell s1)\<lparr>first_tab_pressed := True\<rparr>))
           else (None, (map_rl (rl_forced_update_display ed)
                          (cout [newline] (list_matches (completion_matches s1) (cout [newline] s1))))
                       \<lparr>first_tab_pressed := False\<rparr>))"


section \<open>The prompt\<close>

definition handle_event :: "'r world \<Rightarrow> 'r editor \<Rightarrow> prompt_event \<Rightarrow> 'r main_state \<Rightarrow> 'r main_state option" where
  "handle_event w ed ev s =
     (case ev of
        Signal sig \<Rightarrow> Some (deliver sig s)
      | Event_hook \<Rightarrow> readline_event_hook w ed s
      | Attempt_completion txt start _ \<Rightarrow> Some (snd (shell_completion w ed txt start s)))"

fun prompt_events :: "'r world \<Rightarrow> 'r editor \<Rightarrow> prompt_event list \<Rightarrow> 'r main_state \<Rightarrow> 'r main_state option" where
  "prompt_events w ed [] s = Some s"
| "prompt_events w ed (ev # evs) s = Option.bind (handle_event w ed ev s) (prompt_events w ed evs)"

definition initialize_readline :: "'r world \<Rightarrow> 'r editor \<Rightarrow> 'r main_state \<Rightarrow> 'r main_state" where
  "initialize_readline w ed s =
     (let s1 = map_rl (rl_set_keyboard_input_timeout ed 100000)
                 (map_calls (emit (Sigaction SIGINT Handle_prompt_sigint)) s)
      in map_hist (initialize (readline w) (env w (calls (sh s1)))) s1)"


section \<open>The main loop\<close>

text \<open>How a round of the loop ends: with the next round, with a result of \<open>main\<close>, or in a child process.\<close>

datatype round_end = Again | Return int | Leave child_end

definition execute_input :: "'r world \<Rightarrow> string \<Rightarrow> 'r main_state \<Rightarrow> (round_end \<times> 'r main_state) option" where
  "execute_input w input s =
     Option.bind (parse_line input) (\<lambda>parsed.
       if \<not> parse_ok parsed then Some (Again, cerr [newline] (cerr (parse_error parsed) s))
       else if steps (plan parsed) = [] then Some (Again, s)
       else Option.bind (execute w (plan parsed) (sh s)) (\<lambda>(e, sh1).
         case e of
           Inl c \<Rightarrow> Some (Leave c, s\<lparr>sh := sh1\<rparr>)
         | Inr r \<Rightarrow> if exit_requested r
                    then Some (Return (exit_code r), map_hist (save_session (readline w)) (s\<lparr>sh := sh1\<rparr>))
                    else Some (Again, s\<lparr>sh := sh1\<rparr>)))"

text \<open>Up to the call of \<open>readline\<close>; the signals that arrived since the last prompt are delivered first.\<close>

definition before_readline :: "'r world \<Rightarrow> 'r prompt \<Rightarrow> 'r main_state \<Rightarrow> 'r main_state option" where
  "before_readline w p s =
     map_option (\<lambda>s1. s1\<lparr>first_tab_pressed := False\<rparr>)
       (reap_background_jobs w True (fold deliver (arrivals p) s))"

definition main_round :: "'r world \<Rightarrow> 'r editor \<Rightarrow> 'r prompt \<Rightarrow> 'r main_state \<Rightarrow> (round_end \<times> 'r main_state) option" where
  "main_round w ed p s =
     Option.bind (before_readline w p s) (\<lambda>s1.
     Option.bind (prompt_events w ed (events p) s1) (\<lambda>s2.
       let s3 = map_rl (edited p) s2
       in case line_read p of
            None \<Rightarrow> Some (Return 0, map_hist (save_session (readline w)) (cout [newline] s3))
          | Some input_cstr \<Rightarrow>
              Option.bind (reap_background_jobs w True s3) (\<lambda>s4.
                let input = c_str input_cstr; interrupted = prompt_interrupted s4;
                    s5 = s4\<lparr>prompt_interrupted := False\<rparr>;
                    s6 = (if \<not> interrupted \<and> input \<noteq> [] then map_rl (add_history (readline w) input) s5 else s5)
                in if interrupted then Some (Again, s6)
                   else if input = [] then Some (Again, s6)
                   else execute_input w input s6)))"

partial_function (option) main_loop ::
  "'r world \<Rightarrow> 'r editor \<Rightarrow> (nat \<Rightarrow> 'r prompt) \<Rightarrow> nat \<Rightarrow> 'r main_state \<Rightarrow> (int step_end \<times> 'r main_state) option" where
  "main_loop w ed session n s =
     Option.bind (main_round w ed (session n) s) (\<lambda>(r, s1).
       case r of
         Again \<Rightarrow> main_loop w ed session (n + 1) s1
       | Return code \<Rightarrow> Some (Inr code, s1)
       | Leave c \<Rightarrow> Some (Inl c, s1))"

declare main_loop.simps [code]

text \<open>The state before the first prompt; the history module is given with its initial values.\<close>

definition main_init :: "'r world \<Rightarrow> 'r editor \<Rightarrow> 'r HistoryState \<Rightarrow> 'r main_state option" where
  "main_init w ed hs =
     map_option (\<lambda>(jc, h). initialize_readline w ed
         \<lparr>completion_matches = [], completion_prefix = [], first_tab_pressed = False, prompt_interrupted = False,
          active_executor = True, static_matches = [], static_index = 0, sh = \<lparr>jobs = jc, hist = hs, calls = h\<rparr>\<rparr>)
       (job_control_init (sys w) [])"

definition main :: "'r world \<Rightarrow> 'r editor \<Rightarrow> (nat \<Rightarrow> 'r prompt) \<Rightarrow> 'r HistoryState \<Rightarrow> (int step_end \<times> 'r main_state) option" where
  "main w ed session hs = Option.bind (main_init w ed hs) (main_loop w ed session 0)"

end
