(* ===== verification/Executor_Theorems.thy ===== *)
theory Executor_Theorems
  imports Executor
begin

text \<open>
  The promises of the executor: the session invariant of job control survives every plan, every plan
  returns when children end, and a plan means the left-associative short-circuit evaluation of its
  pipelines. The interface between the loop over a plan and the way a
  pipeline is run is the locale \<open>plan_runner\<close>.
\<close>

section \<open>The interface of a plan\<close>

locale plan_runner =
  fixes run :: "Pipeline \<Rightarrow> 's \<Rightarrow> (ExecutionResult step_end \<times> 's) option"
    and inv :: "'s \<Rightarrow> bool"
  assumes run_inv: "inv s \<Longrightarrow> run p s = Some (e, s') \<Longrightarrow> inv s' \<and> (\<exists>r. e = Inr r)"
begin

lemma execute_steps_inv:
  "inv s \<Longrightarrow> execute_steps run stps hs lst s = Some (e, s') \<Longrightarrow> inv s' \<and> (\<exists>r. e = Inr r)"
proof (induction stps arbitrary: hs lst s)
  case (Cons stp stps)
  show ?case
  proof (cases "hs \<and> \<not> should_execute (connector stp) (status lst)")
    case True
    with Cons show ?thesis by simp
  next
    case False
    with Cons.prems(2) obtain e1 s1 where r: "run (pipeline stp) s = Some (e1, s1)"
      by (auto simp: bind_eq_Some_conv)
    from run_inv [OF Cons.prems(1) r] obtain r1 where e1: "inv s1" "e1 = Inr r1" by blast
    with Cons False r show ?thesis by (auto split: if_splits)
  qed
qed auto

end


section \<open>Traces of the parent\<close>

lemma parent_safe_quiet: "parent_safe c \<Longrightarrow> no_tcsetpgrp [c]"
  by (cases c) (simp_all add: parent_safe_def no_tcsetpgrp_def)

lemma safe_ext_no_tcsetpgrp: "safe_ext h h' \<Longrightarrow> \<exists>cs. h' = h @ cs \<and> no_tcsetpgrp cs"
proof -
  have "list_all parent_safe cs \<Longrightarrow> no_tcsetpgrp cs" for cs
    by (induction cs) (auto simp: no_tcsetpgrp_def dest!: parent_safe_quiet)
  then show "safe_ext h h' \<Longrightarrow> ?thesis" by (auto simp: safe_ext_def)
qed

lemma session_ok_safe_ext: "session_ok jc h \<Longrightarrow> safe_ext h h' \<Longrightarrow> session_ok jc h'"
  using safe_ext_no_tcsetpgrp session_ok_quiet by blast

lemma safe_ext_append [simp]: "safe_ext h (h @ cs) = list_all parent_safe cs"
  by (auto simp: safe_ext_def)

lemma close_fd_safe [simp]: "safe_ext h h' \<Longrightarrow> safe_ext h (close_fd fd h')"
  by (simp add: close_fd_def)

lemma close_all_pipes_safe: "safe_ext h (close_all_pipes pipes h)"
proof (induction pipes arbitrary: h)
  case (Cons p pipes)
  obtain r w where p: "p = (r, w)" by (cases p)
  have "safe_ext h (close_fd w (close_fd r h))" by simp
  from safe_ext_trans [OF this Cons] p show ?case by simp
qed simp

lemma destroy_pipes_safe: "safe_ext h (destroy_pipes pipes h)"
proof (induction pipes arbitrary: h)
  case (Cons p pipes)
  obtain r w where p: "p = (r, w)" by (cases p)
  have "safe_ext h (close_fd r (close_fd w h))" by simp
  from safe_ext_trans [OF this Cons] p show ?case by simp
qed simp

lemma make_pipes_safe: "make_pipes K n ps h = (ok, ps', h') \<Longrightarrow> safe_ext h h'"
proof (induction n arbitrary: ps h)
  case (Suc n)
  have "parent_safe MkPipe" by (simp add: parent_safe_def)
  with Suc show ?case by (auto simp: syscall_def split: if_splits intro: safe_ext_step)
qed simp

lemma open_redirects_safe: "open_redirects K command h = (r, h') \<Longrightarrow> safe_ext h h'"
  by (auto simp: open_redirects_def open_input_redirect_def open_output_redirect_def syscall_def Let_def
      split: if_splits)

text \<open>The calls of the fork loop: they keep the terminal where it is.\<close>

definition quiet_tc :: "trace \<Rightarrow> trace \<Rightarrow> bool" where
  "quiet_tc h h' \<longleftrightarrow> (\<exists>cs. h' = h @ cs \<and> no_tcsetpgrp cs)"

lemma quiet_tc_refl [simp]: "quiet_tc h h"
  by (simp add: quiet_tc_def)

lemma quiet_tc_trans: "quiet_tc a b \<Longrightarrow> quiet_tc b c \<Longrightarrow> quiet_tc a c"
  by (auto simp: quiet_tc_def)

lemma quiet_tc_snoc [simp]: "quiet_tc h h' \<Longrightarrow> no_tcsetpgrp [c] \<Longrightarrow> quiet_tc h (h' @ [c])"
  by (auto simp: quiet_tc_def)

lemma quiet_tc_safe: "safe_ext h h' \<Longrightarrow> quiet_tc h h'"
  by (simp add: quiet_tc_def safe_ext_no_tcsetpgrp)

lemma session_ok_quiet_tc: "session_ok jc h \<Longrightarrow> quiet_tc h h' \<Longrightarrow> session_ok jc h'"
  by (auto simp: quiet_tc_def session_ok_quiet)

text \<open>The kernel as the parent sees it: \<open>fork\<close> fails or answers the identifier of a child.\<close>

definition forks_as_parent :: "kernel \<Rightarrow> bool" where
  "forks_as_parent K \<longleftrightarrow> (\<forall>h i. ret (K h (Fork i)) = -1 \<or> 0 < ret (K h (Fork i)))"

lemma forks_as_parent_not_0: "forks_as_parent K \<Longrightarrow> ret (K h (Fork i)) \<noteq> 0"
  unfolding forks_as_parent_def by (metis less_irrefl zero_neq_neg_one)

text \<open>One round of the fork loop in the parent.\<close>

lemma launch_loop_next:
  assumes "args c \<noteq> []" "pid = ret (sys w h (Fork i))" "pid \<noteq> -1" "pid \<noteq> 0"
  obtains mid g where "launch_loop w (c # cs) i n pipes pgid pids sh h = launch_loop w cs (i + 1) n pipes g (pids @ [pid]) sh (h @ mid)"
    "mid = [Fork i, Setpgid pid g] \<or> (\<exists>t. mid = [Fork i, Setpgid pid g, WriteAll STDERR_FILENO t])"
proof -
  define f where "f = Fork i"
  define g where "g = (if pgid = 0 then pid else pgid)"
  define r2 where "r2 = sys w (h @ [f]) (Setpgid pid g)"
  define t where "t = ''Failed to assign process group'' @ [newline]"
  define mid where "mid = (if ret r2 = -1 \<and> errno r2 \<noteq> EACCES \<and> errno r2 \<noteq> ESRCH
      then [f, Setpgid pid g, WriteAll STDERR_FILENO t] else [f, Setpgid pid g])"
  have "(if ret r2 = -1 \<and> errno r2 \<noteq> EACCES \<and> errno r2 \<noteq> ESRCH
      then emit (WriteAll STDERR_FILENO t) ((h @ [f]) @ [Setpgid pid g]) else (h @ [f]) @ [Setpgid pid g]) = h @ mid"
    by (simp add: mid_def emit_def)
  moreover have "launch_loop w (c # cs) i n pipes pgid pids sh h = launch_loop w cs (i + 1) n pipes g (pids @ [pid]) sh
      (if ret r2 = -1 \<and> errno r2 \<noteq> EACCES \<and> errno r2 \<noteq> ESRCH
       then emit (WriteAll STDERR_FILENO t) ((h @ [f]) @ [Setpgid pid g]) else (h @ [f]) @ [Setpgid pid g])"
    using assms by (simp add: syscall_def f_def g_def r2_def t_def Let_def split del: if_split cong: if_cong)
  ultimately have "launch_loop w (c # cs) i n pipes pgid pids sh h = launch_loop w cs (i + 1) n pipes g (pids @ [pid]) sh (h @ mid)"
    by simp
  then show thesis by (rule that) (auto simp: mid_def f_def)
qed

lemma launch_loop_parent:
  assumes "forks_as_parent (sys w)"
  shows "\<exists>e h'. launch_loop w cs i n pipes pgid pids sh h = Some (Inr e, h') \<and> quiet_tc h h' \<and>
    (\<forall>g ps. e = Launched g ps \<longrightarrow> (\<exists>new. ps = pids @ new))"
proof (induction cs arbitrary: i pgid pids h)
  case (Cons c cs)
  show ?case
  proof (cases "args c = []")
    case True
    with Cons show ?thesis by simp
  next
    case False
    define f where "f = Fork i"
    define pid where "pid = ret (sys w h f)"
    have n0: "pid \<noteq> 0" using forks_as_parent_not_0 [OF assms] by (simp add: pid_def f_def)
    have qf: "quiet_tc h (h @ [f])" by (simp add: f_def)
    show ?thesis
    proof (cases "pid = -1")
      case True
      define h2 where "h2 = close_all_pipes pipes (emit (WriteAll STDERR_FILENO (''Failed to fork process'' @ [newline])) (h @ [f]))"
      have "quiet_tc h h2" unfolding h2_def
        by (rule quiet_tc_trans [OF _ quiet_tc_safe [OF close_all_pipes_safe]]) (simp add: emit_def qf del: append_assoc)
      with False True show ?thesis
        by (auto simp: syscall_def emit_def pid_def f_def h2_def Let_def)
    next
      case pos: False
      obtain mid g where m: "launch_loop w (c # cs) i n pipes pgid pids sh h = launch_loop w cs (i + 1) n pipes g (pids @ [pid]) sh (h @ mid)"
        "mid = [Fork i, Setpgid pid g] \<or> (\<exists>t. mid = [Fork i, Setpgid pid g, WriteAll STDERR_FILENO t])"
        by (rule launch_loop_next [of c pid w h i, OF False _ pos n0]) (simp_all add: pid_def f_def)
      then have "quiet_tc h (h @ mid)" by (auto simp: quiet_tc_def)
      moreover obtain e h' where "launch_loop w cs (i + 1) n pipes g (pids @ [pid]) sh (h @ mid) = Some (Inr e, h')"
        "quiet_tc (h @ mid) h'" "\<forall>g ps. e = Launched g ps \<longrightarrow> (\<exists>new. ps = (pids @ [pid]) @ new)"
        using Cons.IH [of "i + 1" g "pids @ [pid]" "h @ mid"] by blast
      moreover note m(1)
      ultimately show ?thesis by (auto intro: quiet_tc_trans)
    qed
  qed
qed simp

section \<open>Every pipeline keeps the session invariant\<close>

lemma execute_job_builtin_session:
  assumes "execute_job_builtin K command out err jc h = Some (st, jc', h')" "session_ok jc h"
  shows "session_ok jc' h'"
proof -
  let ?spec = "if 1 < length (args command) then args command ! 1 else []"
  consider (jobs) jc1 h1 where "reap_background K False jc h = Some (jc1, h1)" "jc' = jc1"
      "h' = emit (WriteAll out (render_jobs jc1)) h1"
    | (fg) "foreground K ?spec out err jc h = Some (st, jc', h')"
    | (bg) "continue_background K ?spec out err jc h = Some (st, jc', h')"
    | (none) "jc' = jc" "h' = h"
    using assms(1) unfolding execute_job_builtin_def Let_def
    by (cases "hd (args command) = ''jobs''"; cases "hd (args command) = ''fg''"; cases "hd (args command) = ''bg''") auto
  then show ?thesis
  proof cases
    case jobs
    with reap_background_session(1) [OF jobs(1) assms(2)] show ?thesis by (simp add: session_ok_emit)
  qed (use assms(2) in \<open>auto dest: foreground_session continue_background_session\<close>)
qed

lemma execute_parent_builtin_session:
  assumes "execute_parent_builtin w command sh = Some (e, sh')" "session_ok (jobs sh) (calls sh)"
  shows "session_ok (jobs sh') (calls sh') \<and> (\<exists>r. e = Inr r)"
proof -
  obtain red h1 where o: "open_redirects (sys w) command (calls sh) = (red, h1)" by fastforce
  have s1: "session_ok (jobs sh) h1" by (rule session_ok_safe_ext [OF assms(2) open_redirects_safe [OF o]])
  show ?thesis
  proof (cases red)
    case None
    with assms(1) o s1 show ?thesis by (auto simp: execute_parent_builtin_def)
  next
    case (Some fds)
    obtain i oo er where fds: "fds = (i, oo, er)" by (cases fds)
    let ?out = "if has_output_redirect command then oo else STDOUT_FILENO"
    let ?err = "if has_error_redirect command then er else STDERR_FILENO"
    have close: "session_ok jc (close_fd a (close_fd b (close_fd c h)))" if "session_ok jc h" for jc h a b c
      by (rule session_ok_safe_ext [OF that]) simp
    show ?thesis
    proof (cases "is_job_builtin (hd (args command))")
      case True
      with assms(1) o Some fds obtain st jc h2 where "execute_job_builtin (sys w) command ?out ?err (jobs sh) h1 = Some (st, jc, h2)"
        "e = Inr (exec_result False 0 st)" "sh' = sh\<lparr>jobs := jc, calls := close_fd i (close_fd oo (close_fd er h2))\<rparr>"
        by (auto simp: execute_parent_builtin_def Let_def)
      with s1 show ?thesis by (auto intro!: close dest: execute_job_builtin_session)
    next
      case False
      with assms(1) o Some fds obtain r s2 h2 where b: "execute_builtin w command ?out ?err ParentShell (hist sh) h1 = Some (r, s2, h2)"
        and rest: "(case r of Inl c \<Rightarrow> (Inl c, sh\<lparr>hist := s2, calls := h2\<rparr>)
          | Inr b \<Rightarrow> (Inr (exec_result (b_exit_requested b) (b_exit_code b) (b_status b)),
              sh\<lparr>hist := s2, calls := close_fd i (close_fd oo (close_fd er h2))\<rparr>)) = (e, sh')"
        by (auto simp: execute_parent_builtin_def Let_def)
      obtain b' where r: "r = Inr b'" and safe: "safe_ext h1 h2"
        using execute_builtin_parent [OF b] by blast
      have "session_ok (jobs sh) h2" by (rule session_ok_safe_ext [OF s1 safe])
      with r rest show ?thesis by (auto intro!: close)
    qed
  qed
qed

lemma finish_launch_session:
  assumes "finish_launch K pl g pids jc h = Some (r, jc', h')" "session_ok jc h"
  shows "session_ok jc' h'"
proof (cases "pids = []")
  case True
  with assms show ?thesis by (simp add: finish_launch_def)
next
  case False
  obtain i jc1 where a: "add_job g pids (last pids) (format_pipeline pl) jc = (i, jc1)" by fastforce
  have s1: "session_ok jc1 h" using add_job_session [OF assms(2) False, of g "last pids" "format_pipeline pl"] a by simp
  show ?thesis
  proof (cases "background pl")
    case True
    with assms False a s1 show ?thesis by (auto simp: finish_launch_def intro: session_ok_emit)
  next
    case fg: False
    with assms False a obtain st where "wait_foreground K i False jc1 h = Some (st, jc', h')"
      by (auto simp: finish_launch_def)
    from wait_foreground_session(1) [OF this s1] show ?thesis by simp
  qed
qed

lemma execute_pipeline_session:
  assumes "execute_pipeline w pl sh = Some (e, sh')" "session_ok (jobs sh) (calls sh)" "forks_as_parent (sys w)"
  shows "session_ok (jobs sh') (calls sh') \<and> (\<exists>r. e = Inr r)"
proof -
  consider "commands pl = []" | "commands pl \<noteq> []" "runs_in_parent pl" | "commands pl \<noteq> []" "\<not> runs_in_parent pl" by blast
  then show ?thesis
  proof cases
    case 1
    with assms show ?thesis by (auto simp: execute_pipeline_def)
  next
    case 2
    with assms show ?thesis by (auto simp: execute_pipeline_def dest: execute_parent_builtin_session)
  next
    case 3
    obtain ok ps h1 where m: "make_pipes (sys w) (length (commands pl) - 1) [] (calls sh) = (ok, ps, h1)"
      by (metis prod_cases3)
    have s1: "session_ok (jobs sh) h1" by (rule session_ok_safe_ext [OF assms(2) make_pipes_safe [OF m]])
    show ?thesis
    proof (cases ok)
      case False
      with 3 m assms(1) have "e = Inr (exec_result False 0 1)" "sh' = sh\<lparr>calls := destroy_pipes ps h1\<rparr>"
        by (auto simp: execute_pipeline_def)
      with session_ok_safe_ext [OF s1 destroy_pipes_safe] show ?thesis by simp
    next
      case True
      obtain l h2 where l: "launch_loop w (commands pl) 0 (length (commands pl)) ps 0 [] sh h1 = Some (Inr l, h2)"
        "quiet_tc h1 h2" using launch_loop_parent [OF assms(3)] by blast
      have s2: "session_ok (jobs sh) h2" by (rule session_ok_quiet_tc [OF s1 l(2)])
      have s3: "session_ok (jobs sh) (close_all_pipes ps h2)" by (rule session_ok_safe_ext [OF s2 close_all_pipes_safe])
      show ?thesis
      proof (cases l)
        case Fork_failed
        with 3 m True l assms(1) s2 show ?thesis by (auto simp: execute_pipeline_def)
      next
        case (Launched g pids)
        with 3 m True l assms(1) obtain r jc h3 where "finish_launch (sys w) pl g pids (jobs sh) (close_all_pipes ps h2) = Some (r, jc, h3)"
          "e = Inr r" "sh' = sh\<lparr>jobs := jc, calls := h3\<rparr>"
          by (auto simp: execute_pipeline_def)
        with finish_launch_session [OF _ s3] show ?thesis by auto
      qed
    qed
  qed
qed

interpretation sessions: plan_runner "execute_pipeline w"
    "\<lambda>sh. forks_as_parent (sys w) \<and> session_ok (jobs sh) (calls sh)" for w
  by unfold_locales (auto dest: execute_pipeline_session)

section \<open>Every pipeline returns when children end\<close>

definition no_watch :: "string list \<Rightarrow> bool" where
  "no_watch as \<longleftrightarrow> (\<forall>a \<in> set as. a \<noteq> ''--watch'' \<and> a \<noteq> ''-w'')"

definition single_sample :: "PinfoOptions \<Rightarrow> bool" where
  "single_sample o1 \<longleftrightarrow> \<not> pi_watch o1 \<and> (\<not> pi_count_explicit o1 \<longrightarrow> pi_count o1 = 1)"

lemma pinfo_option_single:
  assumes "pinfo_option self o1 arg rest = Inr (o2, rest')" "single_sample o1" "no_watch (arg # rest)"
  shows "single_sample o2 \<and> no_watch rest'"
proof -
  have "pinfo_flag_of arg \<noteq> WatchFlag" using assms(3) by (auto simp: pinfo_flag_of_def no_watch_def)
  moreover have "no_watch rest" "no_watch (tl rest)" using assms(3) by (cases rest; auto simp: no_watch_def)+
  ultimately show ?thesis using assms(1,2)
    by (auto simp: pinfo_option_def Let_def single_sample_def split: pinfo_flag.splits if_splits option.splits)
qed

lemma pinfo_options_single:
  assumes "pinfo_options self o1 as = Options o2" "single_sample o1" "no_watch as"
  shows "single_sample o2"
  using assms
proof (induction self o1 "as" rule: pinfo_options.induct)
  case (2 self o1 arg rest)
  show ?case
  proof (cases "pinfo_option self o1 arg rest")
    case (Inl stop)
    with 2(2) pinfo_option_never_options [of self o1 arg rest o2] show ?thesis by simp
  next
    case (Inr x)
    obtain o3 rest' where x: "x = (o3, rest')" by (cases x)
    with 2 Inr pinfo_option_single [of self o1 arg rest o3 rest'] show ?thesis by simp
  qed
qed simp

text \<open>Files end: reading a descriptor again and again finally reaches the end of the file or an error.\<close>

definition files_end :: "kernel \<Rightarrow> bool" where
  "files_end K \<longleftrightarrow>
     (\<forall>fd h. \<exists>n. let r = K (h @ replicate n (Read fd 4096)) (Read fd 4096) in ret r \<le> 0 \<and> \<not> (ret r < 0 \<and> errno r = EINTR))"

lemma read_loop_returns:
  assumes "files_end K"
  shows "\<exists>r. read_loop K fd acc h = Some r"
proof -
  let ?c = "Read fd 4096"
  have "\<exists>r. read_loop K fd acc h = Some r"
    if "ret (K (h @ replicate n ?c) ?c) \<le> 0 \<and> \<not> (ret (K (h @ replicate n ?c) ?c) < 0 \<and> errno (K (h @ replicate n ?c) ?c) = EINTR)"
    for n
    using that
  proof (induction n arbitrary: acc h)
    case 0
    then show ?case by (subst read_loop.simps) (auto simp: syscall_def)
  next
    case (Suc n)
    from Suc.IH [of "h @ [?c]"] Suc.prems have "\<exists>r. read_loop K fd acc (h @ [?c]) = Some r" for acc by simp
    then show ?case by (subst read_loop.simps) (simp add: syscall_def)
  qed
  with assms show ?thesis unfolding files_end_def Let_def by blast
qed

lemma read_file_returns:
  assumes "files_end K"
  obtains r h' where "read_file K path h = Some (r, h')"
proof -
  have "\<exists>x. read_file K path h = Some x"
    using read_loop_returns [OF assms] by (auto simp: read_file_def syscall_def)
  then show thesis using that by auto
qed

lemma inspect_process_returns:
  assumes "files_end K"
  shows "\<exists>r. inspect_process e K pid h = Some r"
proof -
  obtain r1 h1 where r1: "read_file K (proc_file pid ''/stat'') h = Some (r1, h1)" by (rule read_file_returns [OF assms])
  have rest: "\<exists>r. inspect_rest K pid i h = Some r" for i h
  proof -
    obtain r2 h2 where r2: "read_file K (proc_file pid ''/status'') h = Some (r2, h2)" by (rule read_file_returns [OF assms])
    obtain r3 h3 where r3: "read_file K (proc_file pid ''/cmdline'') h2 = Some (r3, h3)" by (rule read_file_returns [OF assms])
    show ?thesis by (simp add: inspect_rest_def r2 r3 split_beta Let_def)
  qed
  show ?thesis
  proof (cases "parse_stat K (rr_data r1) h1")
    case (Pair p h2)
    with rest [of "projr p" h2] r1 show ?thesis
      by (cases p) (auto simp: inspect_process_def simp del: split_paired_Ex)
  qed
qed

lemma pinfo_loop_single:
  assumes "pi_count o1 = 1" "files_end K"
  shows "\<exists>r. pinfo_loop E K o1 out err 0 h = Some r"
proof -
  obtain i h1 where "inspect_process (E h) K (pi_pid o1) h = Some (i, h1)"
    using inspect_process_returns [OF assms(2)] by fastforce
  with assms(1) show ?thesis by (subst pinfo_loop.simps) (cases i; simp add: Let_def)
qed

lemma builtin_pinfo_returns:
  assumes "no_watch (args command)" "files_end K"
  shows "\<exists>r. builtin_pinfo E K command out err h = Some r"
proof -
  have t: "no_watch (tl (args command))" using assms(1) by (cases "args command") (auto simp: no_watch_def)
  have "\<exists>r. pinfo_loop E K o2 out err 0 h1 = Some r"
    if "pinfo_options self \<lparr>pi_pid = self, pi_watch = False, pi_pid_explicit = False, pi_interval_ms = 1000,
           pi_count = 1, pi_count_explicit = False\<rparr> (tl (args command)) = Options o2" "pinfo_check o2 = None" for self o2 h1
  proof -
    have "single_sample o2" using pinfo_options_single [OF that(1) _ t] by (simp add: single_sample_def)
    with that(2) have "pi_count o2 = 1" by (auto simp: single_sample_def pinfo_check_def split: if_splits)
    then show ?thesis using assms(2) by (rule pinfo_loop_single)
  qed
  then show ?thesis
    by (auto simp: builtin_pinfo_def Let_def syscall_def split: pinfo_parse.splits option.splits)
qed

lemma execute_builtin_returns:
  assumes "files_end (sys w)" "\<not> requires_child_builtin_execution command" "args command \<noteq> []"
  shows "\<exists>r. execute_builtin w command out err ParentShell s h = Some r"
proof (cases "hd (args command) = ''pinfo''")
  case True
  with assms have "no_watch (args command)"
    by (auto simp: requires_child_builtin_execution_def no_watch_def list_ex_iff)
  from builtin_pinfo_returns [OF this assms(1)] True assms(3) show ?thesis
    by (auto simp: execute_builtin_def Let_def) blast
next
  case False
  then show ?thesis
    unfolding execute_builtin_def Let_def
    by (simp only: if_False split: if_split)
      (auto simp: split_beta child_only_def)
qed

lemma execute_job_builtin_returns:
  assumes "children_end K N"
  shows "\<exists>r. execute_job_builtin K command out err jc h = Some r"
proof -
  obtain jc1 h1 where "reap_background K False jc h = Some (jc1, h1)" by (rule reap_background_returns [OF assms])
  with foreground_returns [OF assms] continue_background_returns [OF assms] show ?thesis
    by (auto simp: execute_job_builtin_def Let_def)
qed

lemma execute_parent_builtin_returns:
  assumes "children_end (sys w) N" "files_end (sys w)" "\<not> requires_child_builtin_execution command" "args command \<noteq> []"
  shows "\<exists>r. execute_parent_builtin w command sh = Some r"
  unfolding execute_parent_builtin_def Let_def
  using execute_job_builtin_returns [OF assms(1)] execute_builtin_returns [OF assms(2-4)]
  by (auto simp del: split_paired_Ex split: prod.split option.split if_split)

lemma execute_pipeline_returns:
  assumes "children_end (sys w) N" "forks_as_parent (sys w)" "files_end (sys w)"
  shows "\<exists>r. execute_pipeline w pl sh = Some r"
proof (cases "commands pl \<noteq> [] \<and> runs_in_parent pl")
  case True
  then have "args (hd (commands pl)) \<noteq> []" "\<not> requires_child_builtin_execution (hd (commands pl))"
    by (auto simp: runs_in_parent_def)
  with True execute_parent_builtin_returns [OF assms(1,3)] show ?thesis by (simp add: execute_pipeline_def)
next
  case False
  have f: "\<exists>r. finish_launch (sys w) pl g pids jc h = Some r" for g pids jc h
    using wait_foreground_returns [OF assms(1)] by (auto simp: finish_launch_def split_beta) metis
  obtain ok ps h1 where m: "make_pipes (sys w) (length (commands pl) - 1) [] (calls sh) = (ok, ps, h1)"
    by (metis prod_cases3)
  obtain l h2 where l: "launch_loop w (commands pl) 0 (length (commands pl)) ps 0 [] sh h1 = Some (Inr l, h2)"
    using launch_loop_parent [OF assms(2)] by blast
  show ?thesis
  proof (cases l)
    case Fork_failed
    with False m l show ?thesis by (cases ok) (auto simp: execute_pipeline_def)
  next
    case (Launched g pids)
    from f [of g pids "jobs sh" "close_all_pipes ps h2"] obtain r where
      "finish_launch (sys w) pl g pids (jobs sh) (close_all_pipes ps h2) = Some r" by blast
    with Launched False m l show ?thesis by (cases ok; cases r) (auto simp: execute_pipeline_def)
  qed
qed

lemma execute_returns:
  assumes "children_end (sys w) N" "forks_as_parent (sys w)" "files_end (sys w)"
  shows "\<exists>r. execute w ep sh = Some r"
proof -
  have "\<exists>r. execute_steps (execute_pipeline w) stps hs lst sh = Some r" for stps hs lst sh
  proof (induction stps arbitrary: hs lst sh)
    case (Cons stp stps)
    obtain e sh1 where "execute_pipeline w (pipeline stp) sh = Some (e, sh1)"
      using execute_pipeline_returns [OF assms, of "pipeline stp" sh] by auto
    with Cons [of True _ sh1] Cons [of hs lst sh] show ?case
      by (cases "hs \<and> \<not> should_execute (connector stp) (status lst)"; cases e)
        (auto simp del: split_paired_Ex)
  qed auto
  then show ?thesis by (simp add: execute_def)
qed

section \<open>Properties\<close>

text \<open>
  C13. The shell keeps its terminal and its job table through every plan. From a sound session, and
  for every kernel that forks as a parent sees it, executing any plan (pipelines, built-ins,
  redirections, job control, failing calls) never ends the shell process itself and leaves a sound
  job table, with the terminal in the shell's own process group.
\<close>

theorem plan_keeps_session:
  assumes "forks_as_parent (sys w)" "session_ok (jobs sh) (calls sh)" "execute w ep sh = Some (e, sh')"
  shows "(\<exists>r. e = Inr r) \<and> jc_inv (jobs sh') \<and>
    (jc_interactive (jobs sh') \<longrightarrow> terminal_owner (jc_terminal_fd (jobs sh')) (calls sh') = Some (jc_shell_pgid (jobs sh')))"
  using sessions.execute_steps_inv [of w sh "steps ep" False "exec_result False 0 0" e sh'] assms
  by (simp add: execute_def session_ok_def)

definition demo_shell :: "string list shell" where
  "demo_shell = \<lparr>jobs = fst demo_start, hist = demo_history, calls = snd demo_start\<rparr>"

definition job_world :: "string list world" where
  "job_world = demo_world\<lparr>sys := demo_kernel\<rparr>"

lemma demo_shell_ok: "forks_as_parent (sys job_world)" "session_ok (jobs demo_shell) (calls demo_shell)"
  "children_end (sys job_world) 2" "files_end (sys job_world)"
proof -
  show "forks_as_parent (sys job_world)"
    by (simp add: job_world_def forks_as_parent_def demo_kernel_def scripted_kernel_def reply_ok_def)
  show "session_ok (jobs demo_shell) (calls demo_shell)"
    using jc_reach_session [OF demo_start_reach] by (simp add: demo_shell_def)
  show "children_end (sys job_world) 2"
    using scripted_children_end [of "[(200, stop_status 20), (200, exit_status 3)]"]
    by (simp add: job_world_def demo_kernel_def numeral_2_eq_2)
  show "files_end (sys job_world)"
    by (simp add: job_world_def files_end_def demo_kernel_def scripted_kernel_def reply_ok_def)
qed

text \<open>The plan of \<open>cat || echo no\<close>; on the demonstration kernel \<open>cat\<close> is stopped.\<close>

definition demo_plan :: ExecutionPlan where
  "demo_plan = \<lparr>steps =
     [\<lparr>connector = Always, pipeline = \<lparr>commands = [empty_command\<lparr>args := [''cat'']\<rparr>], background = False\<rparr>\<rparr>,
      \<lparr>connector = Or, pipeline = \<lparr>commands = [empty_command\<lparr>args := [''echo'', ''no'']\<rparr>], background = False\<rparr>\<rparr>]\<rparr>"

theorem plan_keeps_session_witness:
  "\<exists>e sh'. execute job_world demo_plan demo_shell = Some (e, sh') \<and> jc_interactive (jobs sh') \<and>
     terminal_owner 0 (calls sh') = Some 100 \<and> map job_state (jc_jobs (jobs sh')) = [JobState.Stopped]"
proof -
  have "case execute job_world demo_plan demo_shell of
      Some (e, sh') \<Rightarrow> jc_interactive (jobs sh') \<and> jc_terminal_fd (jobs sh') = 0 \<and> jc_shell_pgid (jobs sh') = 100 \<and>
        map job_state (jc_jobs (jobs sh')) = [JobState.Stopped] | None \<Rightarrow> False"
    by code_simp
  then obtain e sh' where x: "execute job_world demo_plan demo_shell = Some (e, sh')" "jc_interactive (jobs sh')"
      "jc_terminal_fd (jobs sh') = 0" "jc_shell_pgid (jobs sh') = 100" "map job_state (jc_jobs (jobs sh')) = [JobState.Stopped]"
    by (auto split: option.splits)
  from plan_keeps_session [OF demo_shell_ok(1,2) x(1)] x show ?thesis by auto
qed

text \<open>
  The shell always gets back to its prompt: on a kernel whose children end and whose files end,
  executing any plan returns.
\<close>

lemma plan_returns:
  assumes "children_end (sys w) N" "forks_as_parent (sys w)" "files_end (sys w)"
  shows "\<exists>r. execute w ep sh = Some r"
  by (rule execute_returns [OF assms])

lemma plan_returns_witness: "\<exists>r. execute job_world demo_plan demo_shell = Some r"
  by (rule plan_returns [OF demo_shell_ok(3,1,4)])

text \<open>
  The usual reading of a command list: a left-associative tree of operators, with evaluation rules of its own. The
  right side of \<open>&&\<close> runs when the left side had status 0, that of \<open>||\<close> when it had another status, that of \<open>;\<close>
  always; a side that does not run leaves state and status as they are; \<open>exit\<close>, and a process that is no longer the
  shell, end the evaluation.
\<close>

datatype chain = One Pipeline | Chain ChainOperator chain Pipeline

inductive chain_runs ::
  "(Pipeline \<Rightarrow> 's \<Rightarrow> (ExecutionResult step_end \<times> 's) option) \<Rightarrow> chain \<Rightarrow> 's \<Rightarrow> ExecutionResult step_end \<Rightarrow> 's \<Rightarrow> bool"
  for run where
  one: "run p s = Some (e, s') \<Longrightarrow> chain_runs run (One p) s e s'"
| ended: "chain_runs run l s (Inl c) s1 \<Longrightarrow> chain_runs run (Chain opr l p) s (Inl c) s1"
| exits: "chain_runs run l s (Inr r) s1 \<Longrightarrow> exit_requested r \<Longrightarrow> chain_runs run (Chain opr l p) s (Inr r) s1"
| and_runs: "chain_runs run l s (Inr r) s1 \<Longrightarrow> \<not> exit_requested r \<Longrightarrow> status r = 0 \<Longrightarrow> run p s1 = Some (e, s2) \<Longrightarrow>
    chain_runs run (Chain And l p) s e s2"
| and_skips: "chain_runs run l s (Inr r) s1 \<Longrightarrow> \<not> exit_requested r \<Longrightarrow> status r \<noteq> 0 \<Longrightarrow>
    chain_runs run (Chain And l p) s (Inr r) s1"
| or_runs: "chain_runs run l s (Inr r) s1 \<Longrightarrow> \<not> exit_requested r \<Longrightarrow> status r \<noteq> 0 \<Longrightarrow> run p s1 = Some (e, s2) \<Longrightarrow>
    chain_runs run (Chain Or l p) s e s2"
| or_skips: "chain_runs run l s (Inr r) s1 \<Longrightarrow> \<not> exit_requested r \<Longrightarrow> status r = 0 \<Longrightarrow>
    chain_runs run (Chain Or l p) s (Inr r) s1"
| always_runs: "chain_runs run l s (Inr r) s1 \<Longrightarrow> \<not> exit_requested r \<Longrightarrow> run p s1 = Some (e, s2) \<Longrightarrow>
    chain_runs run (Chain Always l p) s e s2"

inductive_simps one_runs [simp]: "chain_runs run (One p) s e s'"
inductive_cases chain_runsE: "chain_runs run (Chain opr l p) s e s'"

definition chain_of :: "PipelineStep \<Rightarrow> PipelineStep list \<Rightarrow> chain" where
  "chain_of stp stps = foldl (\<lambda>l st. Chain (connector st) l (pipeline st)) (One (pipeline stp)) stps"

text \<open>How the loop goes on from a first result.\<close>

definition loop_from ::
  "(Pipeline \<Rightarrow> 's \<Rightarrow> (ExecutionResult step_end \<times> 's) option) \<Rightarrow> PipelineStep list \<Rightarrow> ExecutionResult step_end \<Rightarrow> 's \<Rightarrow>
   (ExecutionResult step_end \<times> 's) option" where
  "loop_from run stps e s =
     (case e of
        Inl c \<Rightarrow> Some (Inl c, s)
      | Inr r \<Rightarrow> if exit_requested r then Some (Inr r, s) else execute_steps run stps True r s)"

definition step_from ::
  "(Pipeline \<Rightarrow> 's \<Rightarrow> (ExecutionResult step_end \<times> 's) option) \<Rightarrow> PipelineStep \<Rightarrow> ExecutionResult step_end \<Rightarrow> 's \<Rightarrow>
   ExecutionResult step_end \<Rightarrow> 's \<Rightarrow> bool" where
  "step_from run stp e0 s0 e1 s1 \<longleftrightarrow>
     (case e0 of
           Inl c \<Rightarrow> e1 = Inl c \<and> s1 = s0
         | Inr r \<Rightarrow> if exit_requested r \<or> \<not> should_execute (connector stp) (status r) then e1 = Inr r \<and> s1 = s0
                    else run (pipeline stp) s0 = Some (e1, s1))"

lemma chain_step:
  "chain_runs run (Chain (connector stp) t (pipeline stp)) s e1 s1 \<longleftrightarrow>
     (\<exists>e0 s0. chain_runs run t s e0 s0 \<and> step_from run stp e0 s0 e1 s1)"
proof
  assume "chain_runs run (Chain (connector stp) t (pipeline stp)) s e1 s1"
  then show "\<exists>e0 s0. chain_runs run t s e0 s0 \<and> step_from run stp e0 s0 e1 s1"
    by (rule chain_runsE) (rule exI, rule exI, rule conjI, assumption, simp add: step_from_def)+
next
  assume "\<exists>e0 s0. chain_runs run t s e0 s0 \<and> step_from run stp e0 s0 e1 s1"
  then obtain e0 s0 where "chain_runs run t s e0 s0" "step_from run stp e0 s0 e1 s1" by blast
  then show "chain_runs run (Chain (connector stp) t (pipeline stp)) s e1 s1"
    by (cases e0; cases "connector stp") (auto simp: step_from_def split: if_splits intro: chain_runs.intros)
qed

lemma loop_from_step:
  "loop_from run (stp # stps) e0 s0 = Some x \<longleftrightarrow>
     (\<exists>e1 s1. step_from run stp e0 s0 e1 s1 \<and> loop_from run stps e1 s1 = Some x)"
  by (cases e0) (auto simp: step_from_def loop_from_def bind_eq_Some_conv split: sum.splits)

lemma loop_from_chain:
  "(\<exists>e0 s0. chain_runs run t s e0 s0 \<and> loop_from run stps e0 s0 = Some (e, s')) \<longleftrightarrow>
   chain_runs run (foldl (\<lambda>l st. Chain (connector st) l (pipeline st)) t stps) s e s'"
proof (induction stps arbitrary: t)
  case Nil
  have "loop_from run [] e0 s0 = Some (e, s') \<longleftrightarrow> e0 = e \<and> s0 = s'" for e0 s0
    by (cases e0) (auto simp: loop_from_def)
  then show ?case by simp
next
  case (Cons stp stps)
  have "(\<exists>e0 s0. chain_runs run t s e0 s0 \<and> loop_from run (stp # stps) e0 s0 = Some (e, s')) \<longleftrightarrow>
    (\<exists>e1 s1. chain_runs run (Chain (connector stp) t (pipeline stp)) s e1 s1 \<and> loop_from run stps e1 s1 = Some (e, s'))"
    unfolding loop_from_step chain_step by blast
  with Cons [of "Chain (connector stp) t (pipeline stp)"] show ?case by simp
qed

text \<open>
  C4. A plan means its left-associative short-circuit reading: the loop of the executor, which skips steps by the status
  of the last pipeline that ran, returns a result exactly when the evaluation rules of \<open>&&\<close>, \<open>||\<close> and \<open>;\<close> derive it for
  the tree in which \<open>a && b || c ; d\<close> is \<open>((a && b) || c) ; d\<close>, including the early end by \<open>exit\<close>.
\<close>

theorem execute_is_chain:
  "execute w \<lparr>steps = stp # stps\<rparr> sh = Some (e, sh') \<longleftrightarrow> chain_runs (execute_pipeline w) (chain_of stp stps) sh e sh'"
proof -
  have "chain_runs (execute_pipeline w) (chain_of stp stps) sh e sh' \<longleftrightarrow>
      (\<exists>e0 s0. execute_pipeline w (pipeline stp) sh = Some (e0, s0) \<and> loop_from (execute_pipeline w) stps e0 s0 = Some (e, sh'))"
    using loop_from_chain [of "execute_pipeline w" "One (pipeline stp)" sh stps e sh'] by (simp add: chain_of_def)
  then show ?thesis by (auto simp: execute_def loop_from_def bind_eq_Some_conv)
qed

end
