(* ===== verification/Main_Theorems.thy ===== *)
theory Main_Theorems
  imports Main_Loop Executor_Theorems "HOL-Library.Sublist"
begin

text \<open>
  The promises of \<open>src/main.cpp\<close>: completion offers exactly the matching commands, every prompt finds
  a sound session, every line that was typed is in the history, and the shell ends at the end of its
  input.
\<close>

section \<open>Sorting and common prefixes\<close>

lemma starts_with_prefix: "starts_with p s \<longleftrightarrow> prefix p s"
  unfolding starts_with_def prefix_def
  by (metis append_eq_conv_conj)

lemma insert_string_set [simp]: "set (insert_string x ys) = insert x (set ys)"
  by (induction ys) auto

lemma insert_string_sorted:
  "sorted_wrt (\<lambda>a b. \<not> str_less b a) ys \<Longrightarrow> sorted_wrt (\<lambda>a b. \<not> str_less b a) (insert_string x ys)"
proof (induction ys)
  case (Cons y ys)
  show ?case
  proof (cases "str_less y x")
    case True
    then have "\<not> str_less x y" using str_less_trans [of x y x] by auto
    with Cons True show ?thesis by auto
  next
    case False
    have "\<not> str_less z x" if "z \<in> set ys" for z
      using that Cons.prems False str_less_trans [of z x y] str_less_total [of x y] by auto
    with Cons.prems False show ?thesis by auto
  qed
qed simp

lemma sort_strings_set [simp]: "set (sort_strings xs) = set xs"
  by (induction xs) (auto simp: sort_strings_def)

lemma sort_strings_sorted: "sorted_wrt (\<lambda>a b. \<not> str_less b a) (sort_strings xs)"
  by (induction xs) (auto simp: sort_strings_def intro: insert_string_sorted)

lemma remdups_adj_strict:
  "sorted_wrt (\<lambda>a b. \<not> str_less b a) xs \<Longrightarrow> sorted_wrt str_less (remdups_adj xs)"
proof (induction xs rule: remdups_adj.induct)
  case (3 x y xs)
  have less: "str_less x z" if "x \<noteq> y" "z \<in> set (y # xs)" for z
  proof -
    have xy: "str_less x y" using 3(3) that(1) str_less_total [of x y] by auto
    have "z = y \<or> \<not> str_less z y" using 3(3) that(2) by auto
    then show ?thesis using xy str_less_total [of y z] str_less_trans [of x y z] by auto
  qed
  from 3 less show ?case by (cases "x = y") auto
qed simp_all

lemma sorted_wrt_str_less_distinct: "sorted_wrt str_less xs \<Longrightarrow> distinct xs"
  by (induction xs) auto

lemma candidates_sorted: "sorted_wrt str_less (candidates e pre)"
  unfolding candidates_def by (intro remdups_adj_strict sort_strings_sorted)

lemma candidates_set:
  "set (candidates e pre) = {c \<in> set builtin_commands \<union> set (get_path_executables e). prefix pre c}"
  by (auto simp: candidates_def starts_with_prefix)

lemma take_common_prefix: "prefix p (take (common_length a b) a) \<longleftrightarrow> prefix p a \<and> prefix p b"
proof (induction a b arbitrary: p rule: common_length.induct)
  case (1 a as b bs)
  then show ?case by (cases p) auto
qed (auto simp: prefix_def)

lemma fold_common_prefix:
  "prefix p (foldl (\<lambda>prefix m. take (common_length prefix m) prefix) m ms) \<longleftrightarrow> (\<forall>x \<in> set (m # ms). prefix p x)"
  by (induction ms arbitrary: m) (auto simp: take_common_prefix)

lemma longest_common_prefix_iff:
  "ms \<noteq> [] \<Longrightarrow> prefix p (longest_common_prefix ms) \<longleftrightarrow> (\<forall>x \<in> set ms. prefix p x)"
  by (cases ms) (auto simp: fold_common_prefix)

lemma longer_common_prefix:
  assumes "ms \<noteq> []"
  shows "n < length (longest_common_prefix ms) \<longleftrightarrow> (\<exists>p. n < length p \<and> (\<forall>x \<in> set ms. prefix p x))"
  using longest_common_prefix_iff [OF assms] by (meson order_less_le_trans prefix_length_le prefix_order.refl)

section \<open>Completion\<close>

text \<open>
  What the documentation of Readline promises of \<open>rl_completion_matches\<close>: it calls the generator with
  state 0 first and with other states then, until the generator gives no further match, and it returns
  a null pointer exactly when there was none.
\<close>

partial_function (option) collect :: "(int \<Rightarrow> 's \<Rightarrow> string option \<times> 's) \<Rightarrow> int \<Rightarrow> 's \<Rightarrow> (string list \<times> 's) option" where
  "collect g n s =
     (case g n s of
        (None, s1) \<Rightarrow> Some ([], s1)
      | (Some m, s1) \<Rightarrow> Option.bind (collect g (n + 1) s1) (\<lambda>(ms, s2). Some (m # ms, s2)))"

declare collect.simps [code]

definition completion_law :: "'r editor \<Rightarrow> bool" where
  "completion_law ed \<longleftrightarrow>
     (\<forall>txt g s ms s'. collect (g txt) 0 s = Some (ms, s') \<longrightarrow>
        snd (rl_completion_matches ed txt g s) = s' \<and> (fst (rl_completion_matches ed txt g s) = None \<longleftrightarrow> ms = []))"

lemma completion_lawD:
  assumes "completion_law ed" "collect (g txt) 0 s = Some (ms, s')"
  shows "snd (rl_completion_matches ed txt g s) = s'" "fst (rl_completion_matches ed txt g s) = None \<longleftrightarrow> ms = []"
  using assms unfolding completion_law_def by blast+

lemma collect_matches:
  assumes "static_matches s = ms" "static_index s + k = length ms" "0 < n"
  shows "collect (command_completion w txt) n s =
    Some (map c_str (drop (static_index s) ms), s\<lparr>static_index := length ms\<rparr>)"
  using assms
proof (induction k arbitrary: n s)
  case 0
  then show ?case by (subst collect.simps) (simp add: command_completion_def)
next
  case (Suc k)
  let ?s = "s\<lparr>static_index := static_index s + 1\<rparr>"
  have "collect (command_completion w txt) (n + 1) ?s =
      Some (map c_str (drop (static_index ?s) ms), ?s\<lparr>static_index := length ms\<rparr>)"
    using Suc.prems by (intro Suc.IH) simp_all
  then have rest: "collect (command_completion w txt) (n + 1) ?s =
      Some (map c_str (drop (Suc (static_index s)) ms), s\<lparr>static_index := length ms\<rparr>)" by simp
  have "command_completion w txt n s = (Some (c_str (ms ! static_index s)), ?s)"
    using Suc.prems by (simp add: command_completion_def)
  then have "collect (command_completion w txt) n s =
      Some (c_str (ms ! static_index s) # map c_str (drop (Suc (static_index s)) ms), s\<lparr>static_index := length ms\<rparr>)"
    using rest by (simp add: collect.simps [of _ n])
  moreover have "ms ! static_index s # drop (Suc (static_index s)) ms = drop (static_index s) ms"
    using Suc.prems by (intro Cons_nth_drop_Suc) simp
  ultimately show ?case by (metis list.simps(9))
qed

lemma collect_candidates:
  fixes s :: "'r main_state" and w :: "'r world" and entered :: string
  defines "ms \<equiv> candidates (env w (calls (sh s))) (c_str entered)"
  shows "collect (command_completion w entered) 0 s =
    Some (map c_str ms, s\<lparr>static_matches := ms, completion_matches := ms, completion_prefix := c_str entered, static_index := length ms\<rparr>)"
proof -
  let ?s = "s\<lparr>static_matches := ms, completion_matches := ms, completion_prefix := c_str entered, static_index := 1\<rparr>"
  show ?thesis
  proof (cases ms)
    case Nil
    then show ?thesis by (subst collect.simps) (simp add: command_completion_def Let_def ms_def [symmetric])
  next
    case (Cons m rest)
    then have "collect (command_completion w entered) 1 ?s = Some (map c_str rest, ?s\<lparr>static_index := length ms\<rparr>)"
      using collect_matches [of ?s ms "length rest" 1 w entered] by simp
    with Cons show ?thesis
      by (subst collect.simps) (simp add: command_completion_def Let_def ms_def [symmetric])
  qed
qed

definition stdout_text :: "trace \<Rightarrow> string" where
  "stdout_text cs = concat (map (\<lambda>c. case c of WriteAll fd txt \<Rightarrow> if fd = STDOUT_FILENO then txt else [] | _ \<Rightarrow> []) cs)"

fun side_by_side :: "string list \<Rightarrow> string" where
  "side_by_side [] = []"
| "side_by_side [m] = m"
| "side_by_side (m # ms) = m @ ''  '' @ side_by_side ms"

lemma stdout_text_simps [simp]:
  "stdout_text [] = []"
  "stdout_text (WriteAll fd txt # cs) = (if fd = STDOUT_FILENO then txt @ stdout_text cs else stdout_text cs)"
  "stdout_text (as @ bs) = stdout_text as @ stdout_text bs"
  by (simp_all add: stdout_text_def)

text \<open>Only output: the calls grew by \<open>cs\<close>, and nothing else of the state changed.\<close>

definition prompt_call :: "syscall \<Rightarrow> bool" where
  "prompt_call c = (case c of WriteAll _ _ \<Rightarrow> True | Write _ _ \<Rightarrow> True | _ \<Rightarrow> False)"

lemma prompt_call_simps [simp]: "prompt_call (WriteAll fd t)" "prompt_call (Write fd t)"
  by (simp_all add: prompt_call_def)

lemma prompt_calls_quiet: "list_all prompt_call cs \<Longrightarrow> no_tcsetpgrp cs"
  by (auto simp: no_tcsetpgrp_def prompt_call_def list_all_iff split: syscall.splits)

definition printed :: "'r main_state \<Rightarrow> string \<Rightarrow> 'r main_state \<Rightarrow> bool" where
  "printed s txt s' \<longleftrightarrow> (\<exists>cs. s' = map_calls (\<lambda>h. h @ cs) s \<and> list_all prompt_call cs \<and> stdout_text cs = txt)"

lemma printed_cout: "printed s txt s' \<Longrightarrow> printed s (txt @ t) (cout t s')"
proof -
  assume "printed s txt s'"
  then obtain cs where "s' = map_calls (\<lambda>h. h @ cs) s" "list_all prompt_call cs" "stdout_text cs = txt" by (auto simp: printed_def)
  then show ?thesis unfolding printed_def
    by (intro exI [of _ "cs @ [WriteAll STDOUT_FILENO t]"]) (simp add: cout_def map_calls_def emit_def)
qed

lemma printed_refl: "printed s [] s"
  unfolding printed_def by (intro exI [of _ "[]"]) (simp add: map_calls_def)

lemma list_rest_printed:
  "printed s out s' \<Longrightarrow> printed s (out @ concat (map (\<lambda>m. ''  '' @ m) ms)) (list_rest ms s')"
proof (induction ms arbitrary: out s')
  case (Cons m ms)
  from Cons.IH [OF printed_cout [OF printed_cout [OF Cons.prems, of "''  ''"], of m]] show ?case by simp
qed simp

lemma side_by_side_Cons: "side_by_side (m # ms) = m @ concat (map (\<lambda>m. ''  '' @ m) ms)"
  by (induction ms arbitrary: m) simp_all

lemma list_matches_printed: "printed s txt s' \<Longrightarrow> printed s (txt @ side_by_side ms) (list_matches ms s')"
  using list_rest_printed [OF printed_cout] by (cases ms) (simp_all add: side_by_side_Cons)

lemma printed_listing:
  "printed s ([] @ [newline] @ side_by_side ms @ [newline]) (cout [newline] (list_matches ms (cout [newline] s)))"
  using printed_cout [OF list_matches_printed [OF printed_cout [OF printed_refl [of s], of "[newline]"], of ms], of "[newline]"]
  by simp

lemma shell_completion_cases:
  assumes law: "completion_law ed" and run: "shell_completion w ed txt 0 s = (res, s')"
  defines "ms \<equiv> candidates (env w (calls (sh s))) (c_str txt)"
  defines "longer \<equiv> \<exists>p. length (c_str txt) < length p \<and> (\<forall>c \<in> set ms. prefix p c)"
  shows "completion_matches s' = ms"
    and "res \<noteq> None \<longleftrightarrow> length ms = 1 \<or> 2 \<le> length ms \<and> \<not> first_tab_pressed s \<and> longer"
    and "first_tab_pressed s' \<longleftrightarrow> 2 \<le> length ms \<and> \<not> first_tab_pressed s \<and> \<not> longer"
    and "\<exists>cs. calls (sh s') = calls (sh s) @ cs \<and> stdout_text cs =
      (if ms = [] \<or> first_tab_pressed s' then [bell]
       else if 2 \<le> length ms \<and> first_tab_pressed s then [newline] @ side_by_side ms @ [newline] else [])"
proof -
  let ?s = "s\<lparr>static_matches := ms, completion_matches := ms, completion_prefix := c_str txt, static_index := length ms\<rparr>"
  obtain arr where arr: "rl_completion_matches ed txt (command_completion w) s = (arr, ?s)" "arr = None \<longleftrightarrow> ms = []"
    using completion_lawD [where g = "command_completion w", OF law collect_candidates [of w "txt" s, folded ms_def]]
    by (cases "rl_completion_matches ed txt (command_completion w) s") simp
  have longer: "ms \<noteq> [] \<Longrightarrow> length (c_str txt) < length (longest_common_prefix ms) \<longleftrightarrow> longer"
    unfolding longer_def by (rule longer_common_prefix)
  have bell: "\<exists>cs. calls (sh (ring_bell ?s)) = calls (sh s) @ cs \<and> stdout_text cs = [bell]"
    by (rule exI [of _ "[WriteAll STDOUT_FILENO [bell]]"]) (simp add: ring_bell_def cout_def map_calls_def emit_def)
  have "printed ?s ([] @ [newline] @ side_by_side ms @ [newline]) (cout [newline] (list_matches ms (cout [newline] ?s)))"
    by (rule printed_listing)
  then have listed: "completion_matches (cout [newline] (list_matches ms (cout [newline] ?s))) = ms"
    "\<exists>cs. calls (sh (cout [newline] (list_matches ms (cout [newline] ?s)))) = calls (sh s) @ cs \<and>
       stdout_text cs = [newline] @ side_by_side ms @ [newline]"
    by (auto simp: printed_def map_calls_def)
  consider "ms = []" | "length ms = 1" | "2 \<le> length ms" "\<not> first_tab_pressed s" | "2 \<le> length ms" "first_tab_pressed s"
    by (cases ms; cases "tl ms") auto
  note cases = this
  have ring: "completion_matches (ring_bell ?s) = ms" by (simp add: ring_bell_def cout_def map_calls_def)
  have all: "completion_matches s' = ms \<and>
     (res \<noteq> None \<longleftrightarrow> length ms = 1 \<or> 2 \<le> length ms \<and> \<not> first_tab_pressed s \<and> longer) \<and>
     (first_tab_pressed s' \<longleftrightarrow> 2 \<le> length ms \<and> \<not> first_tab_pressed s \<and> \<not> longer) \<and>
     (\<exists>cs. calls (sh s') = calls (sh s) @ cs \<and> stdout_text cs =
      (if ms = [] \<or> first_tab_pressed s' then [bell]
       else if 2 \<le> length ms \<and> first_tab_pressed s then [newline] @ side_by_side ms @ [newline] else []))"
  proof (cases rule: cases)
    case 1
    with run arr bell ring show ?thesis by (auto simp: shell_completion_def)
  next
    case 2
    with run arr show ?thesis by (auto simp: shell_completion_def)
  next
    case 3
    with run arr longer bell ring show ?thesis by (auto simp: shell_completion_def split: if_splits)
  next
    case 4
    with run arr have "res = None" "s' = (map_rl (rl_forced_update_display ed)
        (cout [newline] (list_matches ms (cout [newline] ?s))))\<lparr>first_tab_pressed := False\<rparr>"
      by (auto simp: shell_completion_def)
    with 4 listed show ?thesis by (auto simp: map_rl_def map_hist_def)
  qed
  then show "completion_matches s' = ms"
    "res \<noteq> None \<longleftrightarrow> length ms = 1 \<or> 2 \<le> length ms \<and> \<not> first_tab_pressed s \<and> longer"
    "first_tab_pressed s' \<longleftrightarrow> 2 \<le> length ms \<and> \<not> first_tab_pressed s \<and> \<not> longer"
    "\<exists>cs. calls (sh s') = calls (sh s) @ cs \<and> stdout_text cs =
      (if ms = [] \<or> first_tab_pressed s' then [bell]
       else if 2 \<le> length ms \<and> first_tab_pressed s then [newline] @ side_by_side ms @ [newline] else [])"
    by blast+
qed

section \<open>Completion is exact\<close>

text \<open>
  C20. Pressing Tab on the first word offers exactly the commands that could be meant. After
  \<open>shell_completion\<close> the candidates are, in strictly increasing order, the built-ins and the executables on
  \<open>PATH\<close> that start with the typed text. Readline is told to complete exactly when there is one
  candidate, or when several share a longer prefix and this is not a repeated Tab; otherwise the first Tab
  rings the bell and the second one lists the candidates, separated by two blanks. Without a candidate
  the bell rings.
\<close>

theorem completion_exact:
  assumes "completion_law ed" "shell_completion w ed txt 0 s = (res, s')"
    "C = {c \<in> set builtin_commands \<union> set (get_path_executables (env w (calls (sh s)))). prefix (c_str txt) c}"
    "longer \<longleftrightarrow> (\<exists>p. length (c_str txt) < length p \<and> (\<forall>c \<in> C. prefix p c))"
  shows "set (completion_matches s') = C \<and> sorted_wrt str_less (completion_matches s') \<and>
    (res \<noteq> None \<longleftrightarrow> card C = 1 \<or> 2 \<le> card C \<and> \<not> first_tab_pressed s \<and> longer) \<and>
    (first_tab_pressed s' \<longleftrightarrow> 2 \<le> card C \<and> \<not> first_tab_pressed s \<and> \<not> longer) \<and>
    (\<exists>cs. calls (sh s') = calls (sh s) @ cs \<and> stdout_text cs =
      (if C = {} \<or> first_tab_pressed s' then [bell]
       else if 2 \<le> card C \<and> first_tab_pressed s then [newline] @ side_by_side (completion_matches s') @ [newline] else []))"
proof -
  let ?ms = "candidates (env w (calls (sh s))) (c_str txt)"
  have C: "set ?ms = C" using assms(3) by (simp add: candidates_set)
  have "distinct ?ms" using candidates_sorted sorted_wrt_str_less_distinct by blast
  then have card: "length ?ms = card C" "?ms = [] \<longleftrightarrow> C = {}" using C distinct_card [of ?ms] by auto
  note f = shell_completion_cases [OF assms(1,2), unfolded C card, folded assms(4)]
  show ?thesis unfolding f(1) by (intro conjI C candidates_sorted f(2-4))
qed

text \<open>An editor over the list of history entries that keeps no other state.\<close>

definition list_editor :: "string list editor" where
  "list_editor =
     \<lparr>rl_replace_line = (\<lambda>_ _ r. r), set_rl_done = (\<lambda>_ r. r), rl_forced_update_display = (\<lambda>r. r),
      rl_set_keyboard_input_timeout = (\<lambda>_ r. r),
      rl_completion_matches = (\<lambda>txt g s. case collect (g txt) 0 s of
          Some (ms, s') \<Rightarrow> (if ms = [] then None else Some (longest_common_prefix ms # ms), s')
        | None \<Rightarrow> (None, s))\<rparr>"

lemma list_editor_law: "completion_law list_editor"
  by (auto simp: completion_law_def list_editor_def)

definition demo_main :: "string list main_state" where
  "demo_main = \<lparr>completion_matches = [], completion_prefix = [], first_tab_pressed = True, prompt_interrupted = False,
     active_executor = True, static_matches = [], static_index = 0, sh = demo_shell\<rparr>"

theorem completion_exact_witness:
  "\<exists>s' cs. shell_completion job_world list_editor ''l'' 0 demo_main = (None, s') \<and>
     completion_matches s' = [''limits'', ''ls''] \<and> calls (sh s') = calls (sh demo_main) @ cs \<and>
     stdout_text cs = [newline] @ ''limits  ls'' @ [newline]"
proof -
  have "case shell_completion job_world list_editor ''l'' 0 demo_main of
      (res, s') \<Rightarrow> res = None \<and> completion_matches s' = [''limits'', ''ls'']" by code_simp
  then obtain s' where x: "shell_completion job_world list_editor ''l'' 0 demo_main = (None, s')"
    "completion_matches s' = [''limits'', ''ls'']" by auto
  note f = completion_exact [OF list_editor_law x(1) refl refl]
  then have C: "{c \<in> set builtin_commands \<union> set (get_path_executables (env job_world (calls (sh demo_main)))).
      prefix (c_str ''l'') c} = {''limits'', ''ls''}" using x(2) by simp
  from f [unfolded C] x show ?thesis by (auto simp: demo_main_def)
qed

section \<open>The prompts of a session\<close>

lemma no_tcsetpgrp_prompt [simp]: "no_tcsetpgrp [Write fd t]" "no_tcsetpgrp [Sigaction sig f]"
  by (simp_all add: no_tcsetpgrp_def)

lemma prompt_interrupted_simps [simp]:
  "prompt_interrupted (map_rl f s) = prompt_interrupted s" "prompt_interrupted (map_hist g s) = prompt_interrupted s"
  "prompt_interrupted (map_calls k s) = prompt_interrupted s"
  by (simp_all add: map_rl_def map_hist_def map_calls_def)

lemma if_keeps: "Q x \<Longrightarrow> Q y \<Longrightarrow> Q (if b then x else y)"
  by simp

text \<open>
  The states at the start of iteration \<open>n\<close> of the main loop, whether or not the session ever ends: the
  previous command has been dealt with, and the signals that arrived since the last prompt are not yet delivered.
\<close>

inductive at_prompt :: "'r world \<Rightarrow> 'r editor \<Rightarrow> (nat \<Rightarrow> 'r prompt) \<Rightarrow> 'r HistoryState \<Rightarrow> nat \<Rightarrow> 'r main_state \<Rightarrow> bool"
  for w ed session hs where
  first: "main_init w ed hs = Some s \<Longrightarrow> at_prompt w ed session hs 0 s"
| next_prompt: "at_prompt w ed session hs n s \<Longrightarrow> main_round w ed (session n) s = Some (Again, s') \<Longrightarrow>
    at_prompt w ed session hs (Suc n) s'"

text \<open>The states in which \<open>readline\<close> is called for line \<open>n\<close>.\<close>

definition at_readline ::
  "'r world \<Rightarrow> 'r editor \<Rightarrow> (nat \<Rightarrow> 'r prompt) \<Rightarrow> 'r HistoryState \<Rightarrow> nat \<Rightarrow> 'r main_state \<Rightarrow> bool" where
  "at_readline w ed session hs n s' \<longleftrightarrow>
     (\<exists>s. at_prompt w ed session hs n s \<and> before_readline w (session n) s = Some s')"

text \<open>A prompt is interrupted by \<open>SIGINT\<close>; what the user entered there is then not executed.\<close>

definition interrupted :: "'r prompt \<Rightarrow> bool" where
  "interrupted p \<longleftrightarrow> Sigint \<in> set (arrivals p) \<or> Signal Sigint \<in> set (events p)"

definition typed :: "'r prompt \<Rightarrow> string list" where
  "typed p = (case line_read p of
      Some l \<Rightarrow> if interrupted p \<or> c_str l = [] then [] else [c_str l] | None \<Rightarrow> [])"

definition typed_lines :: "(nat \<Rightarrow> 'r prompt) \<Rightarrow> nat \<Rightarrow> string list" where
  "typed_lines session n = concat (map (\<lambda>i. typed (session i)) [0..<n])"

text \<open>The changes that Readline and the callbacks of the shell make to the state of Readline.\<close>

definition editing :: "'r editor \<Rightarrow> (nat \<Rightarrow> 'r prompt) \<Rightarrow> ('r \<Rightarrow> 'r) \<Rightarrow> bool" where
  "editing ed session f \<longleftrightarrow>
     f = set_rl_done ed 1 \<circ> rl_replace_line ed [] 0 \<or> f = rl_forced_update_display ed \<or>
     f = rl_set_keyboard_input_timeout ed 100000 \<or> (\<exists>n. f = edited (session n))"

text \<open>
  What a round of the main loop needs from the parts it calls, for a property of the shell's state that
  may mention the lines typed so far: each part keeps it, and executing a plan never leaves the shell
  process.
\<close>

locale session_parts =
  fixes w :: "'r world" and ed :: "'r editor" and session :: "nat \<Rightarrow> 'r prompt"
    and inv :: "string list \<Rightarrow> 'r shell \<Rightarrow> bool"
  assumes completing: "inv ts x \<Longrightarrow> completion_law ed"
    and reaping: "inv ts x \<Longrightarrow> reap_background (sys w) notify (jobs x) (calls x) = Some (jc, h) \<Longrightarrow> inv ts (x\<lparr>jobs := jc, calls := h\<rparr>)"
    and signalled: "inv ts x \<Longrightarrow> inv ts (x\<lparr>jobs := on_sigchld (jobs x)\<rparr>)"
    and printing: "inv ts x \<Longrightarrow> list_all prompt_call cs \<Longrightarrow> inv ts (x\<lparr>calls := calls x @ cs\<rparr>)"
    and edits: "inv ts x \<Longrightarrow> editing ed session f \<Longrightarrow> inv ts (x\<lparr>hist := hist x\<lparr>rl_state := f (rl_state (hist x))\<rparr>\<rparr>)"
    and adding: "inv ts x \<Longrightarrow> inv (ts @ [l]) (x\<lparr>hist := hist x\<lparr>rl_state := add_history (readline w) l (rl_state (hist x))\<rparr>\<rparr>)"
    and executing: "inv ts x \<Longrightarrow> execute w ep x = Some (e, x') \<Longrightarrow> inv ts x' \<and> (\<exists>r. e = Inr r)"
    and saving: "inv ts x \<Longrightarrow> inv ts (x\<lparr>hist := save_session (readline w) (hist x)\<rparr>)"
begin

lemma reap_keeps:
  "inv ts (sh s) \<Longrightarrow> reap_background_jobs w notify s = Some s' \<Longrightarrow> inv ts (sh s') \<and> prompt_interrupted s' = prompt_interrupted s"
  by (auto simp: reap_background_jobs_def intro: reaping)

lemma calls_keep: "inv ts (sh s) \<Longrightarrow> prompt_call c \<Longrightarrow> inv ts (sh (map_calls (emit c) s))"
  by (simp add: map_calls_def emit_def printing)

lemma rl_keeps: "inv ts (sh s) \<Longrightarrow> editing ed session f \<Longrightarrow> inv ts (sh (map_rl f s))"
  by (simp add: map_rl_def map_hist_def edits)

lemma deliver_keeps:
  "inv ts (sh s) \<Longrightarrow> inv ts (sh (deliver sig s)) \<and> prompt_interrupted (deliver sig s) = (prompt_interrupted s \<or> sig = Sigint)"
  using printing [of ts "sh s" "[Write STDOUT_FILENO [newline]]"]
  by (cases sig) (auto simp: deliver_def handle_prompt_sigint_def map_calls_def emit_def intro: signalled)

lemma deliver_all_keeps:
  "inv ts (sh s) \<Longrightarrow> inv ts (sh (fold deliver sigs s)) \<and>
     prompt_interrupted (fold deliver sigs s) = (prompt_interrupted s \<or> Sigint \<in> set sigs)"
  by (induction sigs arbitrary: s) (use deliver_keeps in auto)

lemma hook_keeps:
  assumes "inv ts (sh s)" "readline_event_hook w ed s = Some s'"
  shows "inv ts (sh s') \<and> prompt_interrupted s' = prompt_interrupted s"
proof -
  from assms(2) obtain s1 where s1: "(if active_executor s then reap_background_jobs w False s else Some s) = Some s1"
    "s' = (if prompt_interrupted s1 then map_rl (set_rl_done ed 1 \<circ> rl_replace_line ed [] 0) s1 else s1)"
    by (auto simp: readline_event_hook_def bind_eq_Some_conv)
  from s1(1) assms(1) have "inv ts (sh s1) \<and> prompt_interrupted s1 = prompt_interrupted s"
    by (auto split: if_splits dest: reap_keeps)
  moreover have "editing ed session (set_rl_done ed 1 \<circ> rl_replace_line ed [] 0)" by (simp add: editing_def)
  ultimately show ?thesis using s1(2) by (auto intro: rl_keeps)
qed

lemma printed_keeps:
  assumes "inv ts (sh s)" "printed s out s'"
  shows "inv ts (sh s') \<and> prompt_interrupted s' = prompt_interrupted s"
  using assms printing by (auto simp: printed_def map_calls_def)

lemma completion_keeps:
  assumes "inv ts (sh s)"
  shows "inv ts (sh (snd (shell_completion w ed txt start s))) \<and>
    prompt_interrupted (snd (shell_completion w ed txt start s)) = prompt_interrupted s"
proof -
  let ?ms = "candidates (env w (calls (sh s))) (c_str txt)"
  let ?s = "s\<lparr>static_matches := ?ms, completion_matches := ?ms, completion_prefix := c_str txt, static_index := length ?ms\<rparr>"
  obtain arr where arr: "rl_completion_matches ed txt (command_completion w) s = (arr, ?s)"
    using completion_lawD(1) [where g = "command_completion w", OF completing [OF assms] collect_candidates [of w "txt" s]]
    by (cases "rl_completion_matches ed txt (command_completion w) s") simp
  have s: "inv ts (sh ?s)" using assms by simp
  have "printed ?s ([] @ [bell]) (ring_bell ?s)" unfolding ring_bell_def by (rule printed_cout [OF printed_refl])
  note ring = printed_keeps [OF s this]
  have "printed ?s ([] @ [newline] @ side_by_side ?ms @ [newline]) (cout [newline] (list_matches ?ms (cout [newline] ?s)))"
    by (rule printed_listing)
  note listing = printed_keeps [OF s this]
  have display: "inv ts (sh (map_rl (rl_forced_update_display ed) (cout [newline] (list_matches ?ms (cout [newline] ?s)))))"
    by (rule rl_keeps) (use listing in \<open>auto simp: editing_def\<close>)
  define Q where "Q x \<longleftrightarrow> inv ts (sh (snd x)) \<and> prompt_interrupted (snd x) = prompt_interrupted s"
    for x :: "string list option \<times> 'r main_state"
  have "Q (shell_completion w ed txt start s)"
    unfolding shell_completion_def arr Let_def prod.case
    by (intro if_keeps [of Q]) (use assms ring listing display in \<open>simp_all add: Q_def\<close>)
  then show ?thesis by (simp add: Q_def)
qed

lemma events_keep:
  "inv ts (sh s) \<Longrightarrow> prompt_events w ed evs s = Some s' \<Longrightarrow>
   inv ts (sh s') \<and> prompt_interrupted s' = (prompt_interrupted s \<or> Signal Sigint \<in> set evs)"
proof (induction evs arbitrary: s)
  case (Cons ev evs)
  from Cons.prems(2) obtain s1 where s1: "handle_event w ed ev s = Some s1" "prompt_events w ed evs s1 = Some s'"
    by (auto simp: bind_eq_Some_conv)
  have "inv ts (sh s1) \<and> prompt_interrupted s1 = (prompt_interrupted s \<or> ev = Signal Sigint)"
  proof (cases ev)
    case (Signal sig)
    with s1(1) deliver_keeps [OF Cons.prems(1), of sig] show ?thesis by (auto simp: handle_event_def)
  next
    case Event_hook
    with s1(1) hook_keeps [OF Cons.prems(1), of s1] show ?thesis by (simp add: handle_event_def)
  next
    case (Attempt_completion word start stop)
    with s1(1) completion_keeps [OF Cons.prems(1), of word start] show ?thesis by (simp add: handle_event_def)
  qed
  with Cons.IH [OF _ s1(2)] show ?case by auto
qed simp

lemma execute_input_keeps:
  assumes "inv ts (sh s)" "execute_input w input s = Some (r, s')"
  shows "inv ts (sh s') \<and> (\<forall>c. r \<noteq> Leave c) \<and> prompt_interrupted s' = prompt_interrupted s"
proof -
  obtain parsed where p: "parse_line input = Some parsed" using parse_line_total by blast
  consider "\<not> parse_ok parsed" | "parse_ok parsed" "steps (plan parsed) = []" | "parse_ok parsed" "steps (plan parsed) \<noteq> []" by blast
  then show ?thesis
  proof cases
    case 1
    with assms p have s': "r = Again" "s' = cerr [newline] (cerr (parse_error parsed) s)" by (auto simp: execute_input_def)
    have "inv ts (sh s')" unfolding s'(2) cerr_def by (intro calls_keep assms) simp_all
    with s' show ?thesis by (simp add: cerr_def map_calls_def)
  next
    case 2
    with assms p show ?thesis by (auto simp: execute_input_def)
  next
    case 3
    with assms p obtain e x where e: "execute w (plan parsed) (sh s) = Some (e, x)" by (auto simp: execute_input_def bind_eq_Some_conv)
    from executing [OF assms(1) e] obtain res where res: "inv ts x" "e = Inr res" by blast
    with assms p 3 e saving [of ts x] show ?thesis
      by (auto simp: execute_input_def map_hist_def split: if_splits)
  qed
qed

lemma before_readline_keeps:
  assumes "inv ts (sh s)" "\<not> prompt_interrupted s" "before_readline w p s = Some s'"
  shows "inv ts (sh s')" "prompt_interrupted s' = (Sigint \<in> set (arrivals p))" "\<not> first_tab_pressed s'"
proof -
  from assms(3) obtain s1 where s1: "reap_background_jobs w True (fold deliver (arrivals p) s) = Some s1"
    "s' = s1\<lparr>first_tab_pressed := False\<rparr>"
    by (auto simp: before_readline_def)
  have "inv ts (sh s1) \<and> prompt_interrupted s1 = (Sigint \<in> set (arrivals p))"
    using reap_keeps [OF _ s1(1)] deliver_all_keeps [OF assms(1), of "arrivals p"] assms(2) by auto
  then show "inv ts (sh s')" "prompt_interrupted s' = (Sigint \<in> set (arrivals p))" "\<not> first_tab_pressed s'"
    unfolding s1(2) by simp_all
qed

lemma round_keeps:
  assumes "inv ts (sh s)" "\<not> prompt_interrupted s" "main_round w ed (session n) s = Some (r, s')"
  shows "inv (ts @ typed (session n)) (sh s') \<and> (\<forall>c. r \<noteq> Leave c) \<and> (r = Again \<longrightarrow> \<not> prompt_interrupted s')"
proof -
  let ?p = "session n"
  obtain s1 s2 where s1: "before_readline w ?p s = Some s1" and s2: "prompt_events w ed (events ?p) s1 = Some s2"
    using assms(3) by (auto simp: main_round_def bind_eq_Some_conv)
  note i1 = before_readline_keeps(1,2) [OF assms(1,2) s1]
  have i2: "inv ts (sh s2)" "prompt_interrupted s2 = interrupted ?p"
    using events_keep [OF _ s2] i1 by (auto simp: interrupted_def)
  let ?s3 = "map_rl (edited ?p) s2"
  have i3: "inv ts (sh ?s3)" by (rule rl_keeps [OF i2(1)]) (auto simp: editing_def)
  show ?thesis
  proof (cases "line_read ?p")
    case None
    with assms(3) s1 s2 have "r = Return 0" "s' = map_hist (save_session (readline w)) (cout [newline] ?s3)"
      by (auto simp: main_round_def)
    with None saving [OF calls_keep [OF i3, of "WriteAll STDOUT_FILENO [newline]"]] show ?thesis
      by (simp add: typed_def map_hist_def cout_def)
  next
    case (Some l)
    with assms(3) s1 s2 obtain s4 where s4: "reap_background_jobs w True ?s3 = Some s4"
      by (auto simp: main_round_def bind_eq_Some_conv)
    have i4: "inv ts (sh s4)" "prompt_interrupted s4 = interrupted ?p"
      using reap_keeps [OF i3 s4] i2(2) by (simp_all add: map_rl_def map_hist_def)
    show ?thesis
    proof (cases "interrupted ?p \<or> c_str l = []")
      case True
      with Some assms(3) s1 s2 s4 i4(2) have "r = Again" "s' = s4\<lparr>prompt_interrupted := False\<rparr>"
        by (auto simp: main_round_def)
      with i4(1) Some True show ?thesis by (simp add: typed_def)
    next
      case False
      with Some assms(3) s1 s2 s4 i4(2) have x: "execute_input w (c_str l)
          (map_rl (add_history (readline w) (c_str l)) (s4\<lparr>prompt_interrupted := False\<rparr>)) = Some (r, s')"
        by (simp add: main_round_def Let_def)
      have "inv (ts @ typed ?p) (sh (map_rl (add_history (readline w) (c_str l)) (s4\<lparr>prompt_interrupted := False\<rparr>)))"
        using adding [OF i4(1), of "c_str l"] Some False by (simp add: typed_def map_rl_def map_hist_def)
      from execute_input_keeps [OF this x] show ?thesis by (simp add: map_rl_def map_hist_def)
    qed
  qed
qed

lemma at_prompt_keeps:
  assumes "at_prompt w ed session hs n s" "\<And>x. main_init w ed hs = Some x \<Longrightarrow> inv [] (sh x)"
  shows "inv (typed_lines session n) (sh s) \<and> \<not> prompt_interrupted s"
  using assms(1)
proof induction
  case (first s)
  with assms(2) show ?case
    by (auto simp: typed_lines_def main_init_def initialize_readline_def map_hist_def map_rl_def map_calls_def Let_def)
next
  case (next_prompt n s s')
  with round_keeps [of "typed_lines session n" s n Again s'] show ?case by (auto simp: typed_lines_def)
qed

end

section \<open>The two invariants\<close>

interpretation prompts: session_parts w ed session
    "\<lambda>ts x. forks_as_parent (sys w) \<and> completion_law ed \<and> session_ok (jobs x) (calls x)" for w ed session
proof unfold_locales
  fix ts x ep e x'
  assume "forks_as_parent (sys w) \<and> completion_law ed \<and> session_ok (jobs x) (calls x)" "execute w ep x = Some (e, x')"
  then show "(forks_as_parent (sys w) \<and> completion_law ed \<and> session_ok (jobs x') (calls x')) \<and> (\<exists>r. e = Inr r)"
    using sessions.execute_steps_inv [of w x "steps ep" False "exec_result False 0 0" e x'] by (auto simp: execute_def)
qed (auto simp: on_sigchld_def intro: session_ok_quiet prompt_calls_quiet dest: reap_background_session)

lemma main_init_session:
  assumes "main_init w ed hs = Some s"
  shows "session_ok (jobs (sh s)) (calls (sh s))"
  using assms session_ok_quiet [of _ _ "[Sigaction SIGINT Handle_prompt_sigint]"]
  by (auto simp: main_init_def initialize_readline_def map_hist_def map_rl_def map_calls_def emit_def Let_def
      dest: job_control_init_session)

text \<open>
  The operations of Readline other than \<open>add_history\<close> leave the history list as it is; in particular the
  user edits no earlier entry.
\<close>

definition history_kept :: "'r editor \<Rightarrow> (nat \<Rightarrow> 'r prompt) \<Rightarrow> ('r \<Rightarrow> string list) \<Rightarrow> bool" where
  "history_kept ed session entries \<longleftrightarrow> (\<forall>f r. editing ed session f \<longrightarrow> entries (f r) = entries r)"

lemma load_from_file_grows:
  assumes "readline_laws R entries"
  shows "prefix (entries (rl_state s)) (entries (rl_state (load_from_file R f s)))"
  using load_from_file_entries(1) [OF assms] by (cases "disk s (c_str f)") (auto simp: load_from_file_def)

lemma rl_state_save [simp]:
  "rl_state (write_to_file R f s) = rl_state s" "rl_state (append_new_to_file R f s) = rl_state s"
  "rl_state (save_session R s) = rl_state s"
  by (simp_all add: write_to_file_def append_new_to_file_def save_session_def Let_def)

lemma execute_builtin_grows:
  assumes "readline_laws (readline w) entries" "execute_builtin w command out err ParentShell hs h = Some (r, hs', h')"
  shows "prefix (entries (rl_state hs)) (entries (rl_state hs'))"
proof (cases "hd (args command) = ''history''")
  case False
  with execute_builtin_parent [OF assms(2)] show ?thesis by simp
next
  case True
  have "prefix (entries (rl_state hs)) (entries (rl_state (fst (snd (builtin_history (readline w) command out hs h)))))"
    using load_from_file_grows [OF assms(1)] by (simp add: builtin_history_def Let_def)
  with True assms(2) show ?thesis
    by (auto simp: execute_builtin_def Let_def split: prod.splits if_splits)
qed

lemma execute_parent_builtin_grows:
  assumes "readline_laws (readline w) entries" "execute_parent_builtin w command x = Some (e, x')"
  shows "prefix (entries (rl_state (hist x))) (entries (rl_state (hist x')))"
proof -
  have "hist x' = hist x \<or> (\<exists>out err h r h'. execute_builtin w command out err ParentShell (hist x) h = Some (r, hist x', h'))"
  proof (cases "open_redirects (sys w) command (calls x)")
    case (Pair red h1)
    show ?thesis
    proof (cases "red = None \<or> is_job_builtin (hd (args command))")
      case True
      with assms(2) Pair show ?thesis by (auto simp: execute_parent_builtin_def Let_def split: option.splits)
    next
      case False
      with assms(2) Pair obtain out err r hs h2 where b: "execute_builtin w command out err ParentShell (hist x) h1 = Some (r, hs, h2)"
        "hist (case r of Inl c \<Rightarrow> x\<lparr>hist := hs\<rparr> | Inr b \<Rightarrow> x\<lparr>hist := hs\<rparr>) = hist x'"
        by (auto simp: execute_parent_builtin_def Let_def split: option.splits sum.splits)
      then show ?thesis by (cases r) auto
    qed
  qed
  then show ?thesis using execute_builtin_grows [OF assms(1)] by auto
qed

lemma execute_pipeline_grows:
  assumes "readline_laws (readline w) entries" "execute_pipeline w pl x = Some (e, x')"
  shows "prefix (entries (rl_state (hist x))) (entries (rl_state (hist x')))"
proof (cases "commands pl \<noteq> [] \<and> runs_in_parent pl")
  case True
  with assms(2) execute_parent_builtin_grows [OF assms(1)] show ?thesis by (simp add: execute_pipeline_def)
next
  case False
  obtain ok ps h1 where m: "make_pipes (sys w) (length (commands pl) - 1) [] (calls x) = (ok, ps, h1)"
    by (metis prod_cases3)
  have "hist x' = hist x"
  proof (cases "commands pl = [] \<or> \<not> ok")
    case True
    with assms(2) False m show ?thesis by (auto simp: execute_pipeline_def split: if_splits)
  next
    case rest: False
    with assms(2) False m obtain e1 h2 where l: "launch_loop w (commands pl) 0 (length (commands pl)) ps 0 [] x h1 = Some (e1, h2)"
      by (auto simp: execute_pipeline_def bind_eq_Some_conv)
    with assms(2) False m rest show ?thesis
      by (cases e1; cases "projr e1") (auto simp: execute_pipeline_def)
  qed
  then show ?thesis by simp
qed

interpretation growing: plan_runner "execute_pipeline w"
    "\<lambda>x. readline_laws (readline w) entries \<and> forks_as_parent (sys w) \<and> session_ok (jobs x) (calls x) \<and>
       prefix es (entries (rl_state (hist x)))" for w entries es
  by unfold_locales (meson execute_pipeline_session execute_pipeline_grows prefix_order.trans)

interpretation typing: session_parts w ed session
    "\<lambda>ts x. readline_laws (readline w) entries \<and> history_kept ed session entries \<and> forks_as_parent (sys w) \<and>
       completion_law ed \<and> session_ok (jobs x) (calls x) \<and> subseq ts (entries (rl_state (hist x)))" for w ed session entries
proof unfold_locales
  fix ts x ep e x'
  assume i: "readline_laws (readline w) entries \<and> history_kept ed session entries \<and> forks_as_parent (sys w) \<and>
       completion_law ed \<and> session_ok (jobs x) (calls x) \<and> subseq ts (entries (rl_state (hist x)))"
    and e: "execute w ep x = Some (e, x')"
  have "prefix (entries (rl_state (hist x))) (entries (rl_state (hist x'))) \<and> session_ok (jobs x') (calls x') \<and> (\<exists>r. e = Inr r)"
    using growing.execute_steps_inv [where w = w and es = "entries (rl_state (hist x))" and s = x and stps = "steps ep"
      and hs = False and lst = "exec_result False 0 0" and e = e and s' = x' and entries = entries] i e
    by (simp add: execute_def)
  with i show "(readline_laws (readline w) entries \<and> history_kept ed session entries \<and> forks_as_parent (sys w) \<and>
       completion_law ed \<and> session_ok (jobs x') (calls x') \<and> subseq ts (entries (rl_state (hist x')))) \<and> (\<exists>r. e = Inr r)"
    using subseq_order.trans prefix_imp_subseq by blast
qed (auto simp: on_sigchld_def history_kept_def readline_lawsD intro: session_ok_quiet prompt_calls_quiet dest: reap_background_session)

section \<open>Every session ends with its input\<close>

lemma reap_background_jobs_returns:
  assumes "children_end (sys w) N"
  obtains s' where "reap_background_jobs w notify s = Some s'"
proof -
  obtain jc h where "reap_background (sys w) notify (jobs (sh s)) (calls (sh s)) = Some (jc, h)"
    by (rule reap_background_returns [OF assms])
  then show thesis using that by (simp add: reap_background_jobs_def)
qed

lemma prompt_events_return:
  assumes "children_end (sys w) N"
  shows "\<exists>s'. prompt_events w ed evs s = Some s'"
proof (induction evs arbitrary: s)
  case (Cons ev evs)
  obtain s1 where "reap_background_jobs w False s = Some s1" by (rule reap_background_jobs_returns [OF assms])
  then have "\<exists>s1. handle_event w ed ev s = Some s1"
    by (cases ev) (simp_all add: handle_event_def readline_event_hook_def)
  with Cons show ?case by auto
qed simp

lemma execute_input_returns:
  assumes "children_end (sys w) N" "forks_as_parent (sys w)" "files_end (sys w)"
  shows "\<exists>r. execute_input w input s = Some r"
proof -
  obtain parsed where p: "parse_line input = Some parsed" using parse_line_total by blast
  obtain e x where e: "execute w (plan parsed) (sh s) = Some (e, x)"
    using execute_returns [OF assms, of "plan parsed" "sh s"] by auto
  show ?thesis using p e by (cases e) (simp_all add: execute_input_def)
qed

lemma main_round_returns:
  assumes "children_end (sys w) N" "forks_as_parent (sys w)" "files_end (sys w)"
  obtains r s' where "main_round w ed p s = Some (r, s')"
proof -
  obtain s0 where "reap_background_jobs w True (fold deliver (arrivals p) s) = Some s0"
    by (rule reap_background_jobs_returns [OF assms(1)])
  then obtain s1 where s1: "before_readline w p s = Some s1" by (simp add: before_readline_def)
  obtain s2 where s2: "prompt_events w ed (events p) s1 = Some s2"
    using prompt_events_return [OF assms(1)] by blast
  obtain s4 where s4: "reap_background_jobs w True (map_rl (edited p) s2) = Some s4"
    by (rule reap_background_jobs_returns [OF assms(1)])
  have "\<exists>x. main_round w ed p s = Some x"
    using execute_input_returns [OF assms] s1 s2 s4
    by (cases "line_read p") (simp_all add: main_round_def Let_def)
  then show thesis using that by auto
qed

lemma main_loop_returns:
  assumes "children_end (sys w) N" "files_end (sys w)" "line_read (session (n + k)) = None"
    and "forks_as_parent (sys w) \<and> completion_law ed \<and> session_ok (jobs (sh s)) (calls (sh s))" "\<not> prompt_interrupted s"
  shows "\<exists>code s'. main_loop w ed session n s = Some (Inr code, s')"
  using assms(3-)
proof (induction k arbitrary: n s)
  case (0 n s)
  obtain r s1 where r: "main_round w ed (session n) s = Some (r, s1)"
    by (rule main_round_returns [OF assms(1) conjunct1 [OF 0(2)] assms(2)])
  with 0(1) have "r = Return 0" by (auto simp: main_round_def bind_eq_Some_conv)
  with r show ?case by (subst main_loop.simps) simp
next
  case (Suc k n s)
  obtain r s1 where r: "main_round w ed (session n) s = Some (r, s1)"
    by (rule main_round_returns [OF assms(1) conjunct1 [OF Suc.prems(2)] assms(2)])
  note k = prompts.round_keeps [where session = session and n = n, OF Suc.prems(2,3) r]
  show ?case
  proof (cases r)
    case Again
    with k Suc.IH [of "n + 1" s1] Suc.prems(1) r show ?thesis by (subst main_loop.simps) simp
  qed (use k r in \<open>subst main_loop.simps; simp\<close>)+
qed

text \<open>The shell starts in the foreground of its terminal.\<close>

definition foreground_start :: "kernel \<Rightarrow> bool" where
  "foreground_start K \<longleftrightarrow> (\<forall>h h'. no_tcsetpgrp h \<and> no_tcsetpgrp h' \<longrightarrow> ret (K h (Tcgetpgrp STDIN_FILENO)) = ret (K h' Getpgrp))"

lemma main_init_returns:
  assumes "foreground_start (sys w)"
  obtains s where "main_init w ed hs = Some s" "\<not> prompt_interrupted s"
proof -
  let ?h = "[Isatty STDIN_FILENO, Sigaction SIGCHLD On_sigchld]"
  have "ret (sys w (?h @ [Getpgrp]) (Tcgetpgrp STDIN_FILENO)) = ret (sys w ?h Getpgrp)"
    using assms unfolding foreground_start_def by (simp add: no_tcsetpgrp_def)
  then have "\<exists>x. await_foreground (sys w) STDIN_FILENO (ret (sys w ?h Getpgrp)) (?h @ [Getpgrp]) = Some x"
    by (subst await_foreground.simps) (simp add: syscall_def)
  then have "\<exists>x. job_control_init (sys w) [] = Some x"
    by (auto simp: job_control_init_def syscall_def emit_def Let_def)
  then show thesis using that
    by (auto simp: main_init_def initialize_readline_def Let_def)
qed

section \<open>Properties of sessions\<close>

text \<open>The state at a prompt, computed.\<close>

primrec prompt_state ::
  "'r world \<Rightarrow> 'r editor \<Rightarrow> (nat \<Rightarrow> 'r prompt) \<Rightarrow> 'r HistoryState \<Rightarrow> nat \<Rightarrow> 'r main_state option" where
  "prompt_state w ed session hs 0 = main_init w ed hs"
| "prompt_state w ed session hs (Suc n) =
     Option.bind (prompt_state w ed session hs n) (\<lambda>s.
       case main_round w ed (session n) s of Some (Again, s') \<Rightarrow> Some s' | _ \<Rightarrow> None)"

lemma prompt_state_at: "prompt_state w ed session hs n = Some s \<Longrightarrow> at_prompt w ed session hs n s"
proof (induction n arbitrary: s)
  case (Suc n)
  from Suc.prems obtain s0 where s0: "prompt_state w ed session hs n = Some s0"
    "(case main_round w ed (session n) s0 of Some (Again, s') \<Rightarrow> Some s' | _ \<Rightarrow> None) = Some s"
    by (auto simp: bind_eq_Some_conv)
  then obtain r s' where m: "main_round w ed (session n) s0 = Some (r, s')" by (cases "main_round w ed (session n) s0") auto
  with s0(2) have "main_round w ed (session n) s0 = Some (Again, s)" by (cases r) simp_all
  with Suc.IH s0(1) show ?case by (blast intro: at_prompt.next_prompt)
qed (simp add: at_prompt.first)

text \<open>
  A session: \<open>echo hi\<close> with a Tab during the prompt, a line that is interrupted,
  \<open>cat\<close>, which is stopped, a \<open>SIGINT\<close> for the shell, and the end of the input.
\<close>

definition demo_session :: "nat \<Rightarrow> string list prompt" where
  "demo_session n =
     (if n = 0 then \<lparr>arrivals = [], events = [Attempt_completion ''ec'' 0 2, Event_hook], edited = (\<lambda>r. r), line_read = Some ''echo hi''\<rparr>
      else if n = 1 then \<lparr>arrivals = [], events = [Signal Sigint, Event_hook], edited = (\<lambda>r. r), line_read = Some []\<rparr>
      else if n = 2 then \<lparr>arrivals = [], events = [], edited = (\<lambda>r. r), line_read = Some ''cat''\<rparr>
      else \<lparr>arrivals = [Sigint], events = [], edited = (\<lambda>r. r), line_read = None\<rparr>)"

text \<open>
  C5. Every prompt finds the shell in order. Whatever was typed, signalled and executed before, with
  any results of the system calls, at every call of \<open>readline\<close> in the shell process (the parent of every \<open>fork\<close>)
  the job table is sound and has no change that was not reported; the last \<open>tcsetpgrp\<close> of an interactive shell has
  asked for its own process group; and the flag \<open>prompt_interrupted\<close> is set exactly when a \<open>SIGINT\<close> arrived after
  the previous line had been read, so that an interruption is neither lost nor left over from an earlier prompt.
\<close>

theorem prompts_in_order:
  assumes "forks_as_parent (sys w)" "completion_law ed" "at_readline w ed session hs n s"
  shows "jc_inv (jobs (sh s)) \<and> list_all (\<lambda>j. \<not> job_state_changed j) (jc_jobs (jobs (sh s))) \<and>
    (prompt_interrupted s \<longleftrightarrow> Sigint \<in> set (arrivals (session n))) \<and> \<not> first_tab_pressed s \<and>
    (jc_interactive (jobs (sh s)) \<longrightarrow>
       terminal_owner (jc_terminal_fd (jobs (sh s))) (calls (sh s)) = Some (jc_shell_pgid (jobs (sh s))))"
proof -
  from assms(3) obtain s0 where s0: "at_prompt w ed session hs n s0" "before_readline w (session n) s0 = Some s"
    by (auto simp: at_readline_def)
  have i: "forks_as_parent (sys w) \<and> completion_law ed \<and> session_ok (jobs (sh s0)) (calls (sh s0))" "\<not> prompt_interrupted s0"
    using prompts.at_prompt_keeps [where session = session and n = n, OF s0(1)] assms(1,2) main_init_session [of w ed hs] by simp_all
  note k = prompts.before_readline_keeps [OF i s0(2)]
  from s0(2) have "list_all (\<lambda>j. \<not> job_state_changed j) (jc_jobs (jobs (sh s)))"
    using notify_reports_all by (auto simp: before_readline_def reap_background_jobs_def reap_background_def bind_eq_Some_conv) (metis fst_conv)
  with k show ?thesis by (auto simp: session_ok_def)
qed

theorem prompts_in_order_witness:
  "\<exists>s. at_readline job_world list_editor demo_session demo_history 3 s \<and> jc_inv (jobs (sh s)) \<and> prompt_interrupted s \<and>
     map job_state (jc_jobs (jobs (sh s))) = [JobState.Stopped] \<and> terminal_owner 0 (calls (sh s)) = Some 100"
proof -
  have "case prompt_state job_world list_editor demo_session demo_history 3 of
      Some s0 \<Rightarrow> (case before_readline job_world (demo_session 3) s0 of
        Some s \<Rightarrow> jc_interactive (jobs (sh s)) \<and> jc_terminal_fd (jobs (sh s)) = 0 \<and> jc_shell_pgid (jobs (sh s)) = 100 \<and>
          map job_state (jc_jobs (jobs (sh s))) = [JobState.Stopped] | None \<Rightarrow> False) | None \<Rightarrow> False" by code_simp
  then obtain s0 s where s: "prompt_state job_world list_editor demo_session demo_history 3 = Some s0"
    "before_readline job_world (demo_session 3) s0 = Some s"
    "jc_interactive (jobs (sh s))" "jc_terminal_fd (jobs (sh s)) = 0" "jc_shell_pgid (jobs (sh s)) = 100"
    "map job_state (jc_jobs (jobs (sh s))) = [JobState.Stopped]"
    by (auto split: option.splits)
  then have r: "at_readline job_world list_editor demo_session demo_history 3 s"
    using prompt_state_at unfolding at_readline_def by blast
  have "Sigint \<in> set (arrivals (demo_session 3))" by (simp add: demo_session_def)
  with prompts_in_order [OF demo_shell_ok(1) list_editor_law r] s r show ?thesis by auto
qed

text \<open>
  C19. Nothing that the user types gets lost: at every prompt, the lines that were entered at the earlier
  prompts (without the empty and the interrupted ones) are entries of the history, in their order, among
  the entries that \<open>history -r\<close> and the history file have added.
\<close>

theorem typed_lines_recorded:
  assumes "readline_laws (readline w) entries" "history_kept ed session entries" "forks_as_parent (sys w)"
    "completion_law ed" "at_prompt w ed session hs n s"
  shows "subseq (typed_lines session n) (entries (rl_state (hist (sh s))))"
  using typing.at_prompt_keeps [where session = session and n = n and entries = entries, OF assms(5)] assms(1-4)
    main_init_session [of w ed hs]
  by simp

lemma demo_history_kept: "history_kept list_editor demo_session (\<lambda>r. r)"
  by (auto simp: history_kept_def editing_def list_editor_def demo_session_def)

theorem typed_lines_recorded_witness:
  "\<exists>s. at_prompt job_world list_editor demo_session demo_history 3 s \<and>
     subseq [''echo hi'', ''cat''] (rl_state (hist (sh s)))"
proof -
  have "case prompt_state job_world list_editor demo_session demo_history 3 of Some s \<Rightarrow> True | None \<Rightarrow> False" by code_simp
  then obtain s where s: "prompt_state job_world list_editor demo_session demo_history 3 = Some s"
    by (auto split: option.splits)
  have t: "typed_lines demo_session 3 = [''echo hi'', ''cat'']" by code_simp
  have "readline_laws (readline job_world) (\<lambda>r. r)"
    using list_readline_laws by (simp add: job_world_def demo_world_def)
  from typed_lines_recorded [OF this demo_history_kept demo_shell_ok(1) list_editor_law prompt_state_at [OF s]] t
    prompt_state_at [OF s] show ?thesis by auto
qed

text \<open>
  C14. The shell ends at the end of its input at the latest. If every system call returns (this is how a kernel
  is modelled, so a child that never ends, such as \<open>sleep infinity\<close> in the foreground, is outside), if \<open>waitpid\<close>
  has at most \<open>N\<close> reports or interruptions for each \<open>fork\<close> and \<open>N\<close> more, if reading a file reaches its end, and if
  the shell starts in the foreground of its terminal, then a session whose input ends at some
  prompt returns from \<open>main\<close> with an exit status: no loop of the shell process (waiting, reaping, reading,
  the prompt) goes on forever, whatever is typed before.
\<close>

theorem main_returns:
  assumes "children_end (sys w) N" "forks_as_parent (sys w)" "files_end (sys w)" "foreground_start (sys w)"
    "completion_law ed" "line_read (session k) = None"
  shows "\<exists>code s'. main w ed session hs = Some (Inr code, s')"
proof -
  obtain s where s: "main_init w ed hs = Some s" "\<not> prompt_interrupted s" by (rule main_init_returns [OF assms(4)])
  from main_loop_returns [of w N session 0 k ed s] assms s main_init_session [OF s(1)] show ?thesis
    by (simp add: main_def)
qed

lemma demo_foreground: "foreground_start (sys job_world)"
  by (simp add: foreground_start_def job_world_def demo_kernel_def scripted_kernel_def)

theorem main_returns_witness:
  "\<exists>code s'. main job_world list_editor demo_session demo_history = Some (Inr code, s')"
  by (rule main_returns [OF demo_shell_ok(3,1,4) demo_foreground list_editor_law, of demo_session 3])
    (simp add: demo_session_def)

end
