(* ===== verification/Plumbing.thy ===== *)
theory Plumbing
  imports Executor_Theorems
begin

text \<open>
  The descriptor table of a child of a pipeline. The trace of a process is replayed on the table of its
  descriptors, which says for each descriptor what it refers to: what the shell was started with, a file,
  or an end of the pipe that was made at some point of the trace.
\<close>

section \<open>Descriptor tables\<close>

datatype fd_object = Inherited int | File string "open_flag list" | Read_end nat | Write_end nat

type_synonym fd_table = "int \<rightharpoonup> fd_object"

definition table_step :: "kernel \<Rightarrow> trace \<Rightarrow> syscall \<Rightarrow> fd_table \<Rightarrow> fd_table" where
  "table_step K h c T =
     (case c of
        Open p fl _ \<Rightarrow> if 0 \<le> ret (K h c) then T(ret (K h c) \<mapsto> File p fl) else T
      | MkPipe \<Rightarrow> if ret (K h c) = -1 then T
                  else T(ret (K h c) \<mapsto> Read_end (length h), ret2 (K h c) \<mapsto> Write_end (length h))
      | Close fd \<Rightarrow> T(fd := None)
      | Dup2 old new \<Rightarrow> if ret (K h c) = -1 then T else T(new := T old)
      | _ \<Rightarrow> T)"

fun replay :: "kernel \<Rightarrow> trace \<Rightarrow> trace \<Rightarrow> fd_table \<Rightarrow> fd_table" where
  "replay K h [] T = T"
| "replay K h (c # cs) T = replay K (h @ [c]) cs (table_step K h c T)"

lemma replay_append: "replay K h (as @ bs) T = replay K (h @ as) bs (replay K h as T)"
  by (induction "as" arbitrary: h T) simp_all

text \<open>The table after the calls \<open>h\<close> of a process that was started with the table \<open>T0\<close>.\<close>

definition table_at :: "kernel \<Rightarrow> fd_table \<Rightarrow> trace \<Rightarrow> fd_table" where
  "table_at K T0 h = replay K [] h T0"

lemma table_at_snoc [simp]: "table_at K T0 (h @ [c]) = table_step K h c (table_at K T0 h)"
  by (simp add: table_at_def replay_append)

text \<open>
  What POSIX promises of new descriptors: they are not in use. (It also promises the lowest ones, which
  the shell does not rely on.)
\<close>

definition fresh_descriptors :: "kernel \<Rightarrow> fd_table \<Rightarrow> bool" where
  "fresh_descriptors K T0 \<longleftrightarrow>
     (\<forall>h p fl md. 0 \<le> ret (K h (Open p fl md)) \<longrightarrow> table_at K T0 h (ret (K h (Open p fl md))) = None) \<and>
     (\<forall>h. ret (K h MkPipe) \<noteq> -1 \<longrightarrow> 0 \<le> ret (K h MkPipe) \<and> 0 \<le> ret2 (K h MkPipe) \<and> ret (K h MkPipe) \<noteq> ret2 (K h MkPipe) \<and>
        table_at K T0 h (ret (K h MkPipe)) = None \<and> table_at K T0 h (ret2 (K h MkPipe)) = None)"

text \<open>A call that neither opens nor closes a descriptor.\<close>

definition fd_neutral :: "syscall \<Rightarrow> bool" where
  "fd_neutral c = (case c of Open _ _ _ \<Rightarrow> False | MkPipe \<Rightarrow> False | Close _ \<Rightarrow> False | Dup2 _ _ \<Rightarrow> False | _ \<Rightarrow> True)"

lemma fd_neutral_simps [simp]:
  "fd_neutral (Execv s as)" "fd_neutral (WriteAll fd s)" "fd_neutral (Write fd s)" "fd_neutral (Waitpid p fl)" "fd_neutral (Kill p sg)"
  "fd_neutral (Tcgetattr fd)" "fd_neutral (Tcsetattr fd m)" "fd_neutral (Tcsetpgrp fd g)" "fd_neutral (Fork i)"
  "fd_neutral (Setpgid p g)" "fd_neutral (Read fd n)" "fd_neutral (Readlink s n)" "fd_neutral (List_dir s)"
  "fd_neutral Getpid" "fd_neutral Sysconf_clk_tck" "fd_neutral (Nanosleep a b)" "fd_neutral Getcwd"
  "fd_neutral (Chdir s)" "fd_neutral (Getrlimit r)" "fd_neutral Getpriority" "fd_neutral (Sigaction sg f)"
  "fd_neutral (Isatty fd)" "fd_neutral Getpgrp" "fd_neutral (Tcgetpgrp fd)"
  by (simp_all add: fd_neutral_def)

lemma table_step_neutral [simp]: "fd_neutral c \<Longrightarrow> table_step K h c T = T"
  by (cases c) (simp_all add: fd_neutral_def table_step_def)

lemma table_at_neutral: "list_all fd_neutral cs \<Longrightarrow> table_at K T0 (h @ cs) = table_at K T0 h"
proof (induction cs rule: rev_induct)
  case (snoc c cs)
  then have "table_at K T0 ((h @ cs) @ [c]) = table_at K T0 h" by (simp del: append_assoc)
  then show ?case by simp
qed simp

lemma table_at_close_fd: "table_at K T0 (close_fd fd h) = (if 0 \<le> fd then (table_at K T0 h)(fd := None) else table_at K T0 h)"
  by (simp add: close_fd_def emit_def table_step_def)

text \<open>The pipes of a pipeline: their ends are new, and they are the ends that the table says.\<close>

definition pipe_ends :: "PipePair list \<Rightarrow> int set" where
  "pipe_ends pipes = fst ` set pipes \<union> snd ` set pipes"

lemma pipe_ends_simps [simp]:
  "pipe_ends [] = {}" "pipe_ends (p # ps) = insert (fst p) (insert (snd p) (pipe_ends ps))"
  "pipe_ends (ps @ qs) = pipe_ends ps \<union> pipe_ends qs"
  by (auto simp: pipe_ends_def)

lemma close_all_pipes_table:
  "(\<forall>fd \<in> pipe_ends pipes. 0 \<le> fd) \<Longrightarrow>
   table_at K T0 (close_all_pipes pipes h) = (\<lambda>fd. if fd \<in> pipe_ends pipes then None else table_at K T0 h fd)"
proof (induction pipes h rule: close_all_pipes.induct)
  case (2 r w pipes h)
  then have "table_at K T0 (close_all_pipes pipes (close_fd w (close_fd r h))) =
      (\<lambda>fd. if fd \<in> pipe_ends pipes then None else table_at K T0 (close_fd w (close_fd r h)) fd)" by simp
  with 2(2) show ?case by (auto simp: table_at_close_fd)
qed simp

definition pipes_ok :: "kernel \<Rightarrow> fd_table \<Rightarrow> trace \<Rightarrow> trace \<Rightarrow> PipePair list \<Rightarrow> bool" where
  "pipes_ok K T0 h h1 pipes \<longleftrightarrow>
     (\<forall>k < length pipes. table_at K T0 h1 (fst (pipes ! k)) = Some (Read_end (length h + k)) \<and>
        table_at K T0 h1 (snd (pipes ! k)) = Some (Write_end (length h + k))) \<and>
     (\<forall>fd \<in> pipe_ends pipes. 0 \<le> fd \<and> table_at K T0 h fd = None) \<and>
     (\<forall>fd. fd \<notin> pipe_ends pipes \<longrightarrow> table_at K T0 h1 fd = table_at K T0 h fd)"

lemma make_pipes_ok:
  assumes "fresh_descriptors K T0"
  shows "make_pipes K n ps h1 = (True, ps', h2) \<Longrightarrow> pipes_ok K T0 h h1 ps \<Longrightarrow> length h1 = length h + length ps \<Longrightarrow>
    pipes_ok K T0 h h2 ps' \<and> length ps' = length ps + n"
proof (induction n arbitrary: ps h1)
  case (Suc n)
  define r where "r = K h1 MkPipe"
  have ok: "ret r \<noteq> -1" and m: "make_pipes K n (ps @ [(ret r, ret2 r)]) (h1 @ [MkPipe]) = (True, ps', h2)"
    using Suc.prems(1) by (auto simp: syscall_def r_def split: if_splits)
  have fresh: "0 \<le> ret r" "0 \<le> ret2 r" "ret r \<noteq> ret2 r" "table_at K T0 h1 (ret r) = None" "table_at K T0 h1 (ret2 r) = None"
    using assms ok unfolding fresh_descriptors_def r_def by blast+
  have T: "table_at K T0 (h1 @ [MkPipe]) =
      (table_at K T0 h1)(ret r \<mapsto> Read_end (length h + length ps), ret2 r \<mapsto> Write_end (length h + length ps))"
    using ok Suc.prems(3) by (simp add: table_step_def r_def)
  have old: "fst (ps ! k) \<noteq> ret r" "fst (ps ! k) \<noteq> ret2 r" "snd (ps ! k) \<noteq> ret r" "snd (ps ! k) \<noteq> ret2 r" if "k < length ps" for k
    using Suc.prems(2) that fresh by (auto simp: pipes_ok_def)
  have out: "ret r \<notin> pipe_ends ps" "ret2 r \<notin> pipe_ends ps"
    using old by (auto simp: pipe_ends_def in_set_conv_nth) (metis fst_conv snd_conv)+
  have "pipes_ok K T0 h (h1 @ [MkPipe]) (ps @ [(ret r, ret2 r)])"
    unfolding pipes_ok_def
  proof (intro conjI)
    show "\<forall>k<length (ps @ [(ret r, ret2 r)]). table_at K T0 (h1 @ [MkPipe]) (fst ((ps @ [(ret r, ret2 r)]) ! k)) = Some (Read_end (length h + k)) \<and>
        table_at K T0 (h1 @ [MkPipe]) (snd ((ps @ [(ret r, ret2 r)]) ! k)) = Some (Write_end (length h + k))"
      unfolding T using old fresh(3) Suc.prems(2) by (auto simp: pipes_ok_def nth_append less_Suc_eq)
    show "\<forall>fd\<in>pipe_ends (ps @ [(ret r, ret2 r)]). 0 \<le> fd \<and> table_at K T0 h fd = None"
      using Suc.prems(2) fresh out by (auto simp: pipes_ok_def)
    show "\<forall>fd. fd \<notin> pipe_ends (ps @ [(ret r, ret2 r)]) \<longrightarrow> table_at K T0 (h1 @ [MkPipe]) fd = table_at K T0 h fd"
      unfolding T using Suc.prems(2) by (auto simp: pipes_ok_def)
  qed
  from Suc.IH [OF m this] Suc.prems(3) show ?case by simp
qed simp


section \<open>The streams of a child\<close>

text \<open>What the standard streams of command \<open>i\<close> of \<open>n\<close> are to be; \<open>k\<close> is the position of the first pipe in the trace.\<close>

definition stdin_of :: "fd_table \<Rightarrow> nat \<Rightarrow> nat \<Rightarrow> Command \<Rightarrow> fd_object option" where
  "stdin_of T k i c =
     (if has_input_redirect c then Some (File (c_str (input_file c)) [O_RDONLY])
      else if 0 < i then Some (Read_end (k + (i - 1))) else T STDIN_FILENO)"

definition stdout_of :: "fd_table \<Rightarrow> nat \<Rightarrow> nat \<Rightarrow> nat \<Rightarrow> Command \<Rightarrow> fd_object option" where
  "stdout_of T k i n c =
     (if has_output_redirect c
      then Some (File (c_str (output_file c)) [O_WRONLY, O_CREAT, if append_output c then O_APPEND else O_TRUNC])
      else if i + 1 < n then Some (Write_end (k + i)) else T STDOUT_FILENO)"

definition stderr_of :: "fd_table \<Rightarrow> Command \<Rightarrow> fd_object option" where
  "stderr_of T c =
     (if has_error_redirect c
      then Some (File (c_str (error_file c)) [O_WRONLY, O_CREAT, if append_error c then O_APPEND else O_TRUNC])
      else T STDERR_FILENO)"

lemma and_then_Inr:
  assumes "and_then x f = (Inr y, h')"
  obtains a h1 where "x = (Inr a, h1)" "f a h1 = (Inr y, h')"
  using assms by (cases x; cases "fst x") (auto simp: and_then_def)

lemma duplicate_or_exit_table:
  assumes "duplicate_or_exit K old new label h = (Inr (), h')"
  shows "table_at K T0 h' = (table_at K T0 h)(new := table_at K T0 h old)"
  using assms by (auto simp: duplicate_or_exit_def syscall_def table_step_def split: if_splits)

text \<open>Opening a redirection gives a new descriptor, or none is opened.\<close>

lemma child_open_table:
  assumes "fresh_descriptors K T0" "child_open b opener what otherwise h = (Inr (fd, own), h')"
    "opener = (\<lambda>h. (ret (K h (Open p fl md)), h @ [Open p fl md]))"
  shows "if b then fd = own \<and> 0 \<le> own \<and> table_at K T0 h own = None \<and> table_at K T0 h' = (table_at K T0 h)(own \<mapsto> File p fl)
    else fd = otherwise \<and> own = -1 \<and> h' = h"
  using assms by (auto simp: child_open_def fresh_descriptors_def table_step_def Let_def split: if_splits)

lemma redirect_openers:
  "open_input_redirect K path = (\<lambda>h. (ret (K h (Open (c_str path) [O_RDONLY] 0)), h @ [Open (c_str path) [O_RDONLY] 0]))"
  "open_output_redirect K path a = (\<lambda>h. (ret (K h (Open (c_str path) [O_WRONLY, O_CREAT, if a then O_APPEND else O_TRUNC] 420)),
     h @ [Open (c_str path) [O_WRONLY, O_CREAT, if a then O_APPEND else O_TRUNC] 420]))"
  by (simp_all add: fun_eq_iff open_input_redirect_def open_output_redirect_def syscall_def Let_def)

text \<open>
  The three descriptors that a child chooses for its streams after opening its redirections, with the
  descriptors that it owns: \<open>G\<close> is the table then, \<open>T\<close> the one before.
\<close>

definition chosen :: "fd_table \<Rightarrow> fd_table \<Rightarrow> (int \<times> int) list \<Rightarrow> fd_object option list \<Rightarrow> bool" where
  "chosen T G fds objs \<longleftrightarrow>
     (\<forall>(fd, own) \<in> set fds. 0 \<le> own \<longrightarrow> T own = None) \<and>
     (\<forall>fd. T fd \<noteq> None \<longrightarrow> G fd = T fd) \<and>
     (\<forall>fd. G fd \<noteq> T fd \<longrightarrow> (\<exists>p \<in> set fds. snd p = fd \<and> 0 \<le> fd)) \<and>
     map (G \<circ> fst) fds = objs"

lemma chosen_next:
  assumes "fresh_descriptors K T0" "chosen T (table_at K T0 h) fds objs"
    "child_open b opener what otherwise h = (Inr (fd, own), h')"
    "opener = (\<lambda>h. (ret (K h (Open p fl md)), h @ [Open p fl md]))"
    "\<forall>x \<in> set objs. x \<noteq> None"
  shows "chosen T (table_at K T0 h') (fds @ [(fd, own)]) (objs @ [if b then Some (File p fl) else table_at K T0 h otherwise])"
proof (cases b)
  case False
  with child_open_table [OF assms(1,3,4)] assms(2) show ?thesis by (auto simp: chosen_def)
next
  case True
  let ?G = "table_at K T0 h"
  have o: "fd = own" "0 \<le> own" "?G own = None" "table_at K T0 h' = ?G(own \<mapsto> File p fl)"
    using child_open_table [OF assms(1,3,4)] True by auto
  have T: "T own = None" using assms(2) o(3) by (auto simp: chosen_def)
  have "fst q \<noteq> own" if "q \<in> set fds" for q
    using assms(2,5) o(3) that by (fastforce simp: chosen_def)
  then have "map (table_at K T0 h' \<circ> fst) fds = map (?G \<circ> fst) fds" unfolding o(4) by (intro map_cong) auto
  also have "\<dots> = objs" using assms(2) by (simp add: chosen_def)
  finally have "map (table_at K T0 h' \<circ> fst) fds = objs" .
  moreover have "\<forall>x. T x \<noteq> None \<longrightarrow> table_at K T0 h' x = T x" using assms(2) T o(4) by (auto simp: chosen_def)
  moreover have "\<forall>x. table_at K T0 h' x \<noteq> T x \<longrightarrow> (\<exists>q \<in> set (fds @ [(fd, own)]). snd q = x \<and> 0 \<le> x)"
    using assms(2) o by (auto simp: chosen_def)
  ultimately show ?thesis using assms(2) True T o by (auto simp: chosen_def)
qed

text \<open>The steps of a successful \<open>configure_child_io\<close>.\<close>

lemma configure_child_io_steps:
  assumes "configure_child_io K c i n pipes h2 = (Inr (), h3)"
  obtains ifd iown g1 ofd oown g2 efd eown g3 g4 g5 g6 where
    "child_open (has_input_redirect c) (open_input_redirect K (input_file c)) ''input''
       (if 0 < i then fst (pipes ! (i - 1)) else STDIN_FILENO) h2 = (Inr (ifd, iown), g1)"
    "child_open (has_output_redirect c) (open_output_redirect K (output_file c) (append_output c)) ''output''
       (if i + 1 < n then snd (pipes ! i) else STDOUT_FILENO) g1 = (Inr (ofd, oown), g2)"
    "child_open (has_error_redirect c) (open_output_redirect K (error_file c) (append_error c)) ''error''
       STDERR_FILENO g2 = (Inr (efd, eown), g3)"
    "duplicate_or_exit K ifd STDIN_FILENO ''stdin'' g3 = (Inr (), g4)"
    "duplicate_or_exit K ofd STDOUT_FILENO ''stdout'' g4 = (Inr (), g5)"
    "duplicate_or_exit K efd STDERR_FILENO ''stderr'' g5 = (Inr (), g6)"
    "h3 = close_fd iown (close_fd oown (close_fd eown (close_all_pipes pipes g6)))"
  using assms unfolding configure_child_io_def by (elim and_then_Inr) (auto elim!: and_then_Inr)

text \<open>The three streams that a child chooses: files, pipe ends or the streams of the shell.\<close>

lemma child_opens_chosen:
  assumes fresh: "fresh_descriptors K T0" and pipes: "pipes_ok K T0 h h2 pipes" "length pipes = n - 1" "i < n"
    and T: "T = table_at K T0 h" "T 0 \<noteq> None" "T 1 \<noteq> None" "T 2 \<noteq> None"
    and o1: "child_open (has_input_redirect c) (open_input_redirect K (input_file c)) ''input''
       (if 0 < i then fst (pipes ! (i - 1)) else STDIN_FILENO) h2 = (Inr (ifd, iown), g1)"
    and o2: "child_open (has_output_redirect c) (open_output_redirect K (output_file c) (append_output c)) ''output''
       (if i + 1 < n then snd (pipes ! i) else STDOUT_FILENO) g1 = (Inr (ofd, oown), g2)"
    and o3: "child_open (has_error_redirect c) (open_output_redirect K (error_file c) (append_error c)) ''error''
       STDERR_FILENO g2 = (Inr (efd, eown), g3)"
  shows "chosen (table_at K T0 h2) (table_at K T0 g3) [(ifd, iown), (ofd, oown), (efd, eown)]
    [stdin_of T (length h) i c, stdout_of T (length h) i n c, stderr_of T c]"
proof -
  let ?B = "table_at K T0 h2"
  have B_open: "?B fd = T fd" if "T fd \<noteq> None" for fd
    using pipes(1) that unfolding T(1) by (cases "fd \<in> pipe_ends pipes") (auto simp: pipes_ok_def)
  note B = B_open [OF T(2)] B_open [OF T(3)] B_open [OF T(4)]
  have ins: "?B (if 0 < i then fst (pipes ! (i - 1)) else STDIN_FILENO) = (if 0 < i then Some (Read_end (length h + (i - 1))) else T 0)"
    "?B (if i + 1 < n then snd (pipes ! i) else STDOUT_FILENO) = (if i + 1 < n then Some (Write_end (length h + i)) else T 1)"
    using pipes B T by (auto simp: pipes_ok_def)
  have keep: "table_at K T0 g fd = ?B fd" if "chosen ?B (table_at K T0 g) fds objs" "?B fd \<noteq> None" for g fds objs fd
    using that by (auto simp: chosen_def)
  have x: "stdin_of T (length h) i c \<noteq> None" "stdout_of T (length h) i n c \<noteq> None" using T by (auto simp: stdin_of_def stdout_of_def)
  have "chosen ?B ?B [] []" by (simp add: chosen_def)
  from chosen_next [OF fresh this o1 redirect_openers(1)]
  have c1: "chosen ?B (table_at K T0 g1) [(ifd, iown)] [stdin_of T (length h) i c]"
    unfolding ins(1) stdin_of_def by simp
  have out: "table_at K T0 g1 (if i + 1 < n then snd (pipes ! i) else STDOUT_FILENO) = (if i + 1 < n then Some (Write_end (length h + i)) else T 1)"
    using keep [OF c1, of "if i + 1 < n then snd (pipes ! i) else STDOUT_FILENO"] ins(2) T by simp
  from chosen_next [OF fresh c1 o2 redirect_openers(2)] x
  have c2: "chosen ?B (table_at K T0 g2) [(ifd, iown), (ofd, oown)] [stdin_of T (length h) i c, stdout_of T (length h) i n c]"
    unfolding out stdout_of_def by simp
  have err: "table_at K T0 g2 2 = T 2" using keep [OF c2, of 2] B T by simp
  from chosen_next [OF fresh c2 o3 redirect_openers(2)] x show ?thesis unfolding err stderr_of_def by simp
qed

text \<open>Closing all pipe ends and the opened files leaves the three streams beside the table of the shell.\<close>

lemma child_closes:
  assumes ends: "\<forall>fd \<in> pipe_ends pipes. 0 \<le> fd \<and> T fd = None" "\<forall>fd. fd \<notin> pipe_ends pipes \<longrightarrow> B fd = T fd"
    and T: "T 0 \<noteq> None" "T 1 \<noteq> None" "T 2 \<noteq> None"
    and own: "\<And>own. 0 \<le> own \<Longrightarrow> own \<in> {iown, oown, eown} \<Longrightarrow> T own = None"
    and c3: "chosen B G [(ifd, iown), (ofd, oown), (efd, eown)] objs"
    and g6: "table_at K T0 g6 = G(0 := a, 1 := b, 2 := c)"
  shows "table_at K T0 (close_fd iown (close_fd oown (close_fd eown (close_all_pipes pipes g6)))) = T(0 := a, 1 := b, 2 := c)"
    (is "table_at K T0 ?h3 = _")
proof
  fix fd
  let ?own = "fd \<in> {iown, oown, eown} \<and> 0 \<le> fd"
  have h3_fd: "table_at K T0 ?h3 fd = (if ?own \<or> fd \<in> pipe_ends pipes then None else table_at K T0 g6 fd)"
    using ends(1) by (auto simp: table_at_close_fd close_all_pipes_table)
  have g3_fd: "G fd = B fd" if "\<not> ?own" using c3 that by (auto simp: chosen_def)
  show "table_at K T0 ?h3 fd = (T(0 := a, 1 := b, 2 := c)) fd"
  proof (cases "?own \<or> fd \<in> pipe_ends pipes")
    case True
    have none: "T fd = None" using True own [of fd] ends(1) by metis
    then have "fd \<noteq> 0" "fd \<noteq> 1" "fd \<noteq> 2" using T by auto
    then show ?thesis using none h3_fd [unfolded if_P [OF True]] by simp
  next
    case False
    then have "table_at K T0 ?h3 fd = table_at K T0 g6 fd" "G fd = T fd"
      using h3_fd [unfolded if_not_P [OF False]] g3_fd ends(2) by simp_all
    then show ?thesis unfolding g6 by simp
  qed
qed

lemma configure_child_io_table:
  assumes fresh: "fresh_descriptors K T0" and pipes: "pipes_ok K T0 h h2 pipes" "length pipes = n - 1" "i < n"
    and std: "\<forall>fd \<in> {0, 1, 2}. table_at K T0 h fd \<noteq> None"
    and run: "configure_child_io K c i n pipes h2 = (Inr (), h3)"
  defines "T \<equiv> table_at K T0 h"
  shows "table_at K T0 h3 = T(0 := stdin_of T (length h) i c, 1 := stdout_of T (length h) i n c, 2 := stderr_of T c)"
proof -
  have ends: "\<forall>fd \<in> pipe_ends pipes. 0 \<le> fd \<and> T fd = None" "\<forall>fd. fd \<notin> pipe_ends pipes \<longrightarrow> table_at K T0 h2 fd = T fd"
    using pipes(1) by (simp_all add: pipes_ok_def T_def)
  have T: "T 0 \<noteq> None" "T 1 \<noteq> None" "T 2 \<noteq> None" using std by (auto simp: T_def)
  with ends(1) have std_ends: "0 \<notin> pipe_ends pipes" "1 \<notin> pipe_ends pipes" "2 \<notin> pipe_ends pipes" by auto
  from run obtain ifd iown g1 ofd oown g2 efd eown g3 g4 g5 g6 where
    o1: "child_open (has_input_redirect c) (open_input_redirect K (input_file c)) ''input''
       (if 0 < i then fst (pipes ! (i - 1)) else STDIN_FILENO) h2 = (Inr (ifd, iown), g1)" and
    o2: "child_open (has_output_redirect c) (open_output_redirect K (output_file c) (append_output c)) ''output''
       (if i + 1 < n then snd (pipes ! i) else STDOUT_FILENO) g1 = (Inr (ofd, oown), g2)" and
    o3: "child_open (has_error_redirect c) (open_output_redirect K (error_file c) (append_error c)) ''error''
       STDERR_FILENO g2 = (Inr (efd, eown), g3)" and
    d: "duplicate_or_exit K ifd STDIN_FILENO ''stdin'' g3 = (Inr (), g4)"
    "duplicate_or_exit K ofd STDOUT_FILENO ''stdout'' g4 = (Inr (), g5)"
    "duplicate_or_exit K efd STDERR_FILENO ''stderr'' g5 = (Inr (), g6)" and
    h3: "h3 = close_fd iown (close_fd oown (close_fd eown (close_all_pipes pipes g6)))"
    by (rule configure_child_io_steps)
  note c3 = child_opens_chosen [OF fresh pipes T_def [THEN meta_eq_to_obj_eq] T o1 o2 o3]
  have own: "T own = None" if "0 \<le> own" "own \<in> {iown, oown, eown}" for own
    using c3 that ends by (cases "own \<in> pipe_ends pipes") (auto simp: chosen_def)
  have "ofd \<noteq> 0" "efd \<noteq> 0" "efd \<noteq> 1"
    using child_open_table [OF fresh o2 redirect_openers(2)] child_open_table [OF fresh o3 redirect_openers(2)]
      own [of oown] own [of eown] T pipes(2,3) std_ends
    by (auto simp: pipe_ends_def split: if_splits)
  then have "table_at K T0 g6 = (table_at K T0 g3)(0 := stdin_of T (length h) i c, 1 := stdout_of T (length h) i n c, 2 := stderr_of T c)"
    using c3 duplicate_or_exit_table [OF d(1)] duplicate_or_exit_table [OF d(2)] duplicate_or_exit_table [OF d(3)]
    by (simp add: chosen_def)
  from child_closes [OF ends T own c3 this] show ?thesis unfolding h3 .
qed


section \<open>From the pipeline to its programs\<close>

lemma launch_loop_child:
  assumes "launch_loop w cs i n pipes pgid pids x h = Some (Inl e, h')"
  shows "\<exists>k mid g. k < length cs \<and> list_all fd_neutral mid \<and>
    child_main w (cs ! k) (i + k) n pipes g x (h @ mid) = Some (e, h') \<and> args (cs ! k) \<noteq> []"
  using assms
proof (induction cs arbitrary: i pgid pids h)
  case (Cons c cs)
  define f where "f = Fork i"
  define pid where "pid = ret (sys w h f)"
  have again: ?case if l: "launch_loop w cs (i + 1) n pipes g ps x (h @ mid) = Some (Inl e, h')" "list_all fd_neutral mid" for g ps mid
  proof -
    from Cons.IH [OF l(1)] obtain k mid' g' where k: "k < length cs" "list_all fd_neutral mid'"
      "child_main w (cs ! k) (i + 1 + k) n pipes g' x ((h @ mid) @ mid') = Some (e, h')" "args (cs ! k) \<noteq> []" by blast
    then show ?thesis using l(2)
      by (intro exI [of _ "Suc k"] exI [of _ "mid @ mid'"] exI [of _ g']) simp
  qed
  show ?case
  proof (cases "args c = []")
    case True
    with Cons.prems again [of pgid pids "[]"] show ?thesis by simp
  next
    case False
    consider "pid = -1" | "pid = 0" | "pid \<noteq> -1" "pid \<noteq> 0" by blast
    then show ?thesis
    proof cases
      case 1
      with Cons.prems False show ?thesis by (simp add: syscall_def pid_def f_def Let_def)
    next
      case 2
      with Cons.prems False have "child_main w c i n pipes pgid x (h @ [f]) = Some (e, h')"
        by (auto simp: syscall_def pid_def f_def Let_def)
      with False show ?thesis by (intro exI [of _ 0] exI [of _ "[f]"] exI [of _ pgid]) (simp add: f_def)
    next
      case 3
      obtain mid g where m: "launch_loop w (c # cs) i n pipes pgid pids x h = launch_loop w cs (i + 1) n pipes g (pids @ [pid]) x (h @ mid)"
        "mid = [Fork i, Setpgid pid g] \<or> (\<exists>t. mid = [Fork i, Setpgid pid g, WriteAll STDERR_FILENO t])"
        by (rule launch_loop_next [of c pid w h i, OF False _ 3]) (simp_all add: pid_def f_def)
      have "list_all fd_neutral mid" using m(2) by auto
      with again Cons.prems m(1) show ?thesis by metis
    qed
  qed
qed simp

text \<open>The set-up of a child fails only when the kernel refuses a \<open>setpgid\<close>, an \<open>open\<close> or a \<open>dup2\<close>.\<close>

definition setup_refused :: "kernel \<Rightarrow> trace \<Rightarrow> trace \<Rightarrow> bool" where
  "setup_refused K h h' \<longleftrightarrow> (\<exists>as c bs. h' = h @ as @ c # bs \<and> ret (K (h @ as) c) < 0 \<and>
     (case c of Setpgid _ _ \<Rightarrow> True | Open _ _ _ \<Rightarrow> True | Dup2 _ _ \<Rightarrow> True | _ \<Rightarrow> False))"

definition stage_ok :: "kernel \<Rightarrow> trace \<Rightarrow> 'a step_end \<times> trace \<Rightarrow> bool" where
  "stage_ok K h m \<longleftrightarrow> prefix h (snd m) \<and> (\<forall>d. fst m = Inl d \<longrightarrow> d = Exited 1 \<and> setup_refused K h (snd m))"

lemma setup_refused_later: "setup_refused K h1 h' \<Longrightarrow> prefix h h1 \<Longrightarrow> setup_refused K h h'"
  unfolding setup_refused_def prefix_def by (metis append.assoc)

lemma setup_refused_at:
  "ret (K h c) < 0 \<Longrightarrow> (case c of Setpgid _ _ \<Rightarrow> True | Open _ _ _ \<Rightarrow> True | Dup2 _ _ \<Rightarrow> True | _ \<Rightarrow> False) \<Longrightarrow>
   setup_refused K h (h @ c # bs)"
  unfolding setup_refused_def by (intro exI [of _ "[]"] exI [of _ c] exI [of _ bs]) simp

lemma and_then_stage:
  assumes "stage_ok K h m" "\<And>a h1. stage_ok K h1 (f a h1)"
  shows "stage_ok K h (and_then m f)"
proof (cases m)
  case (Pair e h1)
  show ?thesis
  proof (cases e)
    case (Inr a)
    have p: "prefix h h1" using assms(1) Pair by (simp add: stage_ok_def)
    from assms(2) [of h1 a] Pair Inr p show ?thesis
      by (auto simp: stage_ok_def and_then_def intro: setup_refused_later prefix_order.trans)
  qed (use assms(1) Pair in \<open>simp add: stage_ok_def and_then_def\<close>)
qed

lemma child_open_stage:
  assumes "opener = (\<lambda>h. (ret (K h (Open p fl md)), h @ [Open p fl md]))"
  shows "stage_ok K h (child_open b opener what otherwise h)"
  using setup_refused_at [of K h "Open p fl md"] by (simp add: child_open_def stage_ok_def emit_def assms)

lemma duplicate_stage: "stage_ok K h (duplicate_or_exit K old new label h)"
  using setup_refused_at [of K h "Dup2 old new"] by (simp add: duplicate_or_exit_def stage_ok_def syscall_def emit_def Let_def)

lemma close_fd_prefix: "prefix h h' \<Longrightarrow> prefix h (close_fd fd h')"
  by (auto simp: close_fd_def emit_def prefix_def)

lemma close_all_pipes_prefix: "prefix h h' \<Longrightarrow> prefix h (close_all_pipes pipes h')"
  by (induction pipes arbitrary: h') (auto simp: close_fd_prefix)

lemma configure_child_io_stage: "stage_ok K h (configure_child_io K c i n pipes h)"
  unfolding configure_child_io_def split_beta
  by (intro and_then_stage child_open_stage [OF redirect_openers(1)] child_open_stage [OF redirect_openers(2)] duplicate_stage)
    (simp add: stage_ok_def close_fd_prefix close_all_pipes_prefix)

lemma child_main_cases:
  assumes "child_main w c i n pipes g x h = Some (d, h')"
  obtains (refused) "d = Exited 1" "setup_refused (sys w) h h'"
  | (runs) mid h3 where "list_all fd_neutral mid" "configure_child_io (sys w) c i n pipes (h @ mid) = (Inr (), h3)"
      "child_command w c x h3 = Some (d, h')" "prefix h h3"
proof -
  define sig where "sig = map (\<lambda>s. Sigaction s SIG_DFL) [SIGINT, SIGQUIT, SIGTSTP, SIGTTIN, SIGTTOU, SIGCHLD]"
  define ids where "ids = (if g = 0 then [Getpid] else [])"
  define group where "group = Setpgid 0 (if g = 0 then ret (sys w h Getpid) else g)"
  have n: "list_all fd_neutral (ids @ group # sig)" by (simp add: ids_def group_def sig_def)
  obtain e h3 where io: "configure_child_io (sys w) c i n pipes (h @ ids @ group # sig) = (e, h3)" by fastforce
  have body: "child_main w c i n pipes g x h =
      (if ret (sys w (h @ ids) group) = -1 then Some (Exited 1, h @ ids @ [group])
       else case e of Inl d \<Rightarrow> Some (d, h3) | Inr u \<Rightarrow> child_command w c x h3)"
    using io unfolding ids_def group_def sig_def
    by (cases "g = 0") (simp_all add: child_main_def syscall_def reset_handlers_calls Let_def split: sum.split)
  have stage: "prefix (h @ ids @ group # sig) h3" "\<And>d. e = Inl d \<Longrightarrow> d = Exited 1 \<and> setup_refused (sys w) (h @ ids @ group # sig) h3"
    using configure_child_io_stage [of "sys w" "h @ ids @ group # sig" c i n pipes] unfolding io stage_ok_def by simp_all
  have ext: "prefix h h3" using stage(1) by (metis append_prefixD)
  show thesis
  proof (cases "ret (sys w (h @ ids) group) = -1")
    case True
    then have "setup_refused (sys w) (h @ ids) ((h @ ids) @ [group])" by (intro setup_refused_at) (simp_all add: group_def)
    with assms body True show thesis by (intro refused) (auto intro: setup_refused_later)
  next
    case False
    show thesis
    proof (cases e)
      case (Inl d')
      with stage(2) [OF Inl] assms body False show thesis by (intro refused) (auto intro: setup_refused_later)
    next
      case (Inr u)
      with assms body False io n ext show thesis by (intro runs [of "ids @ group # sig" h3]) simp_all
    qed
  qed
qed

lemma child_command_external:
  assumes "child_command w c x h3 = Some (Replaced exe argv, h')" "\<not> is_builtin (hd (args c))"
  shows "argv = args c \<and> (\<exists>s as. h' = h3 @ [Execv s as])"
proof -
  have "hd (args c) \<notin> set builtin_commands" using assms(2) by (simp add: is_builtin_def)
  with assms have "exec_external_child (env w h3) (sys w) c h3 = (Replaced exe argv, h')"
    by (simp add: child_command_def is_job_builtin_def builtin_commands_def Let_def)
  then show ?thesis by (auto simp: exec_external_child_def execv_def syscall_def Let_def split: if_splits)
qed

lemma parent_builtin_returns_to_shell: "execute_parent_builtin w c x \<noteq> Some (Inl d, x')"
proof
  assume a: "execute_parent_builtin w c x = Some (Inl d, x')"
  obtain fds h1 where o: "open_redirects (sys w) c (calls x) = (fds, h1)" by fastforce
  with a obtain i out er where f: "fds = Some (i, out, er)" by (cases fds) (auto simp: execute_parent_builtin_def)
  let ?out = "if has_output_redirect c then out else STDOUT_FILENO" and ?er = "if has_error_redirect c then er else STDERR_FILENO"
  obtain r s2 h2 where b: "execute_builtin w c ?out ?er ParentShell (hist x) h1 = Some (r, s2, h2)"
    and "fst (case r of Inl c \<Rightarrow> (Inl c, x\<lparr>hist := s2, calls := h2\<rparr>)
          | Inr b \<Rightarrow> (Inr (exec_result (b_exit_requested b) (b_exit_code b) (b_status b)),
              x\<lparr>hist := s2, calls := close_fd i (close_fd out (close_fd er h2))\<rparr>)) = Inl d"
    using a o f by (cases "is_job_builtin (hd (args c))") (auto simp: execute_parent_builtin_def Let_def)
  moreover obtain b' where "r = Inr b'" using execute_builtin_parent [OF b] by blast
  ultimately show False by simp
qed


lemma pipes_ok_neutral:
  "pipes_ok K T0 h h1 pipes \<Longrightarrow> list_all fd_neutral mid \<Longrightarrow> pipes_ok K T0 h (h1 @ mid) pipes"
  by (simp add: pipes_ok_def table_at_neutral)

lemma execute_pipeline_child:
  assumes "execute_pipeline w pl x = Some (Inl d, x')" "\<not> runs_in_parent pl"
  obtains ps h1 where "make_pipes (sys w) (length (commands pl) - 1) [] (calls x) = (True, ps, h1)"
    "launch_loop w (commands pl) 0 (length (commands pl)) ps 0 [] x h1 = Some (Inl d, calls x')"
proof -
  have ne: "commands pl \<noteq> []" using assms(1) by (auto simp: execute_pipeline_def)
  obtain ok ps h1 where m: "make_pipes (sys w) (length (commands pl) - 1) [] (calls x) = (ok, ps, h1)" by (metis prod_cases3)
  have ok: "ok" using assms ne m by (cases ok) (auto simp: execute_pipeline_def)
  obtain e h2 where l: "launch_loop w (commands pl) 0 (length (commands pl)) ps 0 [] x h1 = Some (e, h2)"
    using assms ne m ok by (auto simp: execute_pipeline_def bind_eq_Some_conv)
  have "e = Inl d \<and> h2 = calls x'"
    using assms ne m ok l by (cases e; cases "projr e") (auto simp: execute_pipeline_def)
  with m ok l show thesis by (intro that) auto
qed

section \<open>Property\<close>

text \<open>
  C2. Every command of a pipeline gets the streams that the command line says. Let this process be a child that the
  shell has forked for a pipeline of any commands, built-in or external. Then it is the child of some command \<open>i\<close>, and
  either it exits with 1 because the kernel refused to put it in its process group, to open a redirection file or to
  duplicate a descriptor; or it runs its command with these streams: standard input, output and error are the
  redirection files of the command, or else the read end of the pipe to its left and the write end of the
  pipe to its right (the pipe that its neighbour has at the other end), or else the streams of the shell; and it has no
  other descriptor that the shell does not have: all pipe ends and opened files are closed. An external
  program is executed with its arguments and exactly this descriptor table. Descriptors are assumed to be new when
  the kernel hands them out, and the standard streams of the shell to be open.
\<close>

theorem pipeline_plumbing:
  assumes "fresh_descriptors (sys w) T0" "\<forall>fd \<in> {0, 1, 2}. table_at (sys w) T0 (calls x) fd \<noteq> None"
    "execute_pipeline w pl x = Some (Inl d, x')"
  shows "let T = table_at (sys w) T0 (calls x); k = length (calls x); n = length (commands pl)
    in \<exists>i < n. let c = commands pl ! i; streams = T(0 := stdin_of T k i c, 1 := stdout_of T k i n c, 2 := stderr_of T c)
      in (d = Exited 1 \<and> setup_refused (sys w) (calls x) (calls x') \<or>
          (\<exists>h. prefix (calls x) h \<and> table_at (sys w) T0 h = streams \<and> child_command w c x h = Some (d, calls x'))) \<and>
         (\<forall>exe argv. d = Replaced exe argv \<longrightarrow> \<not> is_builtin (hd (args c)) \<longrightarrow>
            argv = args c \<and> table_at (sys w) T0 (calls x') = streams)"
proof -
  define n where "n = length (commands pl)"
  have "\<not> runs_in_parent pl"
    using assms(3) by (auto simp: execute_pipeline_def parent_builtin_returns_to_shell split: if_splits)
  from execute_pipeline_child [OF assms(3) this] obtain ps h1 where m: "make_pipes (sys w) (n - 1) [] (calls x) = (True, ps, h1)"
    and l: "launch_loop w (commands pl) 0 n ps 0 [] x h1 = Some (Inl d, calls x')"
    unfolding n_def by blast
  have h1: "prefix (calls x) h1" using make_pipes_safe [OF m] by (auto simp: safe_ext_def)
  from launch_loop_child [OF l] obtain i mid g where i: "i < n" "list_all fd_neutral mid"
    "child_main w (commands pl ! i) i n ps g x (h1 @ mid) = Some (d, calls x')"
    by (auto simp: n_def)
  have p: "pipes_ok (sys w) T0 (calls x) h1 ps" "length ps = n - 1"
    using make_pipes_ok [OF assms(1) m, of "calls x"] by (simp_all add: pipes_ok_def)
  show ?thesis unfolding Let_def n_def [symmetric]
  proof (intro exI [of _ i] conjI [OF i(1)])
    let ?c = "commands pl ! i" and ?T = "table_at (sys w) T0 (calls x)" and ?k = "length (calls x)"
    let ?streams = "?T(0 := stdin_of ?T ?k i ?c, 1 := stdout_of ?T ?k i n ?c, 2 := stderr_of ?T ?c)"
    show "(d = Exited 1 \<and> setup_refused (sys w) (calls x) (calls x') \<or>
          (\<exists>h. prefix (calls x) h \<and> table_at (sys w) T0 h = ?streams \<and> child_command w ?c x h = Some (d, calls x'))) \<and>
        (\<forall>exe argv. d = Replaced exe argv \<longrightarrow> \<not> is_builtin (hd (args ?c)) \<longrightarrow>
          argv = args ?c \<and> table_at (sys w) T0 (calls x') = ?streams)"
      using i(3)
    proof (cases rule: child_main_cases)
      case refused
      with setup_refused_later [OF refused(2), of "calls x"] h1 show ?thesis by (auto simp: prefix_def)
    next
      case (runs mid' h3)
      have "pipes_ok (sys w) T0 (calls x) ((h1 @ mid) @ mid') ps" by (intro pipes_ok_neutral p i runs)
      from configure_child_io_table [OF assms(1) this p(2) i(1) assms(2) runs(2)] have t: "table_at (sys w) T0 h3 = ?streams" .
      have "prefix (calls x) h3" using h1 runs(4) by (metis append_prefixD prefix_order.trans)
      with t runs(3) child_command_external [of w ?c x h3] show ?thesis by fastforce
    qed
  qed
qed

text \<open>
  A kernel with new descriptors, in the second child of a pipeline: \<open>fork\<close> answers 0 for the command with
  index 1. \<open>next_fd\<close> is above every descriptor in use.
\<close>

definition fd_bound :: "syscall \<Rightarrow> int \<Rightarrow> int" where
  "fd_bound c m = (case c of Open _ _ _ \<Rightarrow> m + 1 | MkPipe \<Rightarrow> m + 2 | Dup2 _ new \<Rightarrow> max m (new + 1) | _ \<Rightarrow> m)"

definition next_fd :: "trace \<Rightarrow> int" where
  "next_fd h = fold fd_bound h 3"

definition second_child :: kernel where
  "second_child h c =
     (case c of
        Open _ _ _ \<Rightarrow> reply_ok\<lparr>ret := next_fd h\<rparr>
      | MkPipe \<Rightarrow> reply_ok\<lparr>ret := next_fd h, ret2 := next_fd h + 1\<rparr>
      | Fork i \<Rightarrow> reply_ok\<lparr>ret := (if i = 0 then 200 else 0)\<rparr>
      | _ \<Rightarrow> reply_ok)"

definition shell_table :: fd_table where
  "shell_table = [0 \<mapsto> Inherited 0, 1 \<mapsto> Inherited 1, 2 \<mapsto> Inherited 2]"

lemma next_fd_snoc: "next_fd (h @ [c]) = fd_bound c (next_fd h)"
  by (simp add: next_fd_def)

lemma next_fd_free: "3 \<le> next_fd h \<and> (\<forall>fd. next_fd h \<le> fd \<longrightarrow> table_at second_child shell_table h fd = None)"
proof (induction h rule: rev_induct)
  case Nil
  show ?case by (auto simp: next_fd_def table_at_def shell_table_def)
next
  case (snoc c h)
  then show ?case
    by (cases c) (auto simp: next_fd_snoc fd_bound_def table_step_def second_child_def)
qed

lemma second_child_fresh: "fresh_descriptors second_child shell_table"
proof -
  have answers: "ret (second_child h (Open p fl md)) = next_fd h" "ret (second_child h MkPipe) = next_fd h"
    "ret2 (second_child h MkPipe) = next_fd h + 1" for h p fl md
    by (simp_all add: second_child_def)
  have free: "table_at second_child shell_table h (next_fd h) = None" "table_at second_child shell_table h (next_fd h + 1) = None" for h
    using next_fd_free [of h] by simp_all
  have "0 \<le> next_fd h" for h using next_fd_free [of h] by linarith
  then show ?thesis unfolding fresh_descriptors_def answers by (simp add: free add_increasing2)
qed

text \<open>The pipeline \<open>echo hi | cat > out\<close>.\<close>

definition demo_pipeline :: Pipeline where
  "demo_pipeline = \<lparr>commands = [empty_command\<lparr>args := [''echo'', ''hi'']\<rparr>,
     empty_command\<lparr>args := [''cat''], has_output_redirect := True, output_file := ''out''\<rparr>], background = False\<rparr>"

definition piping_world :: "string list world" where
  "piping_world = demo_world\<lparr>sys := second_child\<rparr>"

theorem pipeline_plumbing_witness:
  "\<exists>exe x'. execute_pipeline piping_world demo_pipeline demo_shell = Some (Inl (Replaced exe [''cat'']), x') \<and>
     table_at second_child shell_table (calls x') =
       (table_at second_child shell_table (calls demo_shell))
         (0 \<mapsto> Read_end (length (calls demo_shell)), 1 \<mapsto> File ''out'' [O_WRONLY, O_CREAT, O_TRUNC])"
proof -
  have "case execute_pipeline piping_world demo_pipeline demo_shell of
      Some (Inl (Replaced exe argv), x') \<Rightarrow> argv = [''cat''] | _ \<Rightarrow> False" by code_simp
  then obtain exe x' where e: "execute_pipeline piping_world demo_pipeline demo_shell = Some (Inl (Replaced exe [''cat'']), x')"
    by (auto split: option.split_asm sum.split_asm child_end.split_asm prod.split_asm) (metis child_end.exhaust)
  have w: "sys piping_world = second_child" by (simp add: piping_world_def)
  have std: "\<forall>fd \<in> {0, 1, 2}. table_at (sys piping_world) shell_table (calls demo_shell) fd \<noteq> None" unfolding w by code_simp
  let ?T = "table_at second_child shell_table (calls demo_shell)" and ?k = "length (calls demo_shell)" and ?cs = "commands demo_pipeline"
  from pipeline_plumbing [OF second_child_fresh [folded w] std e, unfolded w Let_def] obtain i
    where i: "i < length ?cs" "\<exists>h. child_command piping_world (?cs ! i) demo_shell h = Some (Replaced exe [''cat''], calls x')"
      "\<not> is_builtin (hd (args (?cs ! i))) \<longrightarrow> table_at second_child shell_table (calls x') =
       ?T(0 := stdin_of ?T ?k i (?cs ! i), 1 := stdout_of ?T ?k i (length ?cs) (?cs ! i), 2 := stderr_of ?T (?cs ! i))"
    by blast
  have "child_command piping_world (?cs ! 0) demo_shell h \<noteq> Some (Replaced exe [''cat''], h')" for h h'
    by (auto simp: demo_pipeline_def child_command_def execute_builtin_def is_job_builtin_def is_builtin_def builtin_commands_def builtin_echo_def Let_def)
  then have "i \<noteq> 0" using i(2) by metis
  moreover have "length ?cs = 2" by (simp add: demo_pipeline_def)
  ultimately have "i = 1" using i(1) by linarith
  have ext: "\<not> is_builtin (hd (args (?cs ! 1)))" by code_simp
  have streams: "stdin_of T k 1 (commands demo_pipeline ! 1) = Some (Read_end k)"
    "stdout_of T k 1 (length (commands demo_pipeline)) (commands demo_pipeline ! 1) = Some (File ''out'' [O_WRONLY, O_CREAT, O_TRUNC])"
    "stderr_of T (commands demo_pipeline ! 1) = T 2" for T k
    by (simp_all add: stdin_of_def stdout_of_def stderr_of_def demo_pipeline_def empty_command_def c_str_def)
  have "table_at second_child shell_table (calls x') = ?T(0 \<mapsto> Read_end ?k, 1 \<mapsto> File ''out'' [O_WRONLY, O_CREAT, O_TRUNC])"
    using i(3) ext unfolding \<open>i = 1\<close> streams by (simp add: fun_eq_iff)
  with e show ?thesis by blast
qed

text \<open>
  Why the standard streams must be open: with a closed standard input, the redirection file gets
  descriptor 0 itself, nothing is duplicated, and the owner of the descriptor closes it again.
\<close>

lemma closed_stdin_redirect_lost:
  "configure_child_io (\<lambda>h c. reply_ok) (empty_command\<lparr>has_input_redirect := True, input_file := ''in''\<rparr>) 0 1 [] [] =
   (Inr (), [Open ''in'' [O_RDONLY] 0, Close 0])"
  by code_simp

end
