(* ===== verification/Unique_Fd.thy ===== *)
theory Unique_Fd
  imports Kernel "HOL-Library.Multiset"
begin

text \<open>
  \<open>src/include/unique_fd.hpp\<close>: the class that owns a descriptor, its operations, and programs that
  use several objects of it. The other theories use the effect of its destructor, \<open>close_fd\<close>.
\<close>

section \<open>The class\<close>

record UniqueFd =
  fd_member :: int

definition default_fd :: UniqueFd where
  "default_fd = \<lparr>fd_member = -1\<rparr>"

definition owning_fd :: "int \<Rightarrow> UniqueFd" where
  "owning_fd fd = \<lparr>fd_member = fd\<rparr>"

definition get_fd :: "UniqueFd \<Rightarrow> int" where
  "get_fd u = fd_member u"

definition valid_fd :: "UniqueFd \<Rightarrow> bool" where
  "valid_fd u \<longleftrightarrow> 0 \<le> fd_member u"

definition release_fd :: "UniqueFd \<Rightarrow> int \<times> UniqueFd" where
  "release_fd u = (let current = fd_member u in (current, u\<lparr>fd_member := -1\<rparr>))"

definition reset_fd :: "int \<Rightarrow> UniqueFd \<Rightarrow> trace \<Rightarrow> UniqueFd \<times> trace" where
  "reset_fd new_fd u h = (let h1 = (if 0 \<le> fd_member u then emit (Close (fd_member u)) h else h) in (u\<lparr>fd_member := new_fd\<rparr>, h1))"

definition destroy_fd :: "UniqueFd \<Rightarrow> trace \<Rightarrow> trace" where
  "destroy_fd u h = snd (reset_fd (-1) u h)"

text \<open>The constructor and the assignment that move: the new or changed object and what is left of the other.\<close>

definition move_construct_fd :: "UniqueFd \<Rightarrow> UniqueFd \<times> UniqueFd" where
  "move_construct_fd other = (let (fd, other') = release_fd other in (owning_fd fd, other'))"

text \<open>The store of the live objects, by their addresses.\<close>

type_synonym fd_store = "nat \<rightharpoonup> UniqueFd"

definition move_assign_fd :: "nat \<Rightarrow> nat \<Rightarrow> fd_store \<Rightarrow> trace \<Rightarrow> fd_store \<times> trace" where
  "move_assign_fd this other s h =
     (if this \<noteq> other then
        (let (fd, o') = release_fd (the (s other)); s1 = s(other \<mapsto> o'); (t', h1) = reset_fd fd (the (s1 this)) h
         in (s1(this \<mapsto> t'), h1))
      else (s, h))"

lemma close_fd_destructor: "close_fd fd h = destroy_fd (owning_fd fd) h"
  by (simp add: close_fd_def destroy_fd_def reset_fd_def owning_fd_def Let_def)


section \<open>Programs\<close>

text \<open>
  A program that creates, moves, releases, resets and destroys objects, within their lifetimes. The state
  counts the descriptors that were handed to objects (\<open>taken\<close>) and taken out by \<open>release\<close> (\<open>given\<close>).
\<close>

definition opened :: "int \<Rightarrow> int multiset" where
  "opened fd = (if 0 \<le> fd then {#fd#} else {#})"

lemma opened_none [simp]: "opened (-1) = {#}"
  by (simp add: opened_def)

record fd_program =
  store :: fd_store
  history :: trace
  taken :: "int multiset"
  given :: "int multiset"

inductive fd_runs :: "fd_program \<Rightarrow> bool" where
  start: "fd_runs \<lparr>store = Map.empty, history = [], taken = {#}, given = {#}\<rparr>"
| default: "fd_runs p \<Longrightarrow> store p i = None \<Longrightarrow> fd_runs (p\<lparr>store := (store p)(i \<mapsto> default_fd)\<rparr>)"
| own: "fd_runs p \<Longrightarrow> store p i = None \<Longrightarrow> fd_runs (p\<lparr>store := (store p)(i \<mapsto> owning_fd fd), taken := taken p + opened fd\<rparr>)"
| move_construct: "fd_runs p \<Longrightarrow> store p i = None \<Longrightarrow> store p j = Some u \<Longrightarrow> move_construct_fd u = (v, u') \<Longrightarrow>
    fd_runs (p\<lparr>store := (store p)(i \<mapsto> v, j \<mapsto> u')\<rparr>)"
| move_assign: "fd_runs p \<Longrightarrow> store p i \<noteq> None \<Longrightarrow> store p j \<noteq> None \<Longrightarrow> move_assign_fd i j (store p) (history p) = (s, h) \<Longrightarrow>
    fd_runs (p\<lparr>store := s, history := h\<rparr>)"
| release: "fd_runs p \<Longrightarrow> store p i = Some u \<Longrightarrow> release_fd u = (fd, u') \<Longrightarrow>
    fd_runs (p\<lparr>store := (store p)(i \<mapsto> u'), given := given p + opened fd\<rparr>)"
| reset: "fd_runs p \<Longrightarrow> store p i = Some u \<Longrightarrow> reset_fd fd u (history p) = (u', h) \<Longrightarrow>
    fd_runs (p\<lparr>store := (store p)(i \<mapsto> u'), history := h, taken := taken p + opened fd\<rparr>)"
| destroy: "fd_runs p \<Longrightarrow> store p i = Some u \<Longrightarrow>
    fd_runs (p\<lparr>store := (store p)(i := None), history := destroy_fd u (history p)\<rparr>)"

definition closed :: "trace \<Rightarrow> int multiset" where
  "closed h = mset (concat (map (\<lambda>c. case c of Close fd \<Rightarrow> [fd] | _ \<Rightarrow> []) h))"

definition owned :: "fd_store \<Rightarrow> int multiset" where
  "owned s = (\<Sum>i \<in> dom s. opened (fd_member (the (s i))))"

lemma fd_member_simps [simp]: "fd_member default_fd = -1" "fd_member (owning_fd fd) = fd"
  by (simp_all add: default_fd_def owning_fd_def)

lemma closed_simps [simp]: "closed [] = {#}" "closed (h @ [Close fd]) = add_mset fd (closed h)"
  by (simp_all add: closed_def)

lemma owned_empty [simp]: "owned Map.empty = {#}"
  by (simp add: owned_def)

lemma owned_new: "finite (dom s) \<Longrightarrow> s i = None \<Longrightarrow> owned (s(i \<mapsto> u)) = opened (fd_member u) + owned s"
  by (auto simp: owned_def domIff intro!: sum.cong)

lemma owned_upd:
  assumes "finite (dom s)" "s i = Some u"
  shows "owned s = opened (fd_member u) + owned (s(i := None))" "owned (s(i \<mapsto> v)) = opened (fd_member v) + owned (s(i := None))"
proof -
  have "owned ((s(i := None))(i \<mapsto> x)) = opened (fd_member x) + owned (s(i := None))" for x
    using assms by (intro owned_new) auto
  moreover have "(s(i := None))(i \<mapsto> u) = s" using assms(2) by (auto simp: fun_eq_iff)
  ultimately show "owned s = opened (fd_member u) + owned (s(i := None))" "owned (s(i \<mapsto> v)) = opened (fd_member v) + owned (s(i := None))"
    by (metis, simp)
qed

lemma closed_reset: "reset_fd fd u h = (u', h') \<Longrightarrow> closed h' = opened (fd_member u) + closed h \<and> fd_member u' = fd"
  by (auto simp: reset_fd_def emit_def opened_def Let_def)

lemma closed_destroy: "closed (destroy_fd u h) = opened (fd_member u) + closed h"
  using closed_reset [of "-1" u h] by (simp add: destroy_fd_def prod_eq_iff)

lemma release_fd_simps: "release_fd u = (fd, u') \<longleftrightarrow> fd = fd_member u \<and> u' = u\<lparr>fd_member := -1\<rparr>"
  by (auto simp: release_fd_def)

lemma owned_two:
  assumes "finite (dom s)" "i \<noteq> j" "s i = Some t" "s j = Some u"
  shows "owned s = opened (fd_member t) + opened (fd_member u) + owned (s(i := None, j := None))"
    "owned (s(j \<mapsto> u', i \<mapsto> t')) = opened (fd_member t') + opened (fd_member u') + owned (s(i := None, j := None))"
proof -
  have f: "finite (dom (s(i := None)))" using assms(1) by simp
  show "owned s = opened (fd_member t) + opened (fd_member u) + owned (s(i := None, j := None))"
    using owned_upd(1) [OF assms(1,3)] owned_upd(1) [OF f, of j u] assms(2,4) by simp
  have "owned (s(j \<mapsto> u', i \<mapsto> t')) = opened (fd_member t') + owned ((s(j \<mapsto> u'))(i := None))"
    using assms by (intro owned_upd(2)) auto
  moreover have "(s(j \<mapsto> u'))(i := None) = (s(i := None))(j \<mapsto> u')" using assms(2) by (simp add: fun_upd_twist)
  ultimately show "owned (s(j \<mapsto> u', i \<mapsto> t')) = opened (fd_member t') + opened (fd_member u') + owned (s(i := None, j := None))"
    using owned_upd(2) [OF f, of j u u'] assms(2,4) by simp
qed

lemma move_assign_accounts:
  assumes "finite (dom s)" "s i \<noteq> None" "s j \<noteq> None" "move_assign_fd i j s h = (s', h')"
  shows "owned s' + closed h' = owned s + closed h \<and> dom s' = dom s"
proof (cases "i = j")
  case True
  with assms(4) show ?thesis by (simp add: move_assign_fd_def)
next
  case False
  from assms(2,3) obtain t u where tu: "s i = Some t" "s j = Some u" by blast
  obtain t' h1 where r: "reset_fd (fd_member u) t h = (t', h1)" by fastforce
  with assms(4) False tu have e: "s' = s(j \<mapsto> u\<lparr>fd_member := -1\<rparr>, i \<mapsto> t')" "h' = h1"
    by (auto simp: move_assign_fd_def release_fd_def Let_def)
  from closed_reset [OF r] have c: "closed h1 = opened (fd_member t) + closed h" "fd_member t' = fd_member u" by simp_all
  have "dom s' = dom s" unfolding e(1) using tu by auto
  with owned_two [OF assms(1) False tu] c e show ?thesis by (simp add: ac_simps)
qed

lemma fd_runs_accounts:
  "fd_runs p \<Longrightarrow> finite (dom (store p)) \<and> taken p = owned (store p) + given p + closed (history p)"
proof (induction rule: fd_runs.induct)
  case (default p i)
  then show ?case using owned_new [of "store p" i default_fd] by (simp del: fun_upd_apply)
next
  case (own p i fd)
  then show ?case using owned_new [of "store p" i "owning_fd fd"] by (simp add: ac_simps del: fun_upd_apply)
next
  case (move_construct p i j u v u')
  have "i \<noteq> j" using move_construct by auto
  have v: "v = owning_fd (fd_member u)" "u' = u\<lparr>fd_member := -1\<rparr>"
    using move_construct(4) by (auto simp: move_construct_fd_def release_fd_def Let_def)
  have "owned ((store p)(i \<mapsto> v, j \<mapsto> u')) = opened (fd_member u') + owned (((store p)(i \<mapsto> v))(j := None))"
    using move_construct \<open>i \<noteq> j\<close> by (intro owned_upd(2)) auto
  also have "((store p)(i \<mapsto> v))(j := None) = ((store p)(j := None))(i \<mapsto> v)" using \<open>i \<noteq> j\<close> by (simp add: fun_upd_twist)
  also have "owned \<dots> = opened (fd_member v) + owned ((store p)(j := None))"
    using move_construct \<open>i \<noteq> j\<close> by (intro owned_new) auto
  finally have "owned ((store p)(i \<mapsto> v, j \<mapsto> u')) = owned (store p)"
    using owned_upd(1) [of "store p" j u] move_construct v by (simp del: fun_upd_apply)
  with move_construct show ?case by (simp del: fun_upd_apply)
next
  case (move_assign p i j s h)
  with move_assign_accounts [of "store p" i j "history p" s h] show ?case by (simp add: ac_simps)
next
  case (release p i u fd u')
  then show ?case using owned_upd(1) [of "store p" i u] owned_upd(2) [of "store p" i u u'] by (simp add: release_fd_simps ac_simps del: fun_upd_apply)
next
  case (reset p i u fd u' h)
  then show ?case using owned_upd(1) [of "store p" i u] owned_upd(2) [of "store p" i u u'] closed_reset [OF reset(3)] by (simp add: ac_simps del: fun_upd_apply)
next
  case (destroy p i u)
  then show ?case using owned_upd(1) [of "store p" i u] by (simp add: closed_destroy ac_simps del: fun_upd_apply)
qed simp


section \<open>Property\<close>

text \<open>
  C15. A descriptor has exactly one fate. In every program over \<open>UniqueFd\<close> objects, with any moves between them
  (also of an object to itself), each descriptor that was handed to an object is still owned by exactly one
  live object, or has been taken out by \<open>release\<close>, or has been closed, and that exactly once; with no
  object left, all others are closed.
\<close>

theorem descriptor_fate:
  assumes "fd_runs p"
  shows "taken p = owned (store p) + given p + closed (history p) \<and>
    (store p = Map.empty \<longrightarrow> closed (history p) = taken p - given p)"
  using fd_runs_accounts [OF assms] by auto

lemma move_construct_owning: "move_construct_fd (owning_fd fd) = (owning_fd fd, default_fd)"
  by (simp add: move_construct_fd_def release_fd_def owning_fd_def default_fd_def Let_def)

text \<open>A descriptor that is moved to a second object, which is assigned to itself; then both objects are destroyed.\<close>

theorem descriptor_fate_witness:
  "\<exists>p. fd_runs p \<and> store p = Map.empty \<and> taken p = {#5#} \<and> given p = {#} \<and> history p = [Close 5] \<and>
     closed (history p) = taken p - given p"
proof -
  let ?p = "\<lparr>store = Map.empty, history = [], taken = {#}, given = {#}\<rparr>"
  let ?p1 = "?p\<lparr>store := [0 \<mapsto> owning_fd 5], taken := {#5#}\<rparr>"
  let ?p2 = "?p1\<lparr>store := [0 \<mapsto> default_fd, 1 \<mapsto> owning_fd 5]\<rparr>"
  have "fd_runs ?p1" using fd_runs.own [OF fd_runs.start, of 0 5] by (simp add: opened_def)
  then have "fd_runs (?p1\<lparr>store := (store ?p1)(1 \<mapsto> owning_fd 5, 0 \<mapsto> default_fd)\<rparr>)"
    by (rule fd_runs.move_construct [where u = "owning_fd 5"]) (simp_all add: move_construct_owning)
  then have "fd_runs ?p2" by (simp add: fun_upd_twist)
  then have "fd_runs (?p2\<lparr>store := store ?p2, history := history ?p2\<rparr>)"
    by (rule fd_runs.move_assign [of _ 1 1]) (simp_all add: move_assign_fd_def)
  then have moved: "fd_runs (?p2\<lparr>store := (store ?p2)(1 := None), history := [Close 5]\<rparr>)"
    using fd_runs.destroy [of ?p2 1 "owning_fd 5"] by (simp add: destroy_fd_def reset_fd_def emit_def Let_def)
  have left: "(store ?p2)(1 := None) = [0 \<mapsto> default_fd]" by (simp add: fun_eq_iff)
  have "fd_runs (?p2\<lparr>store := [0 \<mapsto> default_fd], history := [Close 5]\<rparr>)" using moved unfolding left .
  from fd_runs.destroy [OF this, of 0 default_fd]
  have end_run: "fd_runs (?p2\<lparr>store := Map.empty, history := [Close 5]\<rparr>)"
    by (simp add: destroy_fd_def reset_fd_def Let_def)
  let ?q = "?p2\<lparr>store := Map.empty, history := [Close 5]\<rparr>"
  have "closed (history ?q) = taken ?q - given ?q" by (rule mp [OF conjunct2 [OF descriptor_fate [OF end_run]]]) simp
  moreover have "store ?q = Map.empty" "taken ?q = {#5#}" "given ?q = {#}" "history ?q = [Close 5]" by simp_all
  ultimately show ?thesis using end_run by (intro exI [of _ ?q] conjI)
qed

end
