(* ===== verification/Descriptors.thy ===== *)
theory Descriptors
  imports Main_Theorems Plumbing Unique_Fd
begin

text \<open>
  Descriptors over time. The trace of the shell is replayed on the descriptors that the process has
  opened itself: every successful \<open>open\<close> and \<open>pipe\<close> adds descriptors, a \<open>close\<close> takes one away and is an error when the
  process does not hold it. A triple \<open>holds K h A h' B\<close> says that the calls between \<open>h\<close> and \<open>h'\<close> turn the
  held descriptors \<open>A\<close> into \<open>B\<close>, whatever else is held.
\<close>

section \<open>Replaying a trace\<close>

definition fd_step :: "kernel \<Rightarrow> trace \<Rightarrow> syscall \<Rightarrow> int multiset \<Rightarrow> int multiset option" where
  "fd_step K h c M =
     (case c of
        Open _ _ _ \<Rightarrow> Some (M + opened (ret (K h c)))
      | MkPipe \<Rightarrow> Some (if ret (K h c) = -1 then M else M + opened (ret (K h c)) + opened (ret2 (K h c)))
      | Close fd \<Rightarrow> if fd \<in># M then Some (M - {#fd#}) else None
      | Dup2 _ _ \<Rightarrow> None
      | _ \<Rightarrow> Some M)"

fun held :: "kernel \<Rightarrow> trace \<Rightarrow> trace \<Rightarrow> int multiset \<Rightarrow> int multiset option" where
  "held K h [] M = Some M"
| "held K h (c # cs) M = Option.bind (fd_step K h c M) (held K (h @ [c]) cs)"

lemma held_append: "held K h (as @ bs) M = Option.bind (held K h as M) (held K (h @ as) bs)"
proof (induction "as" arbitrary: h M)
  case (Cons a "as")
  then show ?case by (cases "fd_step K h a M") simp_all
qed simp

definition holds :: "kernel \<Rightarrow> trace \<Rightarrow> int multiset \<Rightarrow> trace \<Rightarrow> int multiset \<Rightarrow> bool" where
  "holds K h A h' B \<longleftrightarrow> (\<exists>cs. h' = h @ cs \<and> (\<forall>M. held K h cs (A + M) = Some (B + M)))"

abbreviation keeps_fds :: "kernel \<Rightarrow> trace \<Rightarrow> trace \<Rightarrow> bool" where
  "keeps_fds K h h' \<equiv> holds K h {#} h' {#}"

lemma holds_refl [simp, intro]: "holds K h A h A"
  by (auto simp: holds_def)

lemma holds_trans: "holds K h A h1 B \<Longrightarrow> holds K h1 B h2 C \<Longrightarrow> holds K h A h2 C"
  unfolding holds_def by (auto simp: held_append)

lemma holds_frame: "holds K h A h' B \<Longrightarrow> holds K h (A + F) h' (B + F)"
  unfolding holds_def by (metis add.assoc)

lemma keeps_fds_any: "keeps_fds K h h' \<Longrightarrow> holds K h A h' A"
  using holds_frame [of K h "{#}" h' "{#}" A] by simp

lemma fd_step_neutral: "fd_neutral c \<Longrightarrow> fd_step K h c M = Some M"
  by (cases c) (simp_all add: fd_neutral_def fd_step_def)

lemma keeps_fds_neutral: "list_all fd_neutral cs \<Longrightarrow> holds K h A (h @ cs) A"
proof -
  assume "list_all fd_neutral cs"
  then have "held K h cs M = Some M" for M
    by (induction cs arbitrary: h) (simp_all add: fd_step_neutral)
  then show ?thesis by (auto simp: holds_def)
qed

lemma holds_snoc: "holds K h A h' B \<Longrightarrow> fd_neutral c \<Longrightarrow> holds K h A (h' @ [c]) B"
  by (rule holds_trans [OF _ keeps_fds_neutral]) simp_all

lemma holds_emit: "holds K h A h' B \<Longrightarrow> fd_neutral c \<Longrightarrow> holds K h A (emit c h') B"
  unfolding emit_def by (rule holds_snoc)

lemma keeps_fds_step: "keeps_fds K (h @ [c]) h' \<Longrightarrow> fd_neutral c \<Longrightarrow> keeps_fds K h h'"
  by (rule holds_trans [OF keeps_fds_neutral, of "[c]"]) simp_all

lemma holds_open: "holds K h A (h @ [Open p fl md]) (opened (ret (K h (Open p fl md))) + A)"
  unfolding holds_def by (intro exI [of _ "[Open p fl md]"]) (simp add: fd_step_def ac_simps)

lemma holds_close_fd: "holds K h (opened fd + A) (close_fd fd h) A"
  unfolding holds_def close_fd_def emit_def opened_def
  by (cases "0 \<le> fd") (auto simp: fd_step_def intro!: exI [of _ "[Close fd]"])

lemma holds_pipe:
  "holds K h A (h @ [MkPipe])
     (if ret (K h MkPipe) = -1 then A else opened (ret (K h MkPipe)) + opened (ret2 (K h MkPipe)) + A)"
  unfolding holds_def by (intro exI [of _ "[MkPipe]"]) (simp add: fd_step_def ac_simps)


section \<open>Job control\<close>

lemma give_terminal_keeps: "keeps_fds K h (give_terminal_to jc g m h)"
  by (auto simp: give_terminal_to_def Let_def split: option.split intro!: holds_emit)

lemma reclaim_keeps: "keeps_fds K h (reclaim_terminal jc h)"
  by (simp add: reclaim_terminal_def keeps_fds_neutral)

lemma wait_loop_keeps: "wait_loop K i jc h = Some (jc', h') \<Longrightarrow> keeps_fds K h h'"
  by (rule wait_loop_rule(1) [where I = "\<lambda>jc h'. keeps_fds K h h'"])
    (auto simp: closed_wait_def closed_call_def intro: holds_snoc)

lemma reap_loop_keeps: "reap_loop K jc h = Some (jc', h') \<Longrightarrow> keeps_fds K h h'"
  by (rule reap_loop_rule [where I = "\<lambda>jc h'. keeps_fds K h h'"])
    (auto simp: closed_reap_def closed_call_def intro: holds_snoc)

lemma notify_keeps: "keeps_fds K h (snd (notify_and_cleanup_done_jobs jc h))"
  unfolding notify_and_cleanup_done_jobs_def notify_jobs_eq Let_def prod.case snd_conv
  by (rule keeps_fds_neutral) (simp add: list_all_iff)

lemma reap_background_keeps:
  assumes "reap_background K notify jc h = Some (jc', h')"
  shows "keeps_fds K h h'"
proof -
  obtain jc1 h1 where 1: "(if sigchld_pending jc then reap_loop K (jc\<lparr>sigchld_pending := False\<rparr>) h
      else Some (jc, h)) = Some (jc1, h1)"
    and 2: "(if notify then notify_and_cleanup_done_jobs jc1 h1 else (jc1, h1)) = (jc', h')"
    using assms by (auto simp: reap_background_def bind_eq_Some_conv)
  have "keeps_fds K h h1" using 1 by (auto split: if_splits dest: reap_loop_keeps)
  moreover have "keeps_fds K h1 h'" using 2 notify_keeps [of K h1 jc1] by (auto split: if_splits)
  ultimately show ?thesis by (rule holds_trans)
qed

lemma save_job_modes_keeps: "save_job_modes K i jc h = (jc', h') \<Longrightarrow> keeps_fds K h h'"
  by (auto simp: save_job_modes_def syscall_def Let_def split: option.splits if_splits intro: holds_snoc)

lemma foreground_result_keeps: "foreground_result i jc h = (r, jc', h') \<Longrightarrow> keeps_fds K h h'"
  by (auto simp: foreground_result_def split: option.splits if_splits intro: holds_emit)

lemma wait_foreground_keeps:
  assumes "wait_foreground K i b jc h = Some (r, jc', h')"
  shows "keeps_fds K h h'"
proof (cases "find_job i jc")
  case None
  with assms show ?thesis by (simp add: wait_foreground_def)
next
  case (Some job)
  define h1 where "h1 = give_terminal_to jc (job_pgid job)
      (if job_has_terminal_modes job then Some (job_terminal_modes job) else None) h"
  define h2 where "h2 = (if b then h1 @ [Kill (- job_pgid job) SIGCONT] else h1)"
  have "keeps_fds K h h1" unfolding h1_def by (rule give_terminal_keeps)
  then have h2: "keeps_fds K h h2" by (simp add: h2_def holds_snoc)
  define jc1 where "jc1 = (if b then modify_job i resume_records jc else jc)"
  from assms Some have eq: "(if b \<and> ret (K h1 (Kill (- job_pgid job) SIGCONT)) = -1 then Some (1, jc1, reclaim_terminal jc1 h2)
      else Option.bind (wait_loop K i jc1 h2) (\<lambda>(jc2, h3).
                let (jc3, h4) = save_job_modes K i jc2 h3
                in Some (foreground_result i jc3 (reclaim_terminal jc3 h4)))) = Some (r, jc', h')"
    by (cases b) (simp_all add: wait_foreground_def Let_def h1_def h2_def jc1_def syscall_def split del: if_split cong: if_cong)
  show ?thesis
  proof (cases "b \<and> ret (K h1 (Kill (- job_pgid job) SIGCONT)) = -1")
    case True
    with eq have "h' = reclaim_terminal jc1 h2" by auto
    with h2 reclaim_keeps show ?thesis by (auto intro: holds_trans)
  next
    case False
    with eq obtain jc2 h3 where l: "wait_loop K i jc1 h2 = Some (jc2, h3)"
      "(let (jc3, h4) = save_job_modes K i jc2 h3 in Some (foreground_result i jc3 (reclaim_terminal jc3 h4))) = Some (r, jc', h')"
      by (auto simp: bind_eq_Some_conv)
    obtain jc3 h4 where s: "save_job_modes K i jc2 h3 = (jc3, h4)" by fastforce
    with l have w: "wait_loop K i jc1 h2 = Some (jc2, h3)" "save_job_modes K i jc2 h3 = (jc3, h4)"
      "foreground_result i jc3 (reclaim_terminal jc3 h4) = (r, jc', h')" by simp_all
    from h2 wait_loop_keeps [OF w(1)] save_job_modes_keeps [OF w(2)] reclaim_keeps [of K h4 jc3] foreground_result_keeps [OF w(3)]
    show ?thesis by (blast intro: holds_trans)
  qed
qed

lemma execute_job_builtin_keeps:
  assumes "execute_job_builtin K command out err jc h = Some (st, jc', h')"
  shows "keeps_fds K h h'"
proof -
  have after: "keeps_fds K h h2" if "reap_background K False jc h = Some (jc1, h1)" "keeps_fds K h1 h2" for jc1 h1 h2
    by (rule holds_trans [OF reap_background_keeps [OF that(1)] that(2)])
  have fg: "keeps_fds K h h'" if run: "foreground K spec out err jc h = Some (st, jc', h')" for spec
  proof -
    obtain jc1 h1 where r: "reap_background K False jc h = Some (jc1, h1)" using run by (auto simp: foreground_def bind_eq_Some_conv)
    have "keeps_fds K h1 h'"
      using run r unfolding foreground_def
      by (auto simp: emit_def split: option.splits if_splits intro: holds_snoc [OF holds_refl]
          dest!: wait_foreground_keeps elim: keeps_fds_step)
    with after r show ?thesis by blast
  qed
  have bg: "keeps_fds K h h'" if run: "continue_background K spec out err jc h = Some (st, jc', h')" for spec
  proof -
    obtain jc1 h1 where r: "reap_background K False jc h = Some (jc1, h1)" using run by (auto simp: continue_background_def bind_eq_Some_conv)
    have "keeps_fds K h1 h'"
      using run r unfolding continue_background_def
      by (auto simp: syscall_def Let_def split: option.splits if_splits intro!: holds_emit holds_snoc)
    with after r show ?thesis by blast
  qed
  from assms fg bg after show ?thesis
    by (auto simp: execute_job_builtin_def Let_def split: if_splits intro: holds_emit)
qed


section \<open>Built-ins\<close>

lemma read_loop_keeps:
  assumes "read_loop K fd acc h = Some r"
  shows "keeps_fds K h (snd r)"
proof (rule read_loop.raw_induct [where P = "\<lambda>K fd acc h r. keeps_fds K h (snd r)", OF _ assms])
  fix f K fd acc h r
  assume IH: "\<And>K fd acc h r. f K fd acc h = Some r \<Longrightarrow> keeps_fds K h (snd r)"
    and body: "(let (r, h1) = syscall K (Read fd 4096) h
      in if 0 < ret r then f K fd (acc @ take (nat (ret r)) (bytes r)) h1
         else if ret r = 0 then Some (\<lparr>rr_data = acc, error_number = 0\<rparr>, h1)
         else if errno r = EINTR then f K fd acc h1
         else Some (\<lparr>rr_data = [], error_number = errno r\<rparr>, h1)) = Some r"
  define c where "c = Read fd 4096"
  have c: "fd_neutral c" by (simp add: c_def)
  have step: "keeps_fds K h (snd r)" if "f K fd x (h @ [c]) = Some r" for x
    by (rule keeps_fds_step [OF IH [OF that] c])
  show "keeps_fds K h (snd r)"
    using body c unfolding c_def [symmetric] syscall_def Let_def prod.case
    by (auto split: if_splits intro: step holds_snoc [OF holds_refl])
qed

lemma read_file_keeps:
  assumes "read_file K path h = Some (r, h')"
  shows "keeps_fds K h h'"
proof -
  let ?c = "Open (c_str path) [O_RDONLY, O_CLOEXEC] 0"
  let ?fd = "ret (K h ?c)"
  have o: "holds K h {#} (h @ [?c]) (opened ?fd)" using holds_open [of K h "{#}"] by simp
  show ?thesis
  proof (cases "?fd < 0")
    case True
    with assms o show ?thesis by (auto simp: read_file_def syscall_def opened_def)
  next
    case False
    with assms obtain h2 where l: "read_loop K ?fd [] (h @ [?c]) = Some (r, h2)" "h' = close_fd ?fd h2"
      by (auto simp: read_file_def syscall_def)
    have "holds K (h @ [?c]) (opened ?fd) h2 (opened ?fd)" using read_loop_keeps [OF l(1)] by (simp add: keeps_fds_any)
    moreover have "holds K h2 (opened ?fd) h' {#}" using holds_close_fd [of K h2 ?fd "{#}"] l(2) by simp
    ultimately show ?thesis using o by (blast intro: holds_trans)
  qed
qed

lemma read_symlink_sizes_keeps: "keeps_fds K h (snd (read_symlink_sizes K path sizes h))"
proof (induction sizes arbitrary: h)
  case (Cons sz sizes)
  from Cons [of "h @ [Readlink (c_str path) sz]"] show ?case
    by (auto simp: syscall_def Let_def intro: keeps_fds_step holds_snoc [OF holds_refl])
qed simp

lemma parse_stat_keeps: "parse_stat K s h = (r, h') \<Longrightarrow> keeps_fds K h h'"
  by (auto simp: parse_stat_def syscall_def Let_def split: option.splits if_splits list.splits intro: holds_snoc [OF holds_refl])

lemma inspect_rest_keeps:
  assumes "inspect_rest K pid info h = Some (i, h')"
  shows "keeps_fds K h h'"
proof -
  obtain st h1 cm h2 where r: "read_file K (proc_file pid ''/status'') h = Some (st, h1)"
    "read_file K (proc_file pid ''/cmdline'') h1 = Some (cm, h2)"
    "h' = snd (read_symlink K (proc_file pid ''/exe'') h2) @ [List_dir (c_str (proc_file pid ''/fd'')), Getpid]"
    using assms by (auto simp: inspect_rest_def bind_eq_Some_conv count_open_fds_def syscall_def Let_def split_beta)
  have "keeps_fds K h2 (snd (read_symlink K (proc_file pid ''/exe'') h2))"
    unfolding read_symlink_def by (rule read_symlink_sizes_keeps)
  with r(1,2) have "keeps_fds K h (snd (read_symlink K (proc_file pid ''/exe'') h2))"
    by (blast dest: read_file_keeps intro: holds_trans)
  then show ?thesis unfolding r(3) by (rule holds_trans) (rule keeps_fds_neutral, simp)
qed

lemma inspect_process_keeps: "inspect_process e K pid h = Some (r, h') \<Longrightarrow> keeps_fds K h h'"
  by (auto simp: inspect_process_def bind_eq_Some_conv split: if_splits prod.splits sum.splits
      dest!: read_file_keeps parse_stat_keeps inspect_rest_keeps intro: holds_trans)

lemma builtin_pinfo_keeps:
  assumes "builtin_pinfo E K command out err h = Some r"
  shows "keeps_fds K h (snd r)"
proof -
  have loop: "keeps_fds K h (snd r)" if "pinfo_loop E K o1 out err 0 (h @ [Getpid]) = Some r" for o1
    by (rule pinfo_loop_rule [where I = "keeps_fds K h", OF that])
      (auto simp: pinfo_closed_def intro: holds_snoc holds_trans inspect_process_keeps)
  show ?thesis
    using assms unfolding builtin_pinfo_def Let_def syscall_def prod.case
    by (auto split: pinfo_parse.splits option.splits intro!: holds_emit holds_snoc intro: loop)
qed

lemma builtin_calls_keep:
  "keeps_fds K h (snd (builtin_echo command out h))"
  "keeps_fds K h (snd (builtin_type e command out h))"
  "keeps_fds K h (snd (builtin_pwd K out err h))"
  "keeps_fds K h (snd (builtin_exit command ctx err h))"
  "keeps_fds K h (snd (cd_to e K req res err h))"
  "keeps_fds K h (snd (expand_home e req err h))"
  "keeps_fds K h (snd (snd (builtin_history R command out s h)))"
  by (auto simp: builtin_echo_def builtin_type_def builtin_pwd_def builtin_exit_def cd_to_def
      expand_home_def builtin_history_def Let_def syscall_def split: option.splits intro!: holds_emit holds_snoc)

lemma builtin_cd_keeps: "keeps_fds K h (snd (builtin_cd e K command err h))"
proof -
  have "keeps_fds K h (snd (cd_to e K req res err h1))" if "expand_home e r err h = (x, h1)" for req res r x h1
    using builtin_calls_keep(5) [of K h1 e req res err] builtin_calls_keep(6) [of K h e r err] that
    by (auto intro: holds_trans)
  then show ?thesis
    using builtin_calls_keep(6) [of K h e _ err]
    by (auto simp: builtin_cd_def Let_def split: option.splits prod.splits if_splits intro!: holds_emit)
      (metis snd_conv)+
qed

lemma render_current_limits_keeps: "keeps_fds K h (snd (render_current_limits K h))"
proof -
  have "keeps_fds K h (snd (format_limit_lines K ls h))" for ls h
  proof (induction ls arbitrary: h)
    case (Cons l ls)
    obtain n r u where "l = (n, r, u)" by (cases l)
    with Cons [of "h @ [Getrlimit r]"] show ?case
      by (auto simp: format_limit_line_def syscall_def Let_def split: prod.splits intro: keeps_fds_step)
  qed simp
  then show ?thesis
    by (simp add: render_current_limits_def syscall_def Let_def split_beta holds_snoc)
qed

lemma execute_builtin_keeps:
  assumes "execute_builtin w command out err ParentShell s h = Some (r, s', h')"
  shows "keeps_fds (sys w) h h'"
proof -
  let ?K = "sys w"
  have pure: "keeps_fds ?K h h'" if "(case x of (q, h1) \<Rightarrow> Some (Inr q, s, h1)) = Some (r, s', h')" "keeps_fds ?K h (snd x)" for x
    using that by (cases x) auto
  have hist: "keeps_fds ?K h h'" if "(case builtin_history R command out s h of (q, s1, h1) \<Rightarrow> Some (Inr q, s1, h1)) = Some (r, s', h')" for R
    using that builtin_calls_keep(7) [of ?K h R command out s] by (auto split: prod.splits)
  have pinfo: "keeps_fds ?K h h'" if "map_option (\<lambda>(q, h1). (Inr q, s, h1)) (builtin_pinfo E ?K command out err h) = Some (r, s', h')" for E
    using that builtin_pinfo_keeps by fastforce
  have limits: "keeps_fds ?K h h'" if "(case render_current_limits ?K h of (txt, h1) \<Rightarrow>
      Some (Inr ok_result, s, emit (WriteAll out txt) h1)) = Some (r, s', h')"
    using that render_current_limits_keeps [of ?K h] by (auto split: prod.splits intro: holds_emit)
  have child: "keeps_fds ?K h h'" if "child_only ParentShell m err f s h = Some (r, s', h')" for m f
    using that by (auto simp: child_only_def intro: holds_emit)
  show ?thesis
    using assms unfolding execute_builtin_def Let_def
    by (simp only: split: if_split_asm)
      (erule pure hist pinfo limits child, (rule builtin_calls_keep builtin_cd_keeps | assumption)?
        | force)+
qed


section \<open>The executor\<close>

definition pipe_fds :: "PipePair list \<Rightarrow> int multiset" where
  "pipe_fds pipes = sum_list (map (\<lambda>(r, w). opened r + opened w) pipes)"

lemma pipe_fds_simps [simp]:
  "pipe_fds [] = {#}" "pipe_fds ((r, w) # pipes) = opened r + opened w + pipe_fds pipes"
  "pipe_fds (ps @ qs) = pipe_fds ps + pipe_fds qs"
  by (simp_all add: pipe_fds_def)

lemma close_two: "holds K h (opened a + (opened b + A)) (close_fd b (close_fd a h)) A"
  by (rule holds_trans [OF holds_close_fd holds_close_fd])

lemma close_all_pipes_holds: "holds K h (pipe_fds pipes + A) (close_all_pipes pipes h) A"
proof (induction pipes h arbitrary: A rule: close_all_pipes.induct)
  case (2 r w pipes h)
  show ?case using holds_trans [OF close_two [of K h r w "pipe_fds pipes + A"] 2] by (simp add: ac_simps)
qed simp

lemma destroy_pipes_holds: "holds K h (pipe_fds pipes + A) (destroy_pipes pipes h) A"
proof (induction pipes h arbitrary: A rule: destroy_pipes.induct)
  case (2 r w pipes h)
  show ?case using holds_trans [OF close_two [of K h w r "pipe_fds pipes + A"] 2] by (simp add: ac_simps)
qed simp

lemma make_pipes_holds:
  "make_pipes K n ps h = (ok, ps', h') \<Longrightarrow> holds K h (pipe_fds ps) h' (pipe_fds ps')"
proof (induction K n ps h rule: make_pipes.induct)
  case (2 K n ps h)
  let ?r = "K h MkPipe"
  show ?case
  proof (cases "ret ?r = -1")
    case True
    with 2(2) holds_pipe [of K h "pipe_fds ps"] show ?thesis by (auto simp: syscall_def intro: holds_emit)
  next
    case False
    with 2(2) have m: "make_pipes K n (ps @ [(ret ?r, ret2 ?r)]) (h @ [MkPipe]) = (ok, ps', h')" by (simp add: syscall_def)
    have "holds K h (pipe_fds ps) (h @ [MkPipe]) (pipe_fds (ps @ [(ret ?r, ret2 ?r)]))"
      using holds_pipe [of K h "pipe_fds ps"] False by (simp add: ac_simps)
    from holds_trans [OF this] 2(1) [OF _ refl False] m show ?thesis by (simp add: syscall_def)
  qed
qed simp

lemma redirect_holds:
  "(if b then open_input_redirect K path h else (-1, h)) = (fd, h') \<Longrightarrow> holds K h A h' (opened fd + A)"
  "(if b then open_output_redirect K path appending h else (-1, h)) = (fd, h') \<Longrightarrow> holds K h A h' (opened fd + A)"
  using holds_open [of K h A]
  by (auto simp: open_input_redirect_def open_output_redirect_def syscall_def split: if_splits)

lemma open_redirects_holds:
  assumes "open_redirects K command h = (red, h')"
  shows "holds K h {#} h' (case red of None \<Rightarrow> {#} | Some (i, out, er) \<Rightarrow> opened er + (opened out + (opened i + {#})))"
proof -
  obtain i h1 where i: "(if has_input_redirect command then open_input_redirect K (input_file command) h else (-1, h)) = (i, h1)"
    by fastforce
  obtain out h2 where out: "(if has_output_redirect command
      then open_output_redirect K (output_file command) (append_output command) h1 else (-1, h1)) = (out, h2)" by fastforce
  obtain er h3 where er: "(if has_error_redirect command
      then open_output_redirect K (error_file command) (append_error command) h2 else (-1, h2)) = (er, h3)" by fastforce
  note s1 = redirect_holds(1) [OF i, of "{#}"]
  note s2 = holds_trans [OF s1 redirect_holds(2) [OF out]]
  note s3 = holds_trans [OF s2 redirect_holds(2) [OF er]]
  have neg: "opened fd = {#}" if "fd < 0" for fd using that by (simp add: opened_def)
  have fail: "holds K h A (emit (WriteAll fd t) g) B" if "holds K h A g B" for A g B fd t
    using that by (simp add: holds_emit)
  consider "has_input_redirect command" "i < 0" | "\<not> (has_input_redirect command \<and> i < 0)" "has_output_redirect command" "out < 0"
    | "\<not> (has_input_redirect command \<and> i < 0)" "\<not> (has_output_redirect command \<and> out < 0)" "has_error_redirect command" "er < 0"
    | "\<not> (has_input_redirect command \<and> i < 0)" "\<not> (has_output_redirect command \<and> out < 0)" "\<not> (has_error_redirect command \<and> er < 0)"
    by blast
  then show ?thesis
  proof cases
    case 1
    with assms i s1 fail [OF s1] show ?thesis by (auto simp: open_redirects_def neg)
  next
    case 2
    with assms i out have "red = None" "\<exists>t. h' = close_fd i (emit (WriteAll STDERR_FILENO t) h2)"
      by (auto simp: open_redirects_def)
    with holds_trans [OF fail [OF s2, unfolded neg [OF 2(3)] add_0] holds_close_fd] show ?thesis by auto
  next
    case 3
    with assms i out er have "red = None" "\<exists>t. h' = close_fd i (close_fd out (emit (WriteAll STDERR_FILENO t) h3))"
      by (auto simp: open_redirects_def)
    with holds_trans [OF fail [OF s3, unfolded neg [OF 3(4)] add_0] close_two] show ?thesis by auto
  next
    case 4
    with assms i out er have "red = Some (i, out, er)" "h' = h3" by (auto simp: open_redirects_def)
    with s3 show ?thesis by simp
  qed
qed

lemma execute_parent_builtin_keeps:
  assumes "execute_parent_builtin w command x = Some (e, x')"
  shows "keeps_fds (sys w) (calls x) (calls x') \<and> (\<exists>r. e = Inr r)"
proof -
  obtain red h1 where o: "open_redirects (sys w) command (calls x) = (red, h1)" by fastforce
  note s1 = open_redirects_holds [OF o]
  show ?thesis
  proof (cases red)
    case None
    with assms o s1 show ?thesis by (auto simp: execute_parent_builtin_def)
  next
    case (Some fds)
    obtain i out er where fds: "fds = (i, out, er)" by (cases fds)
    have closing: "keeps_fds (sys w) (calls x) (close_fd i (close_fd out (close_fd er h2)))" if "keeps_fds (sys w) h1 h2" for h2
    proof -
      have "holds (sys w) (calls x) {#} h2 (opened er + (opened out + (opened i + {#})))"
        using holds_trans [OF s1 keeps_fds_any [OF that]] Some fds by simp
      from holds_trans [OF this holds_trans [OF holds_close_fd close_two]] show ?thesis .
    qed
    show ?thesis
    proof (cases "is_job_builtin (hd (args command))")
      case True
      with assms o Some fds show ?thesis
        by (auto simp: execute_parent_builtin_def Let_def intro!: closing dest: execute_job_builtin_keeps)
    next
      case False
      with assms o Some fds obtain o' er' r s2 h2 where b: "execute_builtin w command o' er' ParentShell (hist x) h1 = Some (r, s2, h2)"
        and rest: "(case r of Inl c \<Rightarrow> (Inl c, x\<lparr>hist := s2, calls := h2\<rparr>)
          | Inr b \<Rightarrow> (Inr (exec_result (b_exit_requested b) (b_exit_code b) (b_status b)),
              x\<lparr>hist := s2, calls := close_fd i (close_fd out (close_fd er h2))\<rparr>)) = (e, x')"
        by (auto simp: execute_parent_builtin_def Let_def)
      from execute_builtin_parent [OF b] rest closing [OF execute_builtin_keeps [OF b]] show ?thesis by auto
    qed
  qed
qed

lemma launch_loop_holds:
  assumes "forks_as_parent (sys w)"
  shows "\<exists>l h'. launch_loop w cs i n pipes pgid pids x h = Some (Inr l, h') \<and>
    holds (sys w) h (pipe_fds pipes) h' (if l = Fork_failed then {#} else pipe_fds pipes)"
proof (induction cs arbitrary: i pgid pids h)
  case (Cons c cs)
  let ?P = "pipe_fds pipes"
  show ?case
  proof (cases "args c = []")
    case True
    with Cons show ?thesis by simp
  next
    case False
    define f where "f = Fork i"
    define pid where "pid = ret (sys w h f)"
    have n0: "pid \<noteq> 0" using forks_as_parent_not_0 [OF assms] by (simp add: pid_def f_def)
    have qf: "holds (sys w) h ?P (h @ [f]) ?P" by (rule holds_snoc) (simp_all add: f_def)
    show ?thesis
    proof (cases "pid = -1")
      case True
      define h2 where "h2 = close_all_pipes pipes (emit (WriteAll STDERR_FILENO (''Failed to fork process'' @ [newline])) (h @ [f]))"
      have "holds (sys w) h ?P h2 {#}" unfolding h2_def
        using holds_trans [OF holds_emit [OF qf] close_all_pipes_holds [where A = "{#}", unfolded add_0_right]] by simp
      with False True show ?thesis
        by (auto simp: syscall_def pid_def f_def h2_def Let_def intro: holds_emit)
    next
      case pos: False
      obtain mid g where m: "launch_loop w (c # cs) i n pipes pgid pids x h = launch_loop w cs (i + 1) n pipes g (pids @ [pid]) x (h @ mid)"
        "mid = [Fork i, Setpgid pid g] \<or> (\<exists>t. mid = [Fork i, Setpgid pid g, WriteAll STDERR_FILENO t])"
        by (rule launch_loop_next [of c pid w h i, OF False _ pos n0]) (simp_all add: pid_def f_def)
      then have "holds (sys w) h ?P (h @ mid) ?P" by (intro keeps_fds_neutral) auto
      moreover obtain l h' where "launch_loop w cs (i + 1) n pipes g (pids @ [pid]) x (h @ mid) = Some (Inr l, h')"
        "holds (sys w) (h @ mid) ?P h' (if l = Fork_failed then {#} else ?P)"
        using Cons.IH [of "i + 1" g "pids @ [pid]" "h @ mid"] by blast
      moreover note m(1)
      ultimately show ?thesis by (metis holds_trans)
    qed
  qed
qed simp

lemma finish_launch_keeps: "finish_launch K pl g pids jc h = Some (r, jc', h') \<Longrightarrow> keeps_fds K h h'"
  by (auto simp: finish_launch_def split: if_splits prod.splits intro: holds_emit wait_foreground_keeps)

lemma execute_pipeline_keeps:
  assumes "forks_as_parent (sys w)" "execute_pipeline w pl x = Some (e, x')"
  shows "keeps_fds (sys w) (calls x) (calls x') \<and> (\<exists>r. e = Inr r)"
proof (cases "commands pl = [] \<or> runs_in_parent pl")
  case True
  with assms(2) show ?thesis by (auto simp: execute_pipeline_def split: if_splits dest: execute_parent_builtin_keeps)
next
  case False
  obtain ok ps h1 where m: "make_pipes (sys w) (length (commands pl) - 1) [] (calls x) = (ok, ps, h1)"
    by (metis prod_cases3)
  have s1: "holds (sys w) (calls x) {#} h1 (pipe_fds ps)" using make_pipes_holds [OF m] by simp
  show ?thesis
  proof (cases ok)
    case no: False
    with False m assms(2) have "e = Inr (exec_result False 0 1)" "calls x' = destroy_pipes ps h1" by (auto simp: execute_pipeline_def)
    with holds_trans [OF s1 destroy_pipes_holds [where A = "{#}", unfolded add_0_right]] show ?thesis by simp
  next
    case True
    obtain l h2 where l: "launch_loop w (commands pl) 0 (length (commands pl)) ps 0 [] x h1 = Some (Inr l, h2)"
      "holds (sys w) h1 (pipe_fds ps) h2 (if l = Fork_failed then {#} else pipe_fds ps)" using launch_loop_holds [OF assms(1)] by blast
    note s2 = holds_trans [OF s1 l(2)]
    show ?thesis
    proof (cases l)
      case Fork_failed
      with False m True l(1) assms(2) s2 show ?thesis by (auto simp: execute_pipeline_def)
    next
      case (Launched g pids)
      with False m True l(1) assms(2) obtain r jc h3 where f: "finish_launch (sys w) pl g pids (jobs x) (close_all_pipes ps h2) = Some (r, jc, h3)"
        "e = Inr r" "calls x' = h3"
        by (auto simp: execute_pipeline_def)
      have "holds (sys w) (calls x) {#} (close_all_pipes ps h2) {#}"
        using holds_trans [OF s2 [unfolded Launched, simplified] close_all_pipes_holds [where A = "{#}", unfolded add_0_right]] .
      from holds_trans [OF this finish_launch_keeps [OF f(1)]] f show ?thesis by simp
    qed
  qed
qed

interpretation descriptors: plan_runner "execute_pipeline w"
    "\<lambda>x. forks_as_parent (sys w) \<and> keeps_fds (sys w) h0 (calls x)" for w h0
  by unfold_locales (metis execute_pipeline_keeps holds_trans)


section \<open>Sessions\<close>

lemma await_foreground_keeps:
  assumes "await_foreground K fd g h = Some r"
  shows "keeps_fds K h (snd r)"
proof (rule await_foreground.raw_induct [where P = "\<lambda>K fd g h r. keeps_fds K h (snd r)", OF _ assms])
  fix f K fd g h r
  assume IH: "\<And>K fd g h r. f K fd g h = Some r \<Longrightarrow> keeps_fds K h (snd r)"
    and body: "(let (r, h1) = syscall K (Tcgetpgrp fd) h
      in if ret r \<noteq> g then
           (let h2 = emit (Kill (- g) SIGTTIN) h1; (p, h3) = syscall K Getpgrp h2 in f K fd (ret p) h3)
         else Some (g, h1)) = Some r"
  define c where "c = [Tcgetpgrp fd, Kill (- g) SIGTTIN, Getpgrp]"
  have c: "keeps_fds K h (h @ c)" by (rule keeps_fds_neutral) (simp add: c_def)
  have step: "keeps_fds K h (snd r)" if "f K fd x (h @ c) = Some r" for x
    by (rule holds_trans [OF c IH [OF that]])
  show "keeps_fds K h (snd r)"
    using body step by (auto simp: syscall_def emit_def Let_def c_def split: if_splits intro!: holds_snoc)
qed

lemma job_control_init_keeps:
  assumes "job_control_init K h = Some (jc, h')"
  shows "keeps_fds K h h'"
proof -
  let ?h = "h @ [Isatty STDIN_FILENO, Sigaction SIGCHLD On_sigchld]"
  have h: "keeps_fds K h (?h @ cs)" if "list_all fd_neutral cs" for cs
    using keeps_fds_neutral [of "[Isatty STDIN_FILENO, Sigaction SIGCHLD On_sigchld] @ cs" K h] that by simp
  have claim: "keeps_fds K h4 (snd (claim_terminal K h4))" for h4
    by (auto simp: claim_terminal_calls syscall_def emit_def Let_def ignored_signals_def intro!: holds_snoc keeps_fds_neutral)
  show ?thesis
  proof (cases "ret (K h (Isatty STDIN_FILENO)) = 0")
    case True
    with assms h [of "[]"] show ?thesis by (auto simp: job_control_init_def syscall_def emit_def)
  next
    case False
    with assms obtain g h4 where a: "await_foreground K STDIN_FILENO (ret (K ?h Getpgrp)) (?h @ [Getpgrp]) = Some (g, h4)"
      "claim_terminal K h4 = (jc, h')"
      by (auto simp: job_control_init_def syscall_def emit_def Let_def)
    from holds_trans [OF holds_trans [OF h [of "[Getpgrp]"] await_foreground_keeps [OF a(1)]]] claim [of h4] a(2) show ?thesis by simp
  qed
qed

lemma main_init_keeps:
  assumes "main_init w ed hs = Some s"
  shows "keeps_fds (sys w) [] (calls (sh s))"
  using assms
  by (auto simp: main_init_def initialize_readline_def map_hist_def map_rl_def map_calls_def emit_def Let_def
      intro!: holds_snoc dest: job_control_init_keeps)

lemma prompt_call_neutral: "prompt_call c \<Longrightarrow> fd_neutral c"
  by (cases c) (simp_all add: prompt_call_def fd_neutral_def)

interpretation leaks: session_parts w ed session
    "\<lambda>ts x. forks_as_parent (sys w) \<and> completion_law ed \<and> keeps_fds (sys w) [] (calls x)" for w ed session
proof unfold_locales
  fix ts x ep e x'
  assume "forks_as_parent (sys w) \<and> completion_law ed \<and> keeps_fds (sys w) [] (calls x)" "execute w ep x = Some (e, x')"
  then show "(forks_as_parent (sys w) \<and> completion_law ed \<and> keeps_fds (sys w) [] (calls x')) \<and> (\<exists>r. e = Inr r)"
    using descriptors.execute_steps_inv [of w "[]" x "steps ep" False "exec_result False 0 0" e x'] by (auto simp: execute_def)
next
  fix ts x cs
  assume "forks_as_parent (sys w) \<and> completion_law ed \<and> keeps_fds (sys w) [] (calls x)" "list_all prompt_call cs"
  then show "forks_as_parent (sys w) \<and> completion_law ed \<and> keeps_fds (sys w) [] (calls (x\<lparr>calls := calls x @ cs\<rparr>))"
    by (auto intro!: holds_trans [OF _ keeps_fds_neutral] prompt_call_neutral simp: list_all_iff)
qed (auto dest: reap_background_keeps intro: holds_trans)

text \<open>
  C6. The shell leaks no descriptor and closes none that it does not hold. At every prompt of every
  session, whatever was executed (pipelines, failing \<open>pipe\<close> and \<open>fork\<close> calls, redirections that cannot be
  opened, built-ins), the descriptors that the shell process had opened have each been closed exactly
  once, and nothing else has been closed or overwritten.
\<close>

theorem no_descriptor_leak:
  assumes "forks_as_parent (sys w)" "completion_law ed" "at_prompt w ed session hs n s"
  shows "held (sys w) [] (calls (sh s)) {#} = Some {#}"
proof -
  have "keeps_fds (sys w) [] (calls (sh s))"
    using leaks.at_prompt_keeps [where session = session and n = n, OF assms(3)] assms(1,2) main_init_keeps [of w ed hs] by auto
  then show ?thesis by (auto simp: holds_def)
qed

text \<open>
  A session with a redirection and a pipeline, in which descriptors are opened and closed.
\<close>

definition piping_session :: "nat \<Rightarrow> string list prompt" where
  "piping_session n =
     (if n = 0 then \<lparr>arrivals = [], events = [], edited = (\<lambda>r. r), line_read = Some ''echo hi > out''\<rparr>
      else \<lparr>arrivals = [], events = [], edited = (\<lambda>r. r), line_read = Some ''cat | cat''\<rparr>)"

theorem no_descriptor_leak_witness:
  "\<exists>s. at_prompt job_world list_editor piping_session demo_history 2 s \<and> MkPipe \<in> set (calls (sh s)) \<and>
     held (sys job_world) [] (calls (sh s)) {#} = Some {#}"
proof -
  have "case prompt_state job_world list_editor piping_session demo_history 2 of
      Some s \<Rightarrow> list_ex (\<lambda>c. c = MkPipe) (calls (sh s)) | None \<Rightarrow> False" by code_simp
  then obtain s where s: "prompt_state job_world list_editor piping_session demo_history 2 = Some s" "MkPipe \<in> set (calls (sh s))"
    by (auto split: option.splits simp: list_ex_iff)
  from no_descriptor_leak [OF demo_shell_ok(1) list_editor_law prompt_state_at [OF s(1)]] s(2) prompt_state_at [OF s(1)]
  show ?thesis by blast
qed

end
