(* ===== verification/Display.thy ===== *)
theory Display
  imports Executor
begin

text \<open>
  What \<open>jobs\<close> shows of a pipeline (\<open>format_pipeline\<close> of \<open>src/executor.cpp\<close>) is a command line: unless
  an unquoted word holds a quote character or a backslash, the lexer and the parser read it back as
  the commands of the pipeline (without its \<open>&\<close>).
\<close>

section \<open>Words\<close>

definition needs_quotes :: "string \<Rightarrow> bool" where
  "needs_quotes w \<longleftrightarrow> list_ex (\<lambda>c. isspace c \<or> c = CHR ''|'' \<or> c = CHR ''&'' \<or> c = CHR '';'' \<or> c = CHR ''<'' \<or> c = CHR ''>'') w"

text \<open>
  Words that the display shows faithfully: those that get quotes, and those without quote
  characters and backslashes.
\<close>

definition display_word :: "string \<Rightarrow> bool" where
  "display_word w \<longleftrightarrow> needs_quotes w \<or> list_all (\<lambda>c. c \<noteq> squote \<and> c \<noteq> dquote \<and> c \<noteq> bslash) w"

lemma quote_for_display_cases:
  "quote_for_display w = (if w = [] \<or> needs_quotes w then single_quote w else w)"
  by (auto simp: quote_for_display_def needs_quotes_def single_quote_def requote_def)

lemma quote_nonempty [simp]: "quote_for_display w \<noteq> []"
  by (simp add: quote_for_display_cases single_quote_def)

lemma lexes_as_display: "display_word w \<Longrightarrow> lexes_as (quote_for_display w) [(Word, w)]"
proof (cases "w = [] \<or> needs_quotes w")
  case False
  assume "display_word w"
  with False have "list_all plain_char w"
    by (auto simp: display_word_def needs_quotes_def plain_char_def list_all_iff list_ex_iff)
  with False show ?thesis by (simp add: quote_for_display_cases lexes_as_plain)
qed (auto simp: quote_for_display_cases lexes_as_single_quote)

lemma lexes_as_args:
  assumes "list_all display_word ws" "lexes_as tx ks" "tx \<noteq> []"
  shows "lexes_as (format_args tx ws) (ks @ map (Pair Word) ws) \<and> format_args tx ws \<noteq> []"
  using assms
proof (induction ws arbitrary: tx ks)
  case (Cons a ws)
  have "lexes_as (tx @ blank # quote_for_display a) (ks @ [(Word, a)])"
    using Cons.prems by (intro lexes_as_blank lexes_as_display) auto
  with Cons.IH [of "tx @ blank # quote_for_display a" "ks @ [(Word, a)]"] Cons.prems show ?case by simp
qed simp

lemma lexes_as_first_args:
  assumes "list_all display_word ws" "ws \<noteq> []"
  shows "lexes_as (format_args [] ws) (map (Pair Word) ws)"
  using assms lexes_as_args [of "tl ws" "quote_for_display (hd ws)" "[(Word, hd ws)]"]
  by (cases ws) (auto simp: lexes_as_display)


section \<open>Redirections\<close>

lemma operator_texts:
  "lexes_as ''<'' [(RedirectIn, ''<'')]" "lexes_as ''>'' [(RedirectOut, ''>'')]"
  "lexes_as ''>>'' [(RedirectAppend, ''>>'')]" "lexes_as ''2>'' [(RedirectErr, ''2>'')]"
  "lexes_as ''2>>'' [(RedirectErrAppend, ''2>>'')]" "lexes_as ''|'' [(Pipe, ''|'')]"
  by (rule lexes_as_operator; code_simp)+

text \<open>The tokens of one redirection: operator and file.\<close>

definition redirect_kinds :: "Command \<Rightarrow> (TokenType \<times> string) list" where
  "redirect_kinds c =
     (if has_input_redirect c then [(RedirectIn, ''<''), (Word, input_file c)] else []) @
     (if has_output_redirect c
      then [if append_output c then (RedirectAppend, ''>>'') else (RedirectOut, ''>''), (Word, output_file c)] else []) @
     (if has_error_redirect c
      then [if append_error c then (RedirectErrAppend, ''2>>'') else (RedirectErr, ''2>''), (Word, error_file c)] else [])"

lemma lexes_as_redirect:
  assumes "lexes_as tx ks" "lexes_as opr [k]" "display_word f"
  shows "lexes_as (tx @ blank # opr @ blank # quote_for_display f) (ks @ [k, (Word, f)])"
  using lexes_as_blank [OF assms(1) lexes_as_blank [OF assms(2) lexes_as_display [OF assms(3)]], of blank blank]
  by simp

definition display_command :: "Command \<Rightarrow> bool" where
  "display_command c \<longleftrightarrow> command_wf c \<and> list_all display_word (args c) \<and>
     display_word (input_file c) \<and> display_word (output_file c) \<and> display_word (error_file c)"

lemma lexes_as_command:
  assumes "display_command c"
  shows "lexes_as (format_command c) (map (Pair Word) (args c) @ redirect_kinds c)"
proof -
  let ?in = "format_args [] (args c) @ (if has_input_redirect c then '' < '' @ quote_for_display (input_file c) else [])"
  let ?out = "?in @ (if has_output_redirect c
      then (if append_output c then '' >> '' else '' > '') @ quote_for_display (output_file c) else [])"
  have d: "display_word (input_file c)" "display_word (output_file c)" "display_word (error_file c)"
    using assms by (simp_all add: display_command_def)
  have "lexes_as (format_args [] (args c)) (map (Pair Word) (args c))"
    using assms by (intro lexes_as_first_args) (auto simp: display_command_def command_wf_def)
  then have "lexes_as ?in (map (Pair Word) (args c) @
      (if has_input_redirect c then [(RedirectIn, ''<''), (Word, input_file c)] else []))"
    using lexes_as_redirect [OF _ operator_texts(1) d(1)] by auto
  then have "lexes_as ?out ((map (Pair Word) (args c) @
      (if has_input_redirect c then [(RedirectIn, ''<''), (Word, input_file c)] else [])) @
      (if has_output_redirect c
       then [if append_output c then (RedirectAppend, ''>>'') else (RedirectOut, ''>''), (Word, output_file c)] else []))"
    using lexes_as_redirect [OF _ operator_texts(2) d(2)] lexes_as_redirect [OF _ operator_texts(3) d(2)]
    by (simp del: append_assoc)
  then have "lexes_as (?out @ (if has_error_redirect c
        then (if append_error c then '' 2>> '' else '' 2> '') @ quote_for_display (error_file c) else []))
      (((map (Pair Word) (args c) @
      (if has_input_redirect c then [(RedirectIn, ''<''), (Word, input_file c)] else [])) @
      (if has_output_redirect c
       then [if append_output c then (RedirectAppend, ''>>'') else (RedirectOut, ''>''), (Word, output_file c)] else [])) @
      (if has_error_redirect c
       then [if append_error c then (RedirectErrAppend, ''2>>'') else (RedirectErr, ''2>''), (Word, error_file c)] else []))"
    using lexes_as_redirect [OF _ operator_texts(4) d(3)] lexes_as_redirect [OF _ operator_texts(5) d(3)]
    by (simp del: append_assoc)
  then show ?thesis by (simp add: format_command_def redirect_kinds_def)
qed

fun pipeline_kinds :: "Command list \<Rightarrow> (TokenType \<times> string) list" where
  "pipeline_kinds [] = []"
| "pipeline_kinds [c] = map (Pair Word) (args c) @ redirect_kinds c"
| "pipeline_kinds (c # cs) = (map (Pair Word) (args c) @ redirect_kinds c) @ (Pipe, ''|'') # pipeline_kinds cs"

lemma lexes_as_pipeline:
  assumes "list_all display_command cs" "cs \<noteq> []"
  shows "lexes_as (format_commands cs) (pipeline_kinds cs)"
  using assms
proof (induction cs rule: format_commands.induct)
  case (3 c d cs)
  then have "lexes_as (format_command c @ blank # ''|'' @ blank # format_commands (d # cs))
      ((map (Pair Word) (args c) @ redirect_kinds c) @ [(Pipe, ''|'')] @ pipeline_kinds (d # cs))"
    by (intro lexes_as_blank lexes_as_command operator_texts) auto
  then show ?case by simp
qed (auto simp: lexes_as_command)


section \<open>Parsing the display\<close>

lemma map_kind_split:
  assumes "map kind us = ks @ ls"
  obtains us1 us2 where "us = us1 @ us2" "map kind us1 = ks" "map kind us2 = ls"
  using assms by (metis map_eq_append_conv)

lemma g_command_words:
  assumes "map kind us = map (Pair Word) ws" "g_command (c\<lparr>args := args c @ ws\<rparr>) True vs c'" "saw \<or> ws \<noteq> []"
  shows "g_command c saw (us @ vs) c'"
  using assms
proof (induction us arbitrary: c ws saw)
  case Nil
  then show ?case by simp
next
  case (Cons t us)
  from Cons.prems(1) obtain a ws' where a: "ws = a # ws'" "kind t = (Word, a)" "map kind us = map (Pair Word) ws'"
    by (cases ws) auto
  have "g_command (add_arg a c) True (us @ vs) c'"
    using Cons.IH [OF a(3), of "add_arg a c" True] Cons.prems(2) a(1) by (simp add: add_arg_def)
  with a(2) show ?case by (auto simp: kind_def intro: g_word)
qed

lemma g_command_redirect:
  assumes "map kind us = [(ty, tx), (Word, f)]" "is_redirection ty" "g_command (apply_redirect ty f c) saw vs c'"
  shows "g_command c saw (us @ vs) c'"
  using assms by (auto simp: kind_def map_eq_Cons_conv intro: g_redirect)

lemma g_command_display:
  assumes "map kind us = map (Pair Word) (args c) @ redirect_kinds c" "command_wf c"
  shows "g_command empty_command False us c"
proof -
  obtain u1 u2 where u: "us = u1 @ u2" "map kind u1 = map (Pair Word) (args c)" "map kind u2 = redirect_kinds c"
    using assms(1) by (rule map_kind_split)
  obtain i o1 e where ioe: "u2 = i @ o1 @ e"
    "map kind i = (if has_input_redirect c then [(RedirectIn, ''<''), (Word, input_file c)] else [])"
    "map kind o1 = (if has_output_redirect c
      then [if append_output c then (RedirectAppend, ''>>'') else (RedirectOut, ''>''), (Word, output_file c)] else [])"
    "map kind e = (if has_error_redirect c
      then [if append_error c then (RedirectErrAppend, ''2>>'') else (RedirectErr, ''2>''), (Word, error_file c)] else [])"
    by (rule map_kind_split [OF u(3) [unfolded redirect_kinds_def]], erule map_kind_split) blast
  let ?c0 = "empty_command\<lparr>args := args c\<rparr>"
  let ?c1 = "if has_input_redirect c then apply_redirect RedirectIn (input_file c) ?c0 else ?c0"
  let ?c2 = "if has_output_redirect c then apply_redirect (if append_output c then RedirectAppend else RedirectOut) (output_file c) ?c1 else ?c1"
  let ?c3 = "if has_error_redirect c then apply_redirect (if append_error c then RedirectErrAppend else RedirectErr) (error_file c) ?c2 else ?c2"
  have c3: "?c3 = c" using assms(2)
    by (cases c) (auto simp: command_wf_def redirects_wf_def empty_command_def)
  have "g_command ?c2 True e c"
    using ioe(4) c3 g_done [of c] g_command_redirect [of e _ _ _ ?c2 True "[]" c] by (auto simp: is_redirection_def split: if_splits)
  then have "g_command ?c1 True (o1 @ e) c"
    using ioe(3) g_command_redirect [of o1 _ _ _ ?c1 True e c] by (auto simp: is_redirection_def split: if_splits)
  then have "g_command ?c0 True (i @ o1 @ e) c"
    using ioe(2) g_command_redirect [of i _ _ _ ?c0 True "o1 @ e" c] by (auto simp: is_redirection_def split: if_splits)
  then have "g_command (empty_command\<lparr>args := args empty_command @ args c\<rparr>) True u2 c"
    by (simp add: ioe(1) empty_command_def)
  moreover have "args c \<noteq> []" using assms(2) by (simp add: command_wf_def)
  ultimately show ?thesis using g_command_words [OF u(2)] u(1) by blast
qed

lemma g_pipeline_display:
  assumes "map kind us = pipeline_kinds cs" "cs \<noteq> []" "list_all command_wf cs"
  shows "g_pipeline us cs"
  using assms
proof (induction cs arbitrary: us rule: pipeline_kinds.induct)
  case (2 c)
  then show ?case by (auto intro: g_single g_command_display)
next
  case (3 c d cs)
  from 3(2) obtain u1 v where v: "us = u1 @ v" "map kind u1 = map (Pair Word) (args c) @ redirect_kinds c"
    "map kind v = (Pipe, ''|'') # pipeline_kinds (d # cs)"
    unfolding pipeline_kinds.simps by (rule map_kind_split)
  then obtain p w where "v = p # w" "tok_type p = Pipe" "map kind w = pipeline_kinds (d # cs)"
    by (auto simp: kind_def map_eq_Cons_conv)
  with 3 v show ?case by (auto intro!: g_pipe g_command_display)
qed simp


section \<open>Properties\<close>

text \<open>
  C9. The display of a pipeline parses back, under two conditions, to its commands. The commands
  must be well-formed (as the parser makes them), and every word that the display leaves unquoted, one without
  blanks and operator characters, must be free of quote characters and backslashes, which the
  display does not escape. Then lexing and parsing the displayed line gives one step with exactly these
  commands, arguments and redirections. The display does not show \<open>&\<close>: the step that is read back is
  a foreground one, whether or not the pipeline was started in the background.
\<close>

theorem display_parses_back:
  assumes "commands pl \<noteq> []" "list_all display_command (commands pl)"
  shows "parse_line (format_pipeline pl) = Some (mk_result [mk_step Always (commands pl) False] [])"
proof -
  have l: "lexes_as (format_pipeline pl) (pipeline_kinds (commands pl))"
    using lexes_as_pipeline [OF assms(2,1)] by (simp add: format_pipeline_def)
  note ok = lexes_as_lex [OF l]
  obtain us e where us: "lex_tokens (lex (format_pipeline pl)) = us @ [e]" "token_stream us e"
    using lex_token_stream [OF ok(1)] by blast
  have "map kind us = pipeline_kinds (commands pl)" using ok(2) us(1) by simp
  moreover have "list_all command_wf (commands pl)"
    using assms(2) by (simp add: list_all_iff display_command_def)
  ultimately have "g_pipeline us (commands pl)" using assms(1) by (intro g_pipeline_display)
  then have "g_plan us [mk_step Always (commands pl) False]" by (simp add: g_plan_def g_last)
  with parse_ok_grammar [OF us(2)] us(1) ok(1) show ?thesis by (simp add: parse_line_def)
qed

definition demo_pipeline :: Pipeline where
  "demo_pipeline = \<lparr>commands = [empty_command\<lparr>args := [''grep'', ''a b'']\<rparr>,
     empty_command\<lparr>args := [''wc''], has_output_redirect := True, output_file := ''n'', append_output := True\<rparr>], background = True\<rparr>"

theorem display_parses_back_witness:
  "format_pipeline demo_pipeline = ''grep '' @ [squote] @ ''a b'' @ [squote] @ '' | wc >> n'' \<and>
   parse_line (format_pipeline demo_pipeline) = Some (mk_result [mk_step Always (commands demo_pipeline) False] [])"
proof -
  have "format_pipeline demo_pipeline = ''grep '' @ [squote] @ ''a b'' @ [squote] @ '' | wc >> n''"
    "commands demo_pipeline \<noteq> []" "list_all display_command (commands demo_pipeline)"
    by code_simp+
  with display_parses_back [of demo_pipeline] show ?thesis by simp
qed

text \<open>
  A word that holds a quote character but needs no quotes is displayed as it is: the display of
  \<open>echo it's\<close> does not parse.
\<close>

lemma display_of_quote_not_parsed:
  "map_option parse_ok (parse_line (format_pipeline \<lparr>commands = [empty_command\<lparr>args := [''echo'', [CHR ''i'', CHR ''t'', squote, CHR ''s'']]\<rparr>], background = False\<rparr>)) =
   Some False"
  by code_simp

end
