(* ===== verification/Process_Times.thy ===== *)
theory Process_Times
  imports Process_Info Complex_Main
begin

text \<open>
  The CPU times that \<open>pinfo\<close> shows: the two roundings of the \<open>double\<close> quotient and the rounding of the
  decimal output do not add up to a visible error.
\<close>

section \<open>Rounding errors\<close>

definition double_value :: "double \<Rightarrow> real" where
  "double_value x = of_int (fst x) * 2 powi snd x"

lemma round_error:
  assumes "0 < b"
  shows "\<bar>of_int (round_half_even a b) - of_int a / of_int b\<bar> \<le> (1 / 2 :: real)"
proof -
  let ?q = "a div b" and ?r = "a mod b"
  have "a = b * ?q + ?r" by simp
  then have "(of_int a :: real) = of_int b * of_int ?q + of_int ?r" by (metis of_int_add of_int_mult)
  with assms have e: "of_int a / of_int b = (of_int ?q :: real) + of_int ?r / of_int b"
    by (simp add: field_simps)
  have r: "0 \<le> ?r" "?r < b" using assms by simp_all
  then have "0 \<le> (of_int ?r / of_int b :: real)" "of_int ?r / of_int b \<le> (1 :: real)"
    using assms by (simp_all add: less_imp_le)
  moreover have "of_int ?r / of_int b \<le> (1 / 2 :: real) \<longleftrightarrow> 2 * ?r \<le> b"
    using assms by (simp add: field_simps) (metis (mono_tags) mult.commute of_int_le_iff of_int_mult of_int_numeral)
  ultimately show ?thesis
    unfolding e round_half_even_def Let_def by (auto simp: abs_if)
qed

lemma round_exact:
  assumes "0 < b" "\<bar>of_int a / of_int b - of_int k\<bar> < (1 / 2 :: real)"
  shows "round_half_even a b = k"
proof -
  have "\<bar>of_int (round_half_even a b) - of_int k\<bar> < (1 :: real)"
    using round_error [OF assms(1), of a] assms(2) by linarith
  then have "\<bar>round_half_even a b - k\<bar> < 1"
    by (metis of_int_1_less_iff of_int_abs of_int_diff of_int_less_1_iff)
  then show ?thesis by simp
qed

lemma scaled_ratio:
  assumes "0 < d" "scaled n d e = (a, b)"
  shows "0 < b" "(of_int a / of_int b :: real) = of_int n / of_int d / 2 powi e"
  using assms by (auto simp: scaled_def power_int_def field_simps split: if_splits)

lemma bit_length_bounds:
  "0 < n \<Longrightarrow> 0 < bit_length n \<and> (2 :: real) powi (bit_length n - 1) \<le> of_int n \<and> of_int n < (2 :: real) powi bit_length n"
proof (induction n rule: bit_length.induct)
  case (1 n)
  show ?case
  proof (cases "n = 1")
    case True
    have "bit_length 1 = 1" by (simp add: bit_length.simps)
    with True show ?thesis by simp
  next
    case False
    with "1.prems" have h: "0 < n div 2" by auto
    let ?b = "bit_length (n div 2)"
    have b: "bit_length n = 1 + ?b" using "1.prems" by (simp add: bit_length.simps [of n])
    from "1.IH" [OF _ h] "1.prems" have IH: "0 < ?b" "(2 :: real) powi (?b - 1) \<le> of_int (n div 2)"
      "of_int (n div 2) < (2 :: real) powi ?b" by auto
    have "(2 :: real) powi ?b = 2 * 2 powi (?b - 1)" using power_int_minus_mult [of "2 :: real" ?b] by simp
    then have "(2 :: real) powi ?b \<le> 2 * of_int (n div 2)" using IH(2) by simp
    also have "\<dots> \<le> of_int n" by (metis add.commute le_add_same_cancel1 mult_div_mod_eq of_int_le_iff of_int_mult of_int_numeral pos_mod_sign zero_less_numeral)
    finally have lo: "(2 :: real) powi ?b \<le> of_int n" .
    have p: "(2 :: real) powi ?b = of_int (2 ^ nat ?b)" using IH(1) by (simp add: power_int_def)
    then have "n div 2 < 2 ^ nat ?b" using IH(3) by (metis of_int_less_iff)
    then have "n < 2 * 2 ^ nat ?b" by simp
    then have "of_int n < (2 * 2 powi ?b :: real)" unfolding p by (metis of_int_less_iff of_int_mult of_int_numeral)
    then have hi: "of_int n < (2 :: real) powi (1 + ?b)" by (simp add: power_int_add)
    show ?thesis using b IH(1) lo hi by simp
  qed
qed

text \<open>The relative error of one rounding is at most \<open>2 ^ -53\<close>.\<close>

lemma nearest_double_error:
  assumes "0 < n" "0 < d"
  shows "\<bar>double_value (nearest_double n d) - of_int n / of_int d\<bar> \<le> (of_int n / of_int d) / 2 ^ 53"
proof -
  let ?v = "of_int n / of_int d :: real"
  define e0 where "e0 = bit_length n - bit_length d - 53"
  obtain a b where ab: "scaled n d e0 = (a, b)" by fastforce
  define e where "e = (if 2 ^ 53 * b \<le> a then e0 + 1 else e0)"
  obtain a' b' where ab': "scaled n d e = (a', b')" by fastforce
  have nd: "nearest_double n d = (round_half_even a' b', e)"
    using assms(1) ab' unfolding nearest_double_def Let_def e0_def [symmetric] ab prod.case e_def [symmetric] by simp
  have p: "(0 :: real) < 2 powi k" for k by simp
  have lo: "2 ^ 52 * 2 powi e \<le> ?v"
  proof (cases "2 ^ 53 * b \<le> a")
    case True
    then have "(2 ^ 53 :: real) \<le> of_int a / of_int b"
      using scaled_ratio(1) [OF assms(2) ab] by (simp add: pos_le_divide_eq)
    then have "2 ^ 53 * 2 powi e0 \<le> ?v"
      unfolding scaled_ratio(2) [OF assms(2) ab] using p [of e0] by (metis pos_le_divide_eq)
    then show ?thesis using True by (simp add: e_def power_int_add)
  next
    case False
    have "2 ^ 52 * 2 powi e0 = 2 powi (bit_length n - 1) / (2 powi bit_length d :: real)"
      by (simp add: e0_def power_int_diff power_int_add field_simps)
    also have "\<dots> \<le> ?v"
      using bit_length_bounds [OF assms(1)] bit_length_bounds [OF assms(2)] assms
      by (intro frac_le) auto
    finally show ?thesis using False by (simp add: e_def)
  qed
  have "?v = of_int a' / of_int b' * 2 powi e"
    unfolding scaled_ratio(2) [OF assms(2) ab'] using p [of e] by simp
  then have "double_value (nearest_double n d) - ?v = (of_int (round_half_even a' b') - of_int a' / of_int b') * 2 powi e"
    by (simp add: nd double_value_def algebra_simps)
  then have "\<bar>double_value (nearest_double n d) - ?v\<bar> = \<bar>of_int (round_half_even a' b') - of_int a' / of_int b'\<bar> * 2 powi e"
    using p [of e] by (simp add: abs_mult)
  also have "\<dots> \<le> 1 / 2 * 2 powi e"
    using round_error [OF scaled_ratio(1) [OF assms(2) ab'], of a'] by (intro mult_right_mono) auto
  also have "\<dots> \<le> ?v / 2 ^ 53" using lo by (simp add: field_simps)
  finally show ?thesis .
qed

lemma double_div_error:
  assumes "0 < fst x" "0 < fst y"
  shows "\<bar>double_value (double_div x y) - double_value x / double_value y\<bar> \<le> (double_value x / double_value y) / 2 ^ 53"
proof -
  obtain m e where me: "nearest_double (fst x) (fst y) = (m, e)" by fastforce
  let ?c = "2 powi (snd x - snd y) :: real"
  let ?q = "of_int (fst x) / of_int (fst y) :: real"
  have v: "double_value (double_div x y) = double_value (m, e) * ?c"
    by (simp add: double_div_def me double_value_def power_int_add power_int_diff)
  have q: "double_value x / double_value y = ?q * ?c"
    by (simp add: double_value_def power_int_diff)
  have "\<bar>double_value (double_div x y) - ?q * ?c\<bar> = \<bar>double_value (m, e) - ?q\<bar> * ?c"
    unfolding v by (simp add: abs_mult left_diff_distrib [symmetric] del: times_divide_eq_left)
  also have "\<dots> \<le> ?q / 2 ^ 53 * ?c"
    using nearest_double_error [OF assms] me by (intro mult_right_mono) simp_all
  finally show ?thesis unfolding q by simp
qed

lemma double_of_bounds:
  assumes "0 < n"
  shows "9007199254740991 / 9007199254740992 * of_int n \<le> double_value (double_of n)"
    "double_value (double_of n) \<le> 9007199254740993 / 9007199254740992 * of_int n" "0 < double_value (double_of n)" "0 < fst (double_of n)"
proof -
  have x: "\<bar>double_value (double_of n) - of_int n\<bar> \<le> of_int n / 9007199254740992"
    using nearest_double_error [OF assms, of 1] by (simp add: double_of_def)
  then show lo: "9007199254740991 / 9007199254740992 * of_int n \<le> double_value (double_of n)"
    and "double_value (double_of n) \<le> 9007199254740993 / 9007199254740992 * of_int n" by linarith+
  have "0 < real_of_int n" using assms by simp
  with lo show pos: "0 < double_value (double_of n)" by linarith
  have "(0 :: real) < 2 powi snd (double_of n)" by simp
  with pos show "0 < fst (double_of n)" by (metis double_value_def of_int_0_less_iff zero_less_mult_pos2)
qed

lemma rounded_quotient:
  fixes q x v :: real
  assumes "\<bar>q - x\<bar> \<le> x / 9007199254740992" "x \<le> 9007199254740993 / 9007199254740991 * v"
    "9007199254740991 / 9007199254740993 * v \<le> x" "0 < v"
  shows "\<bar>q - v\<bar> \<le> 4 * v / 9007199254740992"
  using assms by linarith

text \<open>The quotient of two rounded numbers, rounded: a relative error of at most \<open>4 * 2 ^ -53\<close>.\<close>

lemma cpu_seconds_error:
  assumes "0 < t" "0 < rate"
  shows "\<bar>double_value (cpu_seconds t rate) - of_int t / of_int rate\<bar> \<le> 4 * (of_int t / of_int rate) / 2 ^ 53"
proof -
  let ?X = "double_value (double_of t)" and ?Y = "double_value (double_of rate)" and ?v = "of_int t / of_int rate :: real"
  note x = double_of_bounds [OF assms(1)] and y = double_of_bounds [OF assms(2)]
  have pos: "0 < real_of_int t" "0 < real_of_int rate" "0 < ?v" using assms by simp_all
  have "?X / ?Y \<le> (9007199254740993 / 9007199254740992 * of_int t) / (9007199254740991 / 9007199254740992 * of_int rate)"
    using x y pos by (intro frac_le) simp_all
  also have "\<dots> = 9007199254740993 / 9007199254740991 * ?v" by simp
  finally have hi: "?X / ?Y \<le> 9007199254740993 / 9007199254740991 * ?v" .
  have "9007199254740991 / 9007199254740993 * ?v = (9007199254740991 / 9007199254740992 * of_int t) / (9007199254740993 / 9007199254740992 * of_int rate)"
    by simp
  also have "\<dots> \<le> ?X / ?Y" using x y pos by (intro frac_le) simp_all
  finally have lo: "9007199254740991 / 9007199254740993 * ?v \<le> ?X / ?Y" .
  have "\<bar>double_value (cpu_seconds t rate) - ?X / ?Y\<bar> \<le> ?X / ?Y / 9007199254740992"
    using double_div_error [OF x(4) y(4)] assms(2) by (simp add: cpu_seconds_def)
  from rounded_quotient [OF this hi lo pos(3)] show ?thesis by simp
qed

lemma print_fixed_zero: "fst x = 0 \<Longrightarrow> print_fixed k x = print_fixed k (0, 0)"
  by (simp add: print_fixed_def scaled_def round_half_even_def)

text \<open>
  C39. The CPU times of \<open>pinfo\<close> are right for every clock rate. The time of \<open>t\<close> ticks at \<open>rate\<close> ticks per second, for times
  up to 544 years, is displayed as a number \<open>n\<close> of milliseconds (with three decimals in seconds) that differs from the
  true quotient by at most 0.51 milliseconds, although it passes through four roundings; and it is exact
  whenever the true time is a whole number of milliseconds, as for the usual rates 100, 250 and 1000.
\<close>

theorem cpu_time_display_exact:
  assumes "0 \<le> t" "0 < rate" "t < 2 ^ 34 * rate"
  shows "\<exists>n. print_fixed 3 (cpu_seconds t rate) = to_string (n div 1000) @ ''.'' @ pad_digits 3 (to_string (n mod 1000)) \<and>
    100 * \<bar>n * rate - 1000 * t\<bar> \<le> 51 * rate \<and> (rate dvd 1000 * t \<longrightarrow> n = 1000 * t div rate)"
proof (cases "t = 0")
  case True
  have "fst (cpu_seconds 0 rate) = 0"
    by (simp add: cpu_seconds_def double_div_def double_of_def nearest_double_def)
  then have "print_fixed 3 (cpu_seconds 0 rate) = print_fixed 3 (0, 0)" by (rule print_fixed_zero)
  moreover have "print_fixed 3 (0, 0) = to_string (0 div 1000) @ ''.'' @ pad_digits 3 (to_string (0 mod 1000))" by code_simp
  ultimately show ?thesis using assms(2) unfolding True by (intro exI [of _ 0]) simp
next
  case False
  with assms have t: "0 < t" by simp
  let ?z = "cpu_seconds t rate" and ?v = "of_int t / of_int rate :: real"
  obtain a b where ab: "scaled (fst ?z * 1000) 1 (- snd ?z) = (a, b)" by fastforce
  have z: "of_int a / of_int b = 1000 * double_value ?z"
    using scaled_ratio(2) [OF _ ab] by (simp add: double_value_def power_int_minus field_simps)
  have rate: "0 < real_of_int rate" using assms(2) by simp
  have "(of_int t :: real) < of_int (2 ^ 34 * rate)" using assms(3) by (rule of_int_less_iff [THEN iffD2])
  then have v: "?v < 2 ^ 34" using rate by (simp add: pos_divide_less_eq)
  have "\<bar>of_int a / of_int b - 1000 * ?v\<bar> = 1000 * \<bar>double_value ?z - ?v\<bar>" unfolding z by (simp add: abs_if)
  also have "\<dots> \<le> 4000 * ?v / 2 ^ 53" using mult_left_mono [OF cpu_seconds_error [OF t assms(2)], of 1000] by simp
  also have "\<dots> \<le> 1 / 100" using v by simp
  finally have near: "\<bar>of_int a / of_int b - 1000 * ?v\<bar> \<le> 1 / 100" .
  define n where "n = round_half_even a b"
  have "\<bar>of_int n - 1000 * ?v\<bar> \<le> 51 / 100"
    using round_error [OF scaled_ratio(1) [OF _ ab, simplified], of a] near unfolding n_def by linarith
  then have "\<bar>of_int n - 1000 * ?v\<bar> * of_int rate \<le> 51 / 100 * of_int rate" using rate by (intro mult_right_mono) simp_all
  also have "\<bar>of_int n - 1000 * ?v\<bar> * of_int rate = \<bar>of_int (n * rate - 1000 * t)\<bar>"
    using rate by (simp add: abs_mult [of _ "of_int rate :: real", symmetric, unfolded abs_of_pos [OF rate]] left_diff_distrib)
  finally have "(of_int (100 * \<bar>n * rate - 1000 * t\<bar>) :: real) \<le> of_int (51 * rate)" by simp
  then have bound: "100 * \<bar>n * rate - 1000 * t\<bar> \<le> 51 * rate" by (simp only: of_int_le_iff)
  have "n = 1000 * t div rate" if "rate dvd 1000 * t"
  proof -
    from that obtain k where k: "1000 * t = rate * k" by (rule dvdE)
    then have "(of_int (1000 * t) :: real) = of_int rate * of_int k" by (metis of_int_mult)
    then have "1000 * ?v = of_int k" using rate by (simp add: field_simps)
    with near have "n = k" unfolding n_def by (intro round_exact scaled_ratio(1) [OF _ ab]) simp_all
    with k assms(2) show ?thesis by simp
  qed
  with bound show ?thesis by (intro exI [of _ n]) (simp add: print_fixed_def ab n_def Let_def)
qed

theorem cpu_time_display_exact_witness:
  "print_fixed 3 (cpu_seconds 12345 100) = ''123.450'' \<and> print_fixed 3 (cpu_seconds 12345 250) = ''49.380''"
proof -
  have "print_fixed 3 (cpu_seconds 12345 100) = to_string (123450 div 1000) @ ''.'' @ pad_digits 3 (to_string (123450 mod 1000))"
    using cpu_time_display_exact [of 12345 100] by auto
  moreover have "print_fixed 3 (cpu_seconds 12345 250) = to_string (49380 div 1000) @ ''.'' @ pad_digits 3 (to_string (49380 mod 1000))"
    using cpu_time_display_exact [of 12345 250] by auto
  moreover have "to_string (123450 div 1000) @ ''.'' @ pad_digits 3 (to_string (123450 mod 1000)) = ''123.450''"
    "to_string (49380 div 1000) @ ''.'' @ pad_digits 3 (to_string (49380 mod 1000)) = ''49.380''" by code_simp+
  ultimately show ?thesis by simp
qed

end
