(* ===== verification/Sandbox_Theorems.thy ===== *)
theory Sandbox_Theorems
  imports Sandbox
begin

text \<open>
  What the sandbox promises: a validated configuration, a program that starts only inside everything
  that was asked for, and a cgroup that does not outlive its sandbox.
\<close>

section \<open>Options\<close>

definition sandbox_valid :: "SandboxConfig \<Rightarrow> bool" where
  "sandbox_valid cfg \<longleftrightarrow>
     (has_cpu_percent cfg \<longrightarrow> 1 \<le> cpu_percent cfg \<and> cpu_percent cfg \<le> 1000) \<and>
     (has_pids_max cfg \<longrightarrow> pids_max cfg \<noteq> 0) \<and>
     (hostname cfg \<noteq> [] \<longrightarrow> uts_namespace cfg \<and> length (hostname cfg) \<le> 64)"

lemma sandbox_parse_unsigned_nonzero: "sandbox_parse_unsigned s False = Some n \<Longrightarrow> n \<noteq> 0"
  by (auto simp: sandbox_parse_unsigned_def split: if_splits option.splits)

lemma sandbox_value_option_valid:
  assumes "sandbox_value_option cfg flag v = Inr cfg'" "sandbox_valid cfg" "takes_value flag"
  shows "sandbox_valid cfg'"
proof -
  have pos: "1 \<le> uint n" if "n \<noteq> 0" for n :: "64 word"
    using that by (metis int_one_le_iff_zero_less uint_0_iff uint_ge_0 order_le_less)
  from assms(3) consider "flag = Sb_hostname" | "flag = Sb_memory" | "flag = Sb_pids" | "flag = Sb_cpu"
    by (auto simp: takes_value_def)
  then show ?thesis
  proof cases
    case 1
    with assms(1) have "v \<noteq> []" "length v \<le> 64" "cfg' = cfg\<lparr>hostname := v, uts_namespace := True\<rparr>"
      by (auto simp: sandbox_value_option_def split: if_splits)
    with assms(2) show ?thesis by (simp add: sandbox_valid_def)
  next
    case 2
    with assms(1) obtain n where "cfg' = cfg\<lparr>memory_max_bytes := n, has_memory_max := True\<rparr>"
      by (auto simp: sandbox_value_option_def split: option.splits)
    with assms(2) show ?thesis by (simp add: sandbox_valid_def)
  next
    case 3
    with assms(1) obtain n where "sandbox_parse_unsigned v False = Some n" "cfg' = cfg\<lparr>pids_max := n, has_pids_max := True\<rparr>"
      by (auto simp: sandbox_value_option_def split: option.splits)
    with assms(2) show ?thesis by (simp add: sandbox_valid_def sandbox_parse_unsigned_nonzero)
  next
    case 4
    with assms(1) obtain n where n: "sandbox_parse_unsigned v False = Some n" "uint n \<le> 1000"
      "cfg' = cfg\<lparr>cpu_percent := uint n, has_cpu_percent := True\<rparr>"
      by (auto simp: sandbox_value_option_def split: option.splits if_splits)
    with assms(2) pos [OF sandbox_parse_unsigned_nonzero [OF n(1)]] show ?thesis by (simp add: sandbox_valid_def)
  qed
qed

lemma sandbox_switch_valid: "sandbox_valid cfg \<Longrightarrow> sandbox_valid (sandbox_switch flag cfg)"
  by (cases flag) (simp_all add: sandbox_switch_def sandbox_valid_def)

text \<open>One round of the option loop: it stops, or goes on with a shorter list.\<close>

lemma sandbox_options_round:
  assumes "sandbox_options cfg (arg # rest) = Inr (cfg', sep, rest')" "sandbox_valid cfg"
  obtains (stop) "rest' = rest \<or> rest' = arg # rest" "sandbox_valid cfg'"
  | (go) cfg1 k where "sandbox_options cfg1 (drop k rest) = Inr (cfg', sep, rest')" "sandbox_valid cfg1"
proof -
  have flags: "sandbox_valid (cfg\<lparr>sb_show_help := b\<rparr>)" "sandbox_valid (cfg\<lparr>sb_show_status := b\<rparr>)" for b
    using assms(2) by (simp_all add: sandbox_valid_def)
  note switch = sandbox_switch_valid [OF assms(2), of "sandbox_flag_of arg"]
  show thesis
  proof (cases "takes_value (sandbox_flag_of arg)")
    case True
    with assms(1) obtain v args' cfg1 where v: "rest = v # args'" "sandbox_value_option cfg (sandbox_flag_of arg) v = Inr cfg1"
      "sandbox_options cfg1 args' = Inr (cfg', sep, rest')"
      by (cases "sandbox_flag_of arg") (auto simp: takes_value_def split: sum.splits)
    with sandbox_value_option_valid [OF v(2) assms(2) True] go [of cfg1 1] show thesis by simp
  next
    case False
    show thesis
      using False assms flags switch go [of "cfg\<lparr>sb_show_status := True\<rparr>" 1] go [of "sandbox_switch (sandbox_flag_of arg) cfg" 0] stop
      by (cases "sandbox_flag_of arg") (auto simp: takes_value_def)
  qed
qed

lemma sandbox_options_valid:
  "sandbox_options cfg as = Inr (cfg', sep, rest) \<Longrightarrow> sandbox_valid cfg \<Longrightarrow> sandbox_valid cfg' \<and> (\<exists>pre. as = pre @ rest)"
proof (induction "as" arbitrary: cfg rule: length_induct)
  case (1 as0)
  show ?case
  proof (cases as0)
    case Nil
    with 1 show ?thesis by simp
  next
    case (Cons arg args)
    from 1(2) [unfolded Cons] 1(3) show ?thesis
    proof (cases rule: sandbox_options_round)
      case (go cfg1 k)
      have "length (drop k args) < length as0" using Cons by simp
      with 1(1) go obtain pre where pre: "sandbox_valid cfg'" "drop k args = pre @ rest" by blast
      then have "as0 = (arg # take k args @ pre) @ rest" using Cons by (metis append_Cons append_assoc append_take_drop_id)
      with pre(1) show ?thesis by blast
    qed (auto simp: Cons intro: exI [of _ "[arg]"] exI [of _ "[]"])
  qed
qed


section \<open>Traces\<close>

definition extends :: "trace \<Rightarrow> trace \<Rightarrow> bool" where
  "extends h h' \<longleftrightarrow> (\<exists>cs. h' = h @ cs)"

lemma extends_refl [simp]: "extends h h"
  by (simp add: extends_def)

lemma extends_append [simp]: "extends h (h @ cs)"
  by (simp add: extends_def)

lemma extends_trans: "extends a b \<Longrightarrow> extends b c \<Longrightarrow> extends a c"
  by (auto simp: extends_def)

lemma extends_snoc [simp]: "extends h h' \<Longrightarrow> extends h (h' @ cs)"
  by (auto simp: extends_def)

lemma extends_emit [simp]: "extends h h' \<Longrightarrow> extends h (emit c h')"
  by (simp add: emit_def)

lemma extends_close_fd [simp]: "extends h h' \<Longrightarrow> extends h (close_fd fd h')"
  by (simp add: close_fd_def)

lemma extends_message [simp]: "extends h h' \<Longrightarrow> extends h (sandbox_message fd m h')"
  by (simp add: sandbox_message_def)

lemma extends_earlier: "extends (h @ cs) h' \<Longrightarrow> extends h h'"
  by (auto simp: extends_def)

text \<open>Calls that do not bear on the isolation of the process: the trace grows by such calls only.\<close>

definition quiet_call :: "syscall \<Rightarrow> bool" where
  "quiet_call c =
     (case c of
        Fork _ \<Rightarrow> False
      | Isolation i \<Rightarrow>
          (case i of
             Unshare _ \<Rightarrow> False | Mount _ _ _ _ \<Rightarrow> False | Sethostname _ \<Rightarrow> False
           | Setresuid _ _ _ \<Rightarrow> False | Setresgid _ _ _ \<Rightarrow> False | _ \<Rightarrow> True)
      | _ \<Rightarrow> True)"

lemma quiet_call_simps [simp]:
  "quiet_call (Open p fl m)" "quiet_call (Write fd d)" "quiet_call (Close fd)" "quiet_call (WriteAll fd d)"
  "quiet_call (Waitpid pid w)" "quiet_call (Read fd n)" "quiet_call Getppid" "quiet_call (Isolation (Prctl_pdeathsig sig))"
  "quiet_call (Isolation (Exists p))" "quiet_call (Isolation Getuid)" "quiet_call (Isolation Getgid)"
  by (simp_all add: quiet_call_def)

definition quiet :: "trace \<Rightarrow> trace \<Rightarrow> bool" where
  "quiet h h' \<longleftrightarrow> (\<exists>cs. h' = h @ cs \<and> list_all quiet_call cs)"

lemma quiet_refl [simp]: "quiet h h"
  by (simp add: quiet_def)

lemma quiet_trans: "quiet a b \<Longrightarrow> quiet b c \<Longrightarrow> quiet a c"
  by (auto simp: quiet_def)

lemma quiet_snoc [simp]: "quiet h h' \<Longrightarrow> list_all quiet_call cs \<Longrightarrow> quiet h (h' @ cs)"
  by (auto simp: quiet_def)

lemma quiet_append: "list_all quiet_call cs \<Longrightarrow> quiet h (h @ cs)"
  by (auto simp: quiet_def)

lemma quiet_extends: "quiet h h' \<Longrightarrow> extends h h'"
  by (auto simp: quiet_def extends_def)

lemma quiet_first: "quiet_call c \<Longrightarrow> quiet (h @ [c]) h' \<Longrightarrow> quiet h h'"
  by (auto simp: quiet_def)

lemma quiet_message [simp]: "quiet h h' \<Longrightarrow> quiet h (sandbox_message fd m h')"
  by (simp add: sandbox_message_def emit_def)

lemma quiet_close_fd [simp]: "quiet h h' \<Longrightarrow> quiet h (close_fd fd h')"
  by (simp add: close_fd_def emit_def)

lemma write_self_file_quiet: "write_self_file E K fd path d h = (ok, h') \<Longrightarrow> quiet h h'"
  by (auto simp: write_self_file_def write_text_file_def syscall_def Let_def emit_def quiet_append split: if_splits)

lemma fs_exists_quiet:
  assumes "fs_exists K path h = (r, h')"
  shows "quiet h h' \<and> (r = Inl Aborted \<or> (\<exists>b. r = Inr b))"
  using assms by (auto simp: fs_exists_def syscall_def quiet_append split: if_splits)

lemma wait_eintr_quiet:
  assumes "wait_eintr K pid h = Some r"
  shows "quiet h (snd r)"
proof (rule wait_eintr.raw_induct [where P = "\<lambda>K pid h r. quiet h (snd r)", OF _ assms])
  fix f K pid h r
  assume IH: "\<And>K pid h r. f K pid h = Some r \<Longrightarrow> quiet h (snd r)"
    and body: "(let (r, h1) = syscall K (Waitpid pid []) h
      in if ret r = -1 \<and> errno r = EINTR then f K pid h1 else Some (r, h1)) = Some r"
  show "quiet h (snd r)"
    using body unfolding syscall_def Let_def prod.case
    by (auto simp: quiet_append split: if_splits dest!: IH intro: quiet_first [of "Waitpid pid []"])
qed

lemma write_text_file_extends: "extends h (snd (write_text_file e K path d h))"
  by (simp add: write_text_file_def syscall_def Let_def emit_def)

lemma fs_exists_cases:
  assumes "fs_exists K path h = (r, h')"
  shows "extends h h' \<and> (r = Inl Aborted \<or> (\<exists>b. r = Inr b))"
  using assms by (auto simp: fs_exists_def syscall_def split: if_splits)

text \<open>The last call of \<open>sync_read\<close> is the read whose answer it returns.\<close>

lemma sync_read_last:
  assumes "sync_read K fd h = Some r"
  shows "\<exists>g. snd r = g @ [Read fd 1] \<and> extends h g \<and> ret (K g (Read fd 1)) = fst r"
proof (rule sync_read.raw_induct [where
      P = "\<lambda>K fd h r. \<exists>g. snd r = g @ [Read fd 1] \<and> extends h g \<and> ret (K g (Read fd 1)) = fst r", OF _ assms])
  fix f K fd h r
  assume IH: "\<And>K fd h r. f K fd h = Some r \<Longrightarrow> \<exists>g. snd r = g @ [Read fd 1] \<and> extends h g \<and> ret (K g (Read fd 1)) = fst r"
    and body: "(let (r, h1) = syscall K (Read fd 1) h
      in if ret r = -1 \<and> errno r = EINTR then f K fd h1 else Some (ret r, h1)) = Some r"
  show "\<exists>g. snd r = g @ [Read fd 1] \<and> extends h g \<and> ret (K g (Read fd 1)) = fst r"
  proof (cases "ret (K h (Read fd 1)) = -1 \<and> errno (K h (Read fd 1)) = EINTR")
    case True
    with body have "f K fd (h @ [Read fd 1]) = Some r" by (simp add: syscall_def)
    from IH [OF this] show ?thesis by (blast intro: extends_earlier)
  next
    case False
    with body have "r = (ret (K h (Read fd 1)), h @ [Read fd 1])" by (auto simp: syscall_def)
    then show ?thesis by (intro exI [of _ h]) simp
  qed
qed


section \<open>Isolation\<close>

text \<open>
  What the kernel has granted to a process, read off the calls it issued and their answers: the
  namespaces it has to itself, whether its mounts are private, the host name it set, whether it runs
  inside the new PID namespace (a child, to which \<open>fork\<close> answers 0, after \<open>unshare\<close>; not its parent), whether \<open>/proc\<close> shows
  that namespace, and whether it is root in a user namespace of its own. A host name set, or
  anything mounted, before the namespace that contains it changes the host.
\<close>

record isolation =
  own_spaces :: "clone_flag set"
  mounts_private :: bool
  uts_name :: "string option"
  in_new_pid :: bool
  fresh_proc :: bool
  root_user :: bool
  root_group :: bool
  host_changed :: bool

definition unconfined :: isolation where
  "unconfined =
     \<lparr>own_spaces = {}, mounts_private = False, uts_name = None, in_new_pid = False, fresh_proc = False,
      root_user = False, root_group = False, host_changed = False\<rparr>"

definition granted :: "isolation_call \<Rightarrow> isolation \<Rightarrow> isolation" where
  "granted i s =
     (case i of
        Unshare spaces \<Rightarrow> s\<lparr>own_spaces := own_spaces s \<union> set spaces\<rparr>
      | Mount source target fstype flags \<Rightarrow>
          if CLONE_NEWNS \<notin> own_spaces s then s\<lparr>host_changed := True\<rparr>
          else if target = ''/'' \<and> MS_REC \<in> set flags \<and> MS_PRIVATE \<in> set flags then s\<lparr>mounts_private := True\<rparr>
          else if \<not> mounts_private s then s\<lparr>host_changed := True\<rparr>
          else if target = ''/proc'' \<and> fstype = Some ''proc'' then s\<lparr>fresh_proc := in_new_pid s\<rparr>
          else s
      | Sethostname name \<Rightarrow>
          if CLONE_NEWUTS \<in> own_spaces s then s\<lparr>uts_name := Some name\<rparr> else s\<lparr>host_changed := True\<rparr>
      | Setresuid r e sv \<Rightarrow> s\<lparr>root_user := CLONE_NEWUSER \<in> own_spaces s \<and> r = 0 \<and> e = 0 \<and> sv = 0\<rparr>
      | Setresgid r e sv \<Rightarrow> s\<lparr>root_group := CLONE_NEWUSER \<in> own_spaces s \<and> r = 0 \<and> e = 0 \<and> sv = 0\<rparr>
      | _ \<Rightarrow> s)"

definition isolation_step :: "syscall \<Rightarrow> int \<Rightarrow> isolation \<Rightarrow> isolation" where
  "isolation_step c answer s =
     (if answer = -1 then s
      else case c of
        Isolation i \<Rightarrow> granted i s
      | Fork _ \<Rightarrow> if answer \<le> 0 \<and> CLONE_NEWPID \<in> own_spaces s then s\<lparr>in_new_pid := True\<rparr> else s
      | _ \<Rightarrow> s)"

fun isolation_run :: "kernel \<Rightarrow> trace \<Rightarrow> trace \<Rightarrow> isolation \<Rightarrow> isolation" where
  "isolation_run K h [] s = s"
| "isolation_run K h (c # cs) s = isolation_run K (h @ [c]) cs (isolation_step c (ret (K h c)) s)"

text \<open>Everything that the options of a configuration ask of the namespaces is in force.\<close>

definition confined :: "SandboxConfig \<Rightarrow> isolation \<Rightarrow> bool" where
  "confined cfg s \<longleftrightarrow>
     (mount_namespace cfg \<longrightarrow> CLONE_NEWNS \<in> own_spaces s \<and> mounts_private s) \<and>
     (network_namespace cfg \<longrightarrow> CLONE_NEWNET \<in> own_spaces s) \<and>
     (uts_namespace cfg \<longrightarrow> CLONE_NEWUTS \<in> own_spaces s) \<and>
     (hostname cfg \<noteq> [] \<longrightarrow> uts_name s = Some (hostname cfg)) \<and>
     (pid_namespace cfg \<longrightarrow> CLONE_NEWPID \<in> own_spaces s \<and> in_new_pid s) \<and>
     (user_namespace cfg \<longrightarrow> CLONE_NEWUSER \<in> own_spaces s \<and> root_user s \<and> root_group s) \<and>
     (mount_proc cfg \<longrightarrow> fresh_proc s) \<and>
     \<not> host_changed s"

text \<open>From \<open>h\<close> to \<open>h'\<close> what is granted changes from \<open>s\<close> to \<open>s'\<close>.\<close>

definition grants :: "kernel \<Rightarrow> trace \<Rightarrow> isolation \<Rightarrow> trace \<Rightarrow> isolation \<Rightarrow> bool" where
  "grants K h s h' s' \<longleftrightarrow> (\<exists>cs. h' = h @ cs \<and> isolation_run K h cs s = s')"

lemma isolation_run_append: "isolation_run K h (cs @ ds) s = isolation_run K (h @ cs) ds (isolation_run K h cs s)"
  by (induction cs arbitrary: h s) simp_all

lemma grants_trans: "grants K a s b t \<Longrightarrow> grants K b t c u \<Longrightarrow> grants K a s c u"
  by (auto simp: grants_def isolation_run_append)

lemma grants_call: "grants K h s (h @ [c]) (isolation_step c (ret (K h c)) s)"
  by (simp add: grants_def)

lemma grants_accepted: "ret (K h (Isolation i)) \<noteq> -1 \<Longrightarrow> grants K h s (h @ [Isolation i]) (granted i s)"
  using grants_call [of K h s "Isolation i"] by (simp add: isolation_step_def)

lemma grants_then:
  "grants K h s g t \<Longrightarrow> ret (K g (Isolation i)) \<noteq> -1 \<Longrightarrow> grants K h s (g @ [Isolation i]) (granted i t)"
  by (blast intro: grants_trans grants_accepted)

lemma isolation_step_quiet: "quiet_call c \<Longrightarrow> isolation_step c r s = s"
proof (cases c)
  case (Isolation i)
  then show "quiet_call c \<Longrightarrow> isolation_step c r s = s"
    by (cases i) (simp_all add: isolation_step_def quiet_call_def granted_def)
qed (simp_all add: isolation_step_def quiet_call_def)

lemma grants_quiet: "quiet h h' \<Longrightarrow> grants K h s h' s"
proof -
  have "isolation_run K h cs s = s" if "list_all quiet_call cs" for h cs
    using that by (induction cs arbitrary: h) (simp_all add: isolation_step_quiet)
  then show "quiet h h' \<Longrightarrow> grants K h s h' s" by (auto simp: quiet_def grants_def)
qed


section \<open>The worker\<close>

abbreviation not_replaced :: "child_end \<Rightarrow> bool" where
  "not_replaced c \<equiv> (\<forall>exe argv. c \<noteq> Replaced exe argv)"

lemma tie_to_supervisor_cases:
  assumes "tie_to_supervisor K h = (r, h')"
  shows "quiet h h' \<and> (\<forall>c. r = Inl c \<longrightarrow> not_replaced c)"
  using assms by (auto simp: tie_to_supervisor_def syscall_def quiet_append split: if_splits)

lemma probe_unshare_flags_not_replaced: "probe_unshare_flags K flags h = Some (Inl c, h') \<Longrightarrow> not_replaced c"
  by (auto simp: probe_unshare_flags_def syscall_def Let_def split: if_splits)

text \<open>The probe leaves its parent as it was: \<open>unshare\<close> was tried in a child that has ended.\<close>

lemma probe_unshare_flags_grants:
  assumes "probe_unshare_flags K flags h = Some (Inr ok, h')" "CLONE_NEWPID \<notin> own_spaces s"
  shows "grants K h s h' s"
proof -
  have f: "grants K h s (h @ [Fork 0]) s"
    using assms(2) grants_call [of K h s "Fork 0"] by (simp add: isolation_step_def split: if_splits)
  have "quiet (h @ [Fork 0]) h'"
    using assms(1) by (auto simp: probe_unshare_flags_def syscall_def Let_def split: if_splits dest!: wait_eintr_quiet)
  with f show ?thesis by (blast intro: grants_trans grants_quiet)
qed

text \<open>A mapped user is root, user and group, of a new user namespace.\<close>

definition as_root :: "isolation \<Rightarrow> isolation" where
  "as_root s = s\<lparr>own_spaces := insert CLONE_NEWUSER (own_spaces s), root_group := True, root_user := True\<rparr>"

lemma map_current_user_to_root_not_replaced: "map_current_user_to_root E K fd h = (Inl c, h') \<Longrightarrow> not_replaced c"
  by (auto simp: map_current_user_to_root_def syscall_def Let_def and_then_def
      split: if_splits prod.splits sum.splits dest!: fs_exists_cases)

lemma map_current_user_to_root_grants:
  assumes "map_current_user_to_root E K fd h = (Inr True, h')"
  shows "grants K h s h' (as_root s)"
proof -
  let ?u = "Unshare [CLONE_NEWUSER]"
  define g where "g = h @ [Isolation Getuid, Isolation Getgid]"
  have u: "ret (K g (Isolation ?u)) \<noteq> -1"
    using assms by (auto simp: map_current_user_to_root_def syscall_def Let_def g_def)
  obtain there h4 where e: "fs_exists K ''/proc/self/setgroups'' (g @ [Isolation ?u]) = (there, h4)" by fastforce
  from assms u e obtain b where b: "there = Inr b"
    by (cases there) (auto simp: map_current_user_to_root_def syscall_def Let_def g_def and_then_def)
  obtain ok1 h5 where 1: "(if b then write_self_file E K fd ''/proc/self/setgroups'' ''deny'' h4 else (True, h4)) = (ok1, h5)"
    by fastforce
  obtain ok2 h6 where 2: "write_self_file E K fd ''/proc/self/uid_map''
      (''0 '' @ to_string (ret (K h (Isolation Getuid))) @ '' 1'' @ [newline]) h5 = (ok2, h6)" by fastforce
  obtain ok3 h7 where 3: "write_self_file E K fd ''/proc/self/gid_map''
      (''0 '' @ to_string (ret (K (h @ [Isolation Getuid]) (Isolation Getgid))) @ '' 1'' @ [newline]) h6 = (ok3, h7)" by fastforce
  have q: "quiet (g @ [Isolation ?u]) h7"
    using fs_exists_quiet [OF e] 1 write_self_file_quiet [OF 2] write_self_file_quiet [OF 3]
    by (auto split: if_splits dest: write_self_file_quiet intro: quiet_trans)
  have ids: "ret (K h7 (Isolation (Setresgid 0 0 0))) \<noteq> -1"
    "ret (K (h7 @ [Isolation (Setresgid 0 0 0)]) (Isolation (Setresuid 0 0 0))) \<noteq> -1"
    "h' = (h7 @ [Isolation (Setresgid 0 0 0)]) @ [Isolation (Setresuid 0 0 0)]"
    using assms u e b 1 2 3
    by (auto simp: map_current_user_to_root_def syscall_def Let_def g_def and_then_def split: if_splits)
  have "grants K h s g s" by (rule grants_quiet) (simp add: g_def quiet_append)
  then have "grants K h s (g @ [Isolation ?u]) (granted ?u s)" using u by (rule grants_then)
  then have "grants K h s h7 (granted ?u s)" by (rule grants_trans) (rule grants_quiet [OF q])
  then have "grants K h s h' (granted (Setresuid 0 0 0) (granted (Setresgid 0 0 0) (granted ?u s)))"
    unfolding ids(3) using ids(1,2) by (blast intro: grants_then)
  then show ?thesis by (simp add: granted_def as_root_def)
qed

lemma run_setup_grants: "run_setup E K fd cs h = (True, h') \<Longrightarrow> grants K h s h' (fold (granted \<circ> fst) cs s)"
proof (induction cs arbitrary: h s)
  case Nil
  then show ?case by (simp add: grants_quiet)
next
  case (Cons x cs)
  obtain c what where x: "x = (c, what)" by fastforce
  with Cons.prems have a: "ret (K h (Isolation c)) \<noteq> -1" "run_setup E K fd cs (h @ [Isolation c]) = (True, h')"
    by (auto simp: syscall_def split: if_splits)
  have "grants K h s (h @ [Isolation c]) (granted c s)" using a(1) by (rule grants_accepted)
  then have "grants K h s h' (fold (granted \<circ> fst) cs (granted c s))" using Cons.IH [OF a(2)] by (rule grants_trans)
  then show ?case by (simp add: x comp_def)
qed

text \<open>The program starts with one last call, after everything that holds of \<open>bt\<close>.\<close>

definition starts :: "child_end \<Rightarrow> trace \<Rightarrow> string list \<Rightarrow> trace \<Rightarrow> bool" where
  "starts c h' prog bt \<longleftrightarrow>
     (\<forall>exe argv. c = Replaced exe argv \<longrightarrow> argv = prog \<and> h' = bt @ [Execv (c_str exe) (map c_str prog)])"

lemma exec_program_starts: "exec_program E K prog fd h = (c, h') \<Longrightarrow> starts c h' prog h"
  by (auto simp: exec_program_def starts_def syscall_def execv_def Let_def split: if_splits)

text \<open>What the first process of the PID namespace, and the start of the program, add.\<close>

definition proc_mounted :: "SandboxConfig \<Rightarrow> isolation \<Rightarrow> isolation" where
  "proc_mounted cfg s =
     (if mount_proc cfg then granted (Mount (Some ''proc'') ''/proc'' (Some ''proc'') [MS_NOSUID, MS_NODEV, MS_NOEXEC]) s else s)"

lemma namespace_init_starts:
  assumes "namespace_init E K cfg fd h = (Replaced exe argv, h')"
  shows "\<exists>bt. starts (Replaced exe argv) h' (sb_program_args cfg) bt \<and> grants K h s bt (proc_mounted cfg s)"
proof -
  obtain r h1 where t: "tie_to_supervisor K h = (r, h1)" by fastforce
  note tie = tie_to_supervisor_cases [OF t]
  let ?m = "Mount (Some ''proc'') ''/proc'' (Some ''proc'') [MS_NOSUID, MS_NODEV, MS_NOEXEC]"
  have q: "grants K h s h1 s" using tie by (blast intro: grants_quiet)
  show ?thesis
  proof (cases "mount_proc cfg")
    case True
    with assms t tie have m: "ret (K h1 (Isolation ?m)) \<noteq> -1"
      "exec_program E K (sb_program_args cfg) fd (h1 @ [Isolation ?m]) = (Replaced exe argv, h')"
      by (auto simp: namespace_init_def syscall_def split: sum.splits if_splits)
    have "grants K h s (h1 @ [Isolation ?m]) (granted ?m s)" using q m(1) by (rule grants_then)
    with exec_program_starts [OF m(2)] True show ?thesis by (auto simp: proc_mounted_def)
  next
    case False
    with assms t tie have "exec_program E K (sb_program_args cfg) fd h1 = (Replaced exe argv, h')"
      by (auto simp: namespace_init_def split: sum.splits)
    from exec_program_starts [OF this] q False show ?thesis by (auto simp: proc_mounted_def)
  qed
qed

definition program_started :: "SandboxConfig \<Rightarrow> isolation \<Rightarrow> isolation" where
  "program_started cfg s =
     (if pid_namespace cfg then proc_mounted cfg (isolation_step (Fork 0) 0 s) else s)"

lemma start_program_starts:
  assumes "start_program E K cfg fd h = Some (Inl (Replaced exe argv), h')"
  shows "\<exists>bt. starts (Replaced exe argv) h' (sb_program_args cfg) bt \<and> grants K h s bt (program_started cfg s) \<and>
    (mount_proc cfg \<longrightarrow> pid_namespace cfg)"
proof (cases "pid_namespace cfg")
  case True
  with assms have i: "namespace_init E K cfg fd (h @ [Fork 0]) = (Replaced exe argv, h')" "ret (K h (Fork 0)) \<noteq> -1"
    "ret (K h (Fork 0)) \<le> 0"
    by (auto simp: start_program_def syscall_def Let_def split: if_splits prod.splits)
  then have "grants K h s (h @ [Fork 0]) (isolation_step (Fork 0) 0 s)"
    using grants_call [of K h s "Fork 0"] by (simp add: isolation_step_def)
  note f = grants_trans [OF this]
  from namespace_init_starts [OF i(1), of "isolation_step (Fork 0) 0 s"] obtain bt
    where b: "starts (Replaced exe argv) h' (sb_program_args cfg) bt"
      "grants K (h @ [Fork 0]) (isolation_step (Fork 0) 0 s) bt (proc_mounted cfg (isolation_step (Fork 0) 0 s))" by blast
  with f [OF b(2)] True show ?thesis by (intro exI [of _ bt]) (simp add: program_started_def)
next
  case False
  with assms have "\<not> mount_proc cfg" "exec_program E K (sb_program_args cfg) fd h = (Replaced exe argv, h')"
    by (auto simp: start_program_def split: if_splits prod.splits)
  with exec_program_starts [OF this(2)] False show ?thesis
    by (intro exI [of _ h]) (simp add: program_started_def grants_quiet)
qed

text \<open>The set-up calls of the code and the start of the program put a configuration in force.\<close>

lemma setup_confines:
  assumes "own_spaces s \<subseteq> {CLONE_NEWUSER}" "\<not> host_changed s" "hostname cfg \<noteq> [] \<longrightarrow> uts_namespace cfg"
    "mount_proc cfg \<longrightarrow> pid_namespace cfg \<and> mount_namespace cfg"
    "user_namespace cfg \<longrightarrow> CLONE_NEWUSER \<in> own_spaces s \<and> root_user s \<and> root_group s"
  shows "confined cfg (program_started cfg (fold (granted \<circ> fst) (setup_calls cfg) s))"
proof -
  note defs = confined_def program_started_def proc_mounted_def isolation_step_def setup_calls_def namespace_flags_def granted_def
  show ?thesis
    using assms
    by (cases "mount_namespace cfg"; cases "uts_namespace cfg"; cases "pid_namespace cfg"; cases "hostname cfg = []")
      (auto simp: defs)
qed

lemma run_inside_namespaces_starts:
  assumes "run_inside_namespaces E K cfg fd h = Some (Inl (Replaced exe argv), h')"
    and valid: "hostname cfg \<noteq> [] \<longrightarrow> uts_namespace cfg" "mount_proc cfg \<longrightarrow> pid_namespace cfg \<and> mount_namespace cfg"
  shows "\<exists>bt s. starts (Replaced exe argv) h' (sb_program_args cfg) bt \<and> grants K h unconfined bt s \<and> confined cfg s"
proof -
  let ?probe = "if namespace_flags cfg = [] then Some (Inr True, h) else probe_unshare_flags K (namespace_flags cfg) h"
  let ?user = "\<lambda>direct. user_namespace cfg \<or> (namespace_flags cfg \<noteq> [] \<and> \<not> direct)"
  from assms obtain e1 h1 where p: "?probe = Some (e1, h1)"
    by (auto simp: run_inside_namespaces_def then_step_def bind_eq_Some_conv Let_def)
  then have "\<forall>c. e1 = Inl c \<longrightarrow> not_replaced c" by (auto split: if_splits dest: probe_unshare_flags_not_replaced)
  with assms p obtain direct where d: "e1 = Inr direct"
    by (cases e1) (auto simp: run_inside_namespaces_def then_step_def Let_def)
  have g1: "grants K h unconfined h1 unconfined"
    using p d by (auto simp: grants_quiet unconfined_def split: if_splits intro: probe_unshare_flags_grants)
  obtain m h2 where m: "(if ?user direct then map_current_user_to_root E K fd h1 else (Inr True, h1)) = (m, h2)" by fastforce
  then have mc: "\<forall>c. m = Inl c \<longrightarrow> not_replaced c" by (auto split: if_splits dest: map_current_user_to_root_not_replaced)
  obtain ok h3 where r: "run_setup E K fd (setup_calls cfg) h2 = (ok, h3)" by fastforce
  have s: "m = Inr True \<and> ok \<and> start_program E K cfg fd h3 = Some (Inl (Replaced exe argv), h')"
    using assms(1) p d m r mc
    by (cases m) (auto simp: run_inside_namespaces_def then_step_def Let_def split: if_splits)
  define s2 where "s2 = (if ?user direct then as_root unconfined else unconfined)"
  have g2: "grants K h1 unconfined h2 s2"
    using m s by (auto simp: s2_def grants_quiet intro: map_current_user_to_root_grants split: if_splits)
  have g3: "grants K h2 s2 h3 (fold (granted \<circ> fst) (setup_calls cfg) s2)"
    using r s by (simp add: run_setup_grants)
  have "confined cfg (program_started cfg (fold (granted \<circ> fst) (setup_calls cfg) s2))"
    using valid by (intro setup_confines) (auto simp: s2_def as_root_def unconfined_def)
  moreover obtain bt where "starts (Replaced exe argv) h' (sb_program_args cfg) bt"
    "grants K h3 (fold (granted \<circ> fst) (setup_calls cfg) s2) bt (program_started cfg (fold (granted \<circ> fst) (setup_calls cfg) s2))"
    using start_program_starts s by blast
  ultimately show ?thesis using g1 g2 g3 by (blast intro: grants_trans)
qed

text \<open>Nothing else that runs for \<open>sandbox\<close> ever starts a program.\<close>

lemma cgroup_cleanup_cases:
  assumes "cgroup_cleanup E K path h = (r, h')"
  shows "r = Inl Aborted \<or> r = Inr ()"
  using assms
  by (auto simp: cgroup_cleanup_def and_then_def split: if_splits prod.splits sum.splits dest!: fs_exists_cases)

lemma leave_scope_not_replaced: "leave_scope E K path code h = (c, h') \<Longrightarrow> not_replaced c"
  using cgroup_cleanup_cases [of E K path h] by (auto simp: leave_scope_def split: prod.splits sum.splits)

lemma require_controllers_cases:
  "require_controllers K path ls h = (r, h') \<Longrightarrow> extends h h' \<and> (r = Inl Aborted \<or> (\<exists>m. r = Inr m))"
proof (induction ls arbitrary: h)
  case (Cons l ls)
  obtain f c v where l: "l = (f, c, v)" by (cases l)
  obtain e h1 where e: "fs_exists K (path_append path f) h = (e, h1)" by fastforce
  show ?case
  proof (cases "e = Inr True")
    case True
    with Cons.prems e have "require_controllers K path ls h1 = (r, h')" by (simp add: l and_then_def)
    with Cons.IH fs_exists_cases [OF e] show ?thesis by (blast intro: extends_trans)
  next
    case False
    with fs_exists_cases [OF e] have "e = Inl Aborted \<or> e = Inr False" by auto
    with Cons.prems e have "h' = h1 \<and> (r = Inl Aborted \<or> (\<exists>m. r = Inr m))" by (elim disjE) (auto simp: l and_then_def)
    with fs_exists_cases [OF e] show ?thesis by simp
  qed
qed auto

lemma write_limits_extends: "write_limits E K path ls h = (r, h') \<Longrightarrow> extends h h'"
proof (induction ls arbitrary: h)
  case (Cons l ls)
  obtain f c v where l: "l = (f, c, v)" by (cases l)
  obtain m h1 where m: "write_text_file (E h) K (path_append path f) v h = (m, h1)" by fastforce
  have "extends h h1" using write_text_file_extends [of h "E h" K "path_append path f" v] m by simp
  with Cons m show ?case by (cases m) (auto simp: l intro: extends_trans)
qed simp

lemma remove_loop_extends: "extends h (remove_loop K path n h)"
proof (induction n arbitrary: h)
  case (Suc n)
  have "extends h (remove_loop K path n (emit c (h @ [a, b])))" for a b c
    by (rule extends_trans [OF _ Suc]) simp
  then show ?case by (simp add: syscall_def Let_def)
qed simp

lemma cgroup_cleanup_extends: "cgroup_cleanup E K path h = (r, h') \<Longrightarrow> extends h h'"
proof -
  assume c: "cgroup_cleanup E K path h = (r, h')"
  obtain e h1 where e: "fs_exists K (path_append path ''cgroup.kill'') h = (e, h1)" by fastforce
  have w: "extends h (snd (write_text_file (E h1) K (path_append path ''cgroup.kill'') ''1'' h1))"
    using fs_exists_cases [OF e] by (intro extends_trans [OF _ write_text_file_extends]) simp
  show ?thesis
    using c e fs_exists_cases [OF e] extends_trans [OF w remove_loop_extends] extends_trans [OF _ remove_loop_extends]
    by (auto simp: cgroup_cleanup_def and_then_def Let_def split: if_splits sum.splits)
qed

text \<open>An outcome of setting up the cgroup: an abort, or a result on a longer trace.\<close>

abbreviation set_up :: "trace \<Rightarrow> ('a step_end \<times> trace) \<Rightarrow> bool" where
  "set_up h x \<equiv> extends h (snd x) \<and> (fst x = Inl Aborted \<or> (\<exists>m. fst x = Inr m))"

lemma cgroup_undo_cases: "set_up h (cgroup_undo E K path err h)"
proof -
  obtain c h1 where c: "cgroup_cleanup E K path h = (c, h1)" by fastforce
  with cgroup_cleanup_cases [OF c] cgroup_cleanup_extends [OF c] show ?thesis
    by (auto simp: cgroup_undo_def and_then_def)
qed

lemma cgroup_populate_cases: "set_up h (cgroup_populate E K cfg path h)"
proof -
  obtain rq h1 where rq: "require_controllers K path (cgroup_limits cfg) h = (rq, h1)" by fastforce
  note rqc = require_controllers_cases [OF rq]
  obtain wl h2 where wl: "write_limits E K path (cgroup_limits cfg) h1 = (wl, h2)" by fastforce
  note wle = write_limits_extends [OF wl]
  have u: "set_up h (cgroup_undo E K path err h1)" "set_up h (cgroup_undo E K path err h2)" for err
    using cgroup_undo_cases [of h1 E K path err] cgroup_undo_cases [of h2 E K path err] rqc wle
    by (blast intro: extends_trans)+
  from rqc wle have "extends h h2" by (blast intro: extends_trans)
  with rqc u show ?thesis
    unfolding cgroup_populate_def rq and_then_def prod.case
    by (auto simp: wl simp del: not_None_eq split: sum.splits option.splits)
qed

lemma cgroup_create_cases: "set_up h (cgroup_create E K cfg h)"
proof -
  obtain mt h1 where 1: "cgroup_v2_mounted K h = (mt, h1)" "extends h h1"
    by (simp add: cgroup_v2_mounted_def syscall_def)
  obtain base h2 where 2: "current_cgroup_path K h1 = (base, h2)" "extends h1 h2"
    by (simp add: current_cgroup_path_def syscall_def)
  have "extends h h2" using 1(2) 2(2) by (rule extends_trans)
  moreover have "set_up h (cgroup_populate E K cfg path (h2 @ cs))" for path cs
    using cgroup_populate_cases [of "h2 @ cs" E K cfg path] \<open>extends h h2\<close>
    by (blast intro: extends_trans extends_append)
  ultimately show ?thesis
    using 1 2 unfolding cgroup_create_def Let_def syscall_def prod.case
    by (simp add: prod.case_distrib split: option.split)
qed

lemma supervise_not_replaced: "supervise E K path w fd r wr h = Some (c, h') \<Longrightarrow> not_replaced c"
  unfolding supervise_def Let_def
  by (auto split: prod.splits option.splits if_splits dest: leave_scope_not_replaced)

lemma then_step_InlE:
  assumes "then_step m f = Some (Inl c, h')"
  obtains "m = Some (Inl c, h')" | a h1 where "m = Some (Inr a, h1)" "f a h1 = Some (Inl c, h')"
proof -
  from assms obtain e h1 where e: "m = Some (e, h1)" by (auto simp: then_step_def bind_eq_Some_conv)
  with assms that show thesis by (cases e) (auto simp: then_step_def)
qed

lemma probe_namespace_flag_not_replaced: "probe_namespace_flag K flag h = Some (Inl c, h') \<Longrightarrow> not_replaced c"
  unfolding probe_namespace_flag_def
  by (erule then_step_InlE) (auto split: if_splits dest: probe_unshare_flags_not_replaced)

lemma detect_namespaces_not_replaced: "detect_namespaces K h = Some (Inl c, h') \<Longrightarrow> not_replaced c"
  unfolding detect_namespaces_def
  by (elim then_step_InlE)
    (auto split: if_splits elim!: then_step_InlE dest: probe_namespace_flag_not_replaced dest!: fs_exists_cases)

lemma render_isolation_status_not_replaced: "render_isolation_status K h = Some (Inl c, h') \<Longrightarrow> not_replaced c"
  unfolding render_isolation_status_def detect_isolation_capabilities_def
  by (elim then_step_InlE) (auto split: prod.splits dest: detect_namespaces_not_replaced)

text \<open>
  The worker starts the program inside the configuration, which it enters after the read that its
  supervisor answers.
\<close>

definition released_into :: "kernel \<Rightarrow> SandboxConfig \<Rightarrow> trace \<Rightarrow> trace \<Rightarrow> bool" where
  "released_into K cfg h bt \<longleftrightarrow>
     (\<exists>pre rd cs. bt = h @ pre @ Read rd 1 # cs \<and> ret (K (h @ pre) (Read rd 1)) = 1 \<and>
        confined cfg (isolation_run K (h @ pre @ [Read rd 1]) cs unconfined))"

lemma released_into_earlier: "released_into K cfg (h @ ds) bt \<Longrightarrow> released_into K cfg h bt"
  unfolding released_into_def by (metis append_assoc)

lemma sandbox_worker_starts:
  assumes "sandbox_worker E K cfg fd rd wr h = Some (Replaced exe argv, h')"
    and valid: "hostname cfg \<noteq> [] \<longrightarrow> uts_namespace cfg" "mount_proc cfg \<longrightarrow> pid_namespace cfg \<and> mount_namespace cfg"
  shows "\<exists>bt. starts (Replaced exe argv) h' (sb_program_args cfg) bt \<and> released_into K cfg h bt"
proof -
  obtain t h1 where t: "tie_to_supervisor K h = (t, h1)" by fastforce
  note tie = tie_to_supervisor_cases [OF t]
  with assms(1) t obtain n h2 e where r: "sync_read K rd (close_fd wr h1) = Some (n, h2)" "n = 1"
    "run_inside_namespaces E K cfg fd (close_fd rd h2) = Some (e, h')"
    "Replaced exe argv = (case e of Inl c \<Rightarrow> c | Inr code \<Rightarrow> Exited code)"
    by (cases t) (auto simp: sandbox_worker_def bind_eq_Some_conv Let_def split: if_splits)
  then have "e = Inl (Replaced exe argv)" by (cases e) simp_all
  note r = r(1,2) r(3) [unfolded this]
  obtain g where g: "h2 = g @ [Read rd 1]" "extends (close_fd wr h1) g" "ret (K g (Read rd 1)) = 1"
    using sync_read_last [OF r(1)] r(2) by auto
  have "extends h g" using tie g(2) by (blast intro: extends_trans quiet_extends quiet_close_fd)
  then obtain pre where pre: "g = h @ pre" by (auto simp: extends_def)
  from run_inside_namespaces_starts [OF r(3) valid] obtain bt s where b: "starts (Replaced exe argv) h' (sb_program_args cfg) bt"
    "grants K (close_fd rd h2) unconfined bt s" "confined cfg s" by blast
  have "grants K h2 unconfined (close_fd rd h2) unconfined" by (rule grants_quiet) simp
  from grants_trans [OF this b(2)] obtain cs where cs: "bt = h2 @ cs" "isolation_run K h2 cs unconfined = s"
    by (auto simp: grants_def)
  then have "released_into K cfg h bt"
    unfolding released_into_def
    using g b(3) by (intro exI [of _ pre] exI [of _ rd] exI [of _ cs]) (simp add: pre)
  with b(1) show ?thesis by blast
qed

lemma run_sandbox_starts:
  assumes "run_sandbox E K cfg fd h = Some (Replaced exe argv, h')"
    and valid: "hostname cfg \<noteq> [] \<longrightarrow> uts_namespace cfg" "mount_proc cfg \<longrightarrow> pid_namespace cfg \<and> mount_namespace cfg"
  shows "\<exists>bt. starts (Replaced exe argv) h' (sb_program_args cfg) bt \<and> released_into K cfg h bt"
proof -
  obtain r h1 where c: "cgroup_create E K cfg h = (r, h1)" by fastforce
  note cr = cgroup_create_cases [of h E K cfg, unfolded c fst_conv snd_conv]
  have no: "leave_scope E K path code g \<noteq> (Replaced exe argv, h')" for path code g
    using leave_scope_not_replaced by blast
  from assms(1) c cr obtain rd wr where w: "sandbox_worker E K cfg fd rd wr (h1 @ [MkPipe, Fork 0]) = Some (Replaced exe argv, h')"
    using supervise_not_replaced by (fastforce simp: run_sandbox_def syscall_def Let_def no split: if_splits option.splits)
  obtain ds where "h1 @ [MkPipe, Fork 0] = h @ ds" using cr by (auto simp: extends_def)
  with sandbox_worker_starts [OF w valid] show ?thesis by (metis released_into_earlier)
qed

section \<open>Directories\<close>

text \<open>
  The directories that a sequence of calls has created and not asked to remove since, starting from
  the directories \<open>D\<close>.
\<close>

fun dirs_left :: "kernel \<Rightarrow> trace \<Rightarrow> trace \<Rightarrow> string list \<Rightarrow> string list" where
  "dirs_left K h [] D = D"
| "dirs_left K h (c # cs) D =
     dirs_left K (h @ [c]) cs
       (case c of
          Isolation (Create_directory p) \<Rightarrow> if ret (K h c) = 0 then p # D else D
        | Isolation (Remove p) \<Rightarrow> removeAll p D
        | _ \<Rightarrow> D)"

definition neutral :: "syscall \<Rightarrow> bool" where
  "neutral c =
     (case c of Isolation (Create_directory p) \<Rightarrow> False | Isolation (Remove p) \<Rightarrow> False | _ \<Rightarrow> True)"

text \<open>From \<open>h\<close> to \<open>h'\<close> the set of such directories changes from \<open>D\<close> to \<open>D'\<close>.\<close>

definition dirs_step :: "kernel \<Rightarrow> trace \<Rightarrow> string list \<Rightarrow> trace \<Rightarrow> string list \<Rightarrow> bool" where
  "dirs_step K h D h' D' \<longleftrightarrow> (\<exists>cs. h' = h @ cs \<and> dirs_left K h cs D = D')"

lemma dirs_left_append: "dirs_left K h (as @ bs) D = dirs_left K (h @ as) bs (dirs_left K h as D)"
  by (induction "as" arbitrary: h D) auto

lemma dirs_step_trans: "dirs_step K a D b D1 \<Longrightarrow> dirs_step K b D1 c D2 \<Longrightarrow> dirs_step K a D c D2"
  by (auto simp: dirs_step_def dirs_left_append)

lemma dirs_step_refl [simp]: "dirs_step K h D h D"
  by (simp add: dirs_step_def)

lemma dirs_step_neutral: "neutral c \<Longrightarrow> dirs_step K h D h1 D1 \<Longrightarrow> dirs_step K h D (h1 @ [c]) D1"
  by (auto simp: dirs_step_def dirs_left_append neutral_def split: syscall.splits isolation_call.splits)

lemma dirs_step_first: "neutral c \<Longrightarrow> dirs_step K (h @ [c]) D h1 D1 \<Longrightarrow> dirs_step K h D h1 D1"
  by (rule dirs_step_trans [OF dirs_step_neutral [OF _ dirs_step_refl]])

lemma neutral_simps [simp]:
  "neutral (Open p fl m)" "neutral (Write fd d)" "neutral (Close fd)" "neutral (WriteAll fd d)" "neutral (Waitpid i wfl)"
  "neutral (Kill i j)" "neutral MkPipe" "neutral (Fork n)" "neutral Getpid" "neutral (Isolation Steady_clock)"
  "neutral (Isolation (Exists p))" "neutral (Isolation (Statfs p))" "neutral (Isolation (Read_text p))"
  "neutral (Isolation (Usleep i))"
  by (simp_all add: neutral_def)

lemma dirs_step_emit [simp]: "neutral c \<Longrightarrow> dirs_step K h D h1 D1 \<Longrightarrow> dirs_step K h D (emit c h1) D1"
  by (simp add: emit_def dirs_step_neutral)

lemma dirs_step_close_fd [simp]: "dirs_step K h D h1 D1 \<Longrightarrow> dirs_step K h D (close_fd fd h1) D1"
  by (simp add: close_fd_def)

lemma dirs_step_message [simp]: "dirs_step K h D h1 D1 \<Longrightarrow> dirs_step K h D (sandbox_message fd m h1) D1"
  by (simp add: sandbox_message_def)

lemma write_text_file_dirs: "dirs_step K h D (snd (write_text_file e K path d h)) D"
  by (simp add: write_text_file_def syscall_def Let_def dirs_step_neutral)

lemma wait_eintr_dirs:
  assumes "wait_eintr K pid h = Some r"
  shows "dirs_step K h D (snd r) D"
proof (rule wait_eintr.raw_induct [where P = "\<lambda>K pid h r. dirs_step K h D (snd r) D", OF _ assms])
  fix f K pid h r
  assume IH: "\<And>K pid h r. f K pid h = Some r \<Longrightarrow> dirs_step K h D (snd r) D"
    and body: "(let (r, h1) = syscall K (Waitpid pid []) h
      in if ret r = -1 \<and> errno r = EINTR then f K pid h1 else Some (r, h1)) = Some r"
  show "dirs_step K h D (snd r) D"
    using body unfolding syscall_def Let_def prod.case
    by (auto split: if_splits dest!: IH elim!: dirs_step_first [rotated] intro!: dirs_step_neutral)
qed

lemma fs_exists_dirs: "fs_exists K path h = (r, h1) \<Longrightarrow> dirs_step K h D h1 D"
  by (auto simp: fs_exists_def syscall_def dirs_step_neutral split: if_splits)

lemma remove_loop_dirs: "dirs_step K h D (remove_loop K path (Suc n) h) (removeAll (c_str path) D)"
proof (induction n arbitrary: h D)
  case base: 0
  let ?h1 = "h @ [Isolation (Remove (c_str path))]"
  have "dirs_step K h D ?h1 (removeAll (c_str path) D)" by (simp add: dirs_step_def)
  moreover from this have "dirs_step K h D (?h1 @ [Isolation (Exists (c_str path))]) (removeAll (c_str path) D)"
    by (rule dirs_step_neutral [rotated]) simp
  ultimately show ?case by (simp add: syscall_def Let_def)
next
  case (Suc n)
  let ?h1 = "h @ [Isolation (Remove (c_str path))]"
  let ?h2 = "?h1 @ [Isolation (Exists (c_str path))]"
  have 1: "dirs_step K h D ?h1 (removeAll (c_str path) D)" by (simp add: dirs_step_def)
  have 2: "dirs_step K h D ?h2 (removeAll (c_str path) D)" by (rule dirs_step_neutral [OF _ 1]) simp
  have "dirs_step K h D (remove_loop K path (Suc n) (emit (Isolation (Usleep 1000)) ?h2)) (removeAll (c_str path) (removeAll (c_str path) D))"
    by (rule dirs_step_trans [OF _ Suc]) (intro dirs_step_emit 2, simp)
  with 1 2 show ?case
    by (subst remove_loop.simps) (simp add: syscall_def Let_def del: remove_loop.simps)
qed

lemma cgroup_cleanup_dirs:
  assumes "cgroup_cleanup E K path h = (Inr u, h')"
  shows "dirs_step K h D h' (if path = [] then D else removeAll (c_str path) D)"
proof (cases "path = []")
  case True
  with assms show ?thesis by (simp add: cgroup_cleanup_def)
next
  case False
  obtain e h1 where e: "fs_exists K (path_append path ''cgroup.kill'') h = (e, h1)" by fastforce
  from False assms e obtain there where there: "e = Inr there"
    by (cases e) (auto simp: cgroup_cleanup_def and_then_def)
  define h2 where "h2 = (if there then snd (write_text_file (E h1) K (path_append path ''cgroup.kill'') ''1'' h1) else h1)"
  have "dirs_step K h D h2 D"
    unfolding h2_def using dirs_step_trans [OF fs_exists_dirs [OF e] write_text_file_dirs] fs_exists_dirs [OF e] by simp
  moreover have "h' = remove_loop K path (Suc 19) h2"
    using False assms e there by (simp add: cgroup_cleanup_def and_then_def h2_def numeral_nat del: remove_loop.simps)
  ultimately show ?thesis using dirs_step_trans remove_loop_dirs False by (metis (full_types))
qed

lemma require_controllers_dirs: "require_controllers K path ls h = (r, h') \<Longrightarrow> dirs_step K h D h' D"
proof (induction ls arbitrary: h)
  case (Cons l ls)
  obtain f c v where l: "l = (f, c, v)" by (cases l)
  obtain e h1 where e: "fs_exists K (path_append path f) h = (e, h1)" by fastforce
  note d = fs_exists_dirs [OF e, of D]
  show ?case
  proof (cases "e = Inr True")
    case True
    with Cons.prems e have "require_controllers K path ls h1 = (r, h')" by (simp add: l and_then_def)
    from dirs_step_trans [OF d Cons.IH [OF this]] show ?thesis .
  next
    case False
    with Cons.prems e have "h' = h1" by (cases e) (auto simp: l and_then_def)
    with d show ?thesis by simp
  qed
qed simp

lemma write_limits_dirs: "write_limits E K path ls h = (r, h') \<Longrightarrow> dirs_step K h D h' D"
proof (induction ls arbitrary: h)
  case (Cons l ls)
  obtain f c v where l: "l = (f, c, v)" by (cases l)
  obtain m h1 where m: "write_text_file (E h) K (path_append path f) v h = (m, h1)" by fastforce
  have "dirs_step K h D h1 D" using write_text_file_dirs [of K h D "E h" "path_append path f" v] m by simp
  with Cons m show ?case by (cases m) (auto simp: l intro: dirs_step_trans)
qed simp

text \<open>The directories that are left while a scope holds \<open>path\<close>.\<close>

definition scope_dirs :: "string \<Rightarrow> string list" where
  "scope_dirs path = (if path = [] then [] else [c_str path])"

lemma cgroup_undo_dirs:
  assumes "cgroup_undo E K path err h = (Inr x, h')" "path \<noteq> []"
  shows "snd x = [] \<and> dirs_step K h [c_str path] h' []"
proof -
  obtain c h1 where c: "cgroup_cleanup E K path h = (c, h1)" by fastforce
  with assms obtain u where "c = Inr u" "x = (Some err, [])" "h' = h1"
    by (cases c) (auto simp: cgroup_undo_def and_then_def)
  with cgroup_cleanup_dirs [of E K path h u h1 "[c_str path]"] c assms(2) show ?thesis by simp
qed

lemma cgroup_populate_dirs:
  assumes "cgroup_populate E K cfg path h = (Inr x, h')" "path \<noteq> []"
  shows "dirs_step K h [c_str path] h' (scope_dirs (snd x))"
proof -
  obtain rq h1 where rq: "require_controllers K path (cgroup_limits cfg) h = (rq, h1)" by fastforce
  note d1 = require_controllers_dirs [OF rq, of "[c_str path]"]
  obtain wl h2 where wl: "write_limits E K path (cgroup_limits cfg) h1 = (wl, h2)" by fastforce
  note d2 = dirs_step_trans [OF d1 write_limits_dirs [OF wl]]
  have undo: ?thesis if "cgroup_undo E K path err g = (Inr x, h')" "dirs_step K h [c_str path] g [c_str path]" for err g
    using cgroup_undo_dirs [OF that(1) assms(2)] dirs_step_trans [OF that(2)] by (auto simp: scope_dirs_def)
  from assms rq wl consider err where "cgroup_undo E K path err h1 = (Inr x, h')"
    | err where "cgroup_undo E K path err h2 = (Inr x, h')" | "x = (None, path)" "h' = h2"
    by (cases rq; cases wl) (auto simp: cgroup_populate_def and_then_def split: option.splits)
  then show ?thesis
  proof cases
    case 3
    with d2 assms(2) show ?thesis by (simp add: scope_dirs_def)
  qed (blast intro: undo d1 d2)+
qed

lemma sandbox_cgroup_path_nonempty: "sandbox_cgroup_path base self nonce \<noteq> []"
  by (simp add: sandbox_cgroup_path_def path_append_def)

lemma cgroup_create_dirs:
  assumes "cgroup_create E K cfg h = (Inr x, h')"
  shows "dirs_step K h [] h' (scope_dirs (snd x))"
proof -
  obtain mt h1 where 1: "cgroup_v2_mounted K h = (mt, h1)" "dirs_step K h [] h1 []"
    by (simp add: cgroup_v2_mounted_def syscall_def dirs_step_neutral)
  obtain base h2 where 2: "current_cgroup_path K h1 = (base, h2)" "dirs_step K h1 [] h2 []"
    by (simp add: current_cgroup_path_def syscall_def dirs_step_neutral)
  define g where "g = (h2 @ [Isolation Steady_clock]) @ [Getpid]"
  have g: "dirs_step K h [] g []"
    unfolding g_def by (intro dirs_step_neutral dirs_step_trans [OF 1(2) 2(2)]) simp_all
  define path where "path b = sandbox_cgroup_path b (ret (K (h2 @ [Isolation Steady_clock]) Getpid)) (ret (K h2 (Isolation Steady_clock)))" for b
  let ?mk = "\<lambda>b. Isolation (Create_directory (c_str (path b)))"
  have mk: "dirs_step K h [] (g @ [?mk b]) (if ret (K g (?mk b)) = 0 then [c_str (path b)] else [])" for b
    by (rule dirs_step_trans [OF g]) (simp add: dirs_step_def)
  consider "snd x = []" "h' = h \<or> h' = h1 \<or> h' = h2" | b where "snd x = []" "h' = g @ [?mk b]" "ret (K g (?mk b)) \<noteq> 0"
    | b where "cgroup_populate E K cfg (path b) (g @ [?mk b]) = (Inr x, h')" "ret (K g (?mk b)) = 0"
  proof (cases base)
    case None
    with assms 1 2 that(1) show ?thesis by (auto simp: cgroup_create_def split: if_splits)
  next
    case (Some b)
    have "cgroup_create E K cfg h =
      (if \<not> has_memory_max cfg \<and> \<not> has_pids_max cfg \<and> \<not> has_cpu_percent cfg then (Inr (None, []), h)
       else if \<not> mt then (Inr (Some ''cgroup v2 is not mounted'', []), h1)
       else if ret (K g (?mk b)) \<noteq> 0 then 
         (Inr (Some (''create cgroup '' @ path b @ '': '' @ strerror (E (g @ [?mk b])) (errno (K g (?mk b)))), []), g @ [?mk b])
       else cgroup_populate E K cfg (path b) (g @ [?mk b]))"
      using Some by (simp add: cgroup_create_def 1 2 syscall_def Let_def g_def path_def)
    with assms that show ?thesis by (auto simp del: append_assoc split: if_splits)
  qed
  then show ?thesis
  proof cases
    case 1
    with \<open>dirs_step K h [] h1 []\<close> 2(2) show ?thesis by (auto simp: scope_dirs_def intro: dirs_step_trans)
  next
    case 2
    with mk show ?thesis by (auto simp: scope_dirs_def split: if_splits) (metis (full_types))
  next
    case 3
    have "path b \<noteq> []" by (simp add: path_def sandbox_cgroup_path_nonempty)
    from dirs_step_trans [OF mk [unfolded 3(2) if_True refl [THEN eqTrueI]]] cgroup_populate_dirs [OF 3(1) this] 3(2) mk [of b]
    show ?thesis by (auto intro: dirs_step_trans)
  qed
qed

lemma leave_scope_dirs:
  assumes "leave_scope E K path code h = (Exited n, h')" "dirs_step K g [] h (scope_dirs path)"
  shows "dirs_step K g [] h' []"
proof -
  obtain c h1 where c: "cgroup_cleanup E K path h = (c, h1)" by fastforce
  with assms(1) cgroup_cleanup_cases [OF c] have "c = Inr ()" "h1 = h'" by (auto simp: leave_scope_def)
  with cgroup_cleanup_dirs [of E K path h "()" h' "scope_dirs path"] c dirs_step_trans [OF assms(2)]
  show ?thesis by (auto simp: scope_dirs_def split: if_splits)
qed

lemma supervise_dirs:
  assumes "supervise E K path w fd rd wr h = Some (Exited n, h')" "dirs_step K g [] h (scope_dirs path)"
  shows "dirs_step K g [] h' []"
proof -
  define h1 where "h1 = close_fd rd h"
  obtain a h2 where a: "cgroup_attach (E h1) K path w h1 = (a, h2)" by fastforce
  have "dirs_step K h1 (scope_dirs path) h2 (scope_dirs path)"
    using a write_text_file_dirs [of K h1 "scope_dirs path" "E h1" "path_append path ''cgroup.procs''" "to_string w"]
    by (auto simp: cgroup_attach_def split: if_splits)
  moreover have "dirs_step K g [] h1 (scope_dirs path)" using assms(2) by (simp add: h1_def)
  ultimately have d2: "dirs_step K g [] h2 (scope_dirs path)" by (rule dirs_step_trans [rotated])
  show ?thesis
  proof (cases a)
    case (Some err)
    with assms(1) a d2 show ?thesis
      by (auto simp: supervise_def h1_def [symmetric] elim!: leave_scope_dirs)
  next
    case None
    let ?h3 = "h2 @ [Write wr [CHR 0x01]]"
    define h4 where "h4 = (if ret (K h2 (Write wr [CHR 0x01])) \<noteq> 1
        then emit (Kill w SIGKILL) (sandbox_message fd ''failed to release sandbox worker'' ?h3) else ?h3)"
    have d4: "dirs_step K g [] (close_fd wr h4) (scope_dirs path)"
      using d2 by (simp add: h4_def dirs_step_neutral)
    have "map_option (\<lambda>(r2, h5).
        if ret r2 = -1
        then leave_scope E K path 1 (sandbox_message fd (''waitpid: '' @ strerror (E h5) (errno r2)) h5)
        else leave_scope E K path (wait_status_to_exit_code (wstatus r2)) h5) (wait_eintr K w (close_fd wr h4)) = Some (Exited n, h')"
      using assms(1) unfolding supervise_def Let_def h1_def [symmetric] a None prod.case option.case syscall_def h4_def [symmetric] .
    then obtain r h5 where r: "wait_eintr K w (close_fd wr h4) = Some (r, h5)"
      and "leave_scope E K path (wait_status_to_exit_code (wstatus r)) h5 = (Exited n, h') \<or>
        (\<exists>m. leave_scope E K path 1 (sandbox_message fd m h5) = (Exited n, h'))"
      by (auto split: if_splits)
    moreover have "dirs_step K g [] h5 (scope_dirs path)"
      using dirs_step_trans [OF d4 wait_eintr_dirs [OF r]] by simp
    ultimately show ?thesis by (auto elim!: leave_scope_dirs)
  qed
qed

section \<open>Properties\<close>

lemma parse_sandbox_checked:
  assumes "parse_sandbox command = Inr cfg"
  shows "sandbox_valid cfg \<and>
    (\<not> sb_show_help cfg \<and> \<not> sb_show_status cfg \<longrightarrow>
       sb_program_args cfg \<noteq> [] \<and> (\<exists>opts. args command = ''sandbox'' # opts @ sb_program_args cfg) \<and>
       (mount_proc cfg \<longrightarrow> pid_namespace cfg \<and> mount_namespace cfg))"
proof -
  from assms obtain rest cfg1 sep where a: "args command = ''sandbox'' # tl (args command)"
    "sandbox_options new_sandbox_config (tl (args command)) = Inr (cfg1, sep, rest)"
    "cfg = cfg1 \<and> (sb_show_help cfg1 \<or> sb_show_status cfg1) \<or>
     cfg = cfg1\<lparr>sb_program_args := rest\<rparr> \<and> rest \<noteq> [] \<and> (mount_proc cfg1 \<longrightarrow> pid_namespace cfg1 \<and> mount_namespace cfg1)"
    by (cases "args command") (auto simp: parse_sandbox_def split: if_splits sum.splits)
  have "sandbox_valid new_sandbox_config" by (simp add: sandbox_valid_def new_sandbox_config_def)
  from sandbox_options_valid [OF a(2) this] obtain pre where v: "sandbox_valid cfg1" "tl (args command) = pre @ rest" by blast
  then have "sandbox_valid (cfg1\<lparr>sb_program_args := rest\<rparr>)" by (simp add: sandbox_valid_def)
  with a v show ?thesis by auto
qed

text \<open>
  C40. Only sensible sandboxes are accepted: a configuration that \<open>parse_sandbox\<close> accepts asks for help
  or for the status, or it names a program, which with its arguments is a tail of the command line,
  a fresh \<open>/proc\<close> only together with PID and mount namespaces, a CPU share between 1 and 1000 percent,
  a positive process limit, and a host name of at most 64 bytes together with a UTS namespace.
\<close>

theorem parse_sandbox_valid:
  assumes "parse_sandbox command = Inr cfg"
  shows "sandbox_valid cfg \<and>
    (\<not> sb_show_help cfg \<and> \<not> sb_show_status cfg \<longrightarrow>
       sb_program_args cfg \<noteq> [] \<and> (\<exists>opts. args command = ''sandbox'' # opts @ sb_program_args cfg) \<and>
       (mount_proc cfg \<longrightarrow> pid_namespace cfg \<and> mount_namespace cfg))"
  using parse_sandbox_checked [OF assms] .

definition demo_sandbox :: Command where
  "demo_sandbox = empty_command\<lparr>args := [''sandbox'', ''--all'', ''--cpu-percent'', ''50'', ''--'', ''ls'', ''-l'']\<rparr>"

theorem parse_sandbox_valid_witness:
  "\<exists>cfg. parse_sandbox demo_sandbox = Inr cfg \<and> sb_program_args cfg = [''ls'', ''-l''] \<and> cpu_percent cfg = 50 \<and>
     pid_namespace cfg \<and> sandbox_valid cfg"
proof -
  have "case parse_sandbox demo_sandbox of
      Inr cfg \<Rightarrow> sb_program_args cfg = [''ls'', ''-l''] \<and> cpu_percent cfg = 50 \<and> pid_namespace cfg | Inl _ \<Rightarrow> False"
    by code_simp
  then obtain cfg where c: "parse_sandbox demo_sandbox = Inr cfg"
    "sb_program_args cfg = [''ls'', ''-l'']" "cpu_percent cfg = 50" "pid_namespace cfg"
    by (auto split: sum.splits)
  from parse_sandbox_valid [OF c(1)] c show ?thesis by blast
qed

text \<open>
  C10. A sandboxed program starts only inside the namespaces that were asked for, and in the right
  order. When a process of \<open>sandbox\<close> becomes the program, it has executed exactly the program of the
  command line as its last call. Before that it had read the byte by which its supervisor releases
  it, and from there on the kernel's answers to its calls have put every namespace option in force:
  own mount namespace with all mounts made private inside it, own network and UTS namespaces, the host name
  set inside the latter, a process inside the new PID namespace with \<open>/proc\<close> mounted there, user and
  group root inside an own user namespace. Nothing was mounted and no host name was set outside the namespace that
  contains it. The limits of the cgroup and the contents of \<open>uid_map\<close> and \<open>gid_map\<close> are not part of
  this: the code does not look at the answers to those writes (see \<open>refused_limits_unnoticed\<close>).
\<close>

theorem sandbox_program_isolated:
  assumes "execute_sandbox_child E K command out err h = Some (Replaced exe argv, h')"
  shows "\<exists>cfg pre rd cs. parse_sandbox command = Inr cfg \<and> argv = sb_program_args cfg \<and>
    h' = h @ pre @ [Read rd 1] @ cs @ [Execv (c_str exe) (map c_str argv)] \<and>
    ret (K (h @ pre) (Read rd 1)) = 1 \<and>
    confined cfg (isolation_run K (h @ pre @ [Read rd 1]) cs unconfined)"
proof -
  from assms obtain cfg where c: "parse_sandbox command = Inr cfg"
    by (cases "parse_sandbox command") (auto simp: execute_sandbox_child_def)
  have no: "(case e of Inl c \<Rightarrow> (c, g) | Inr shown \<Rightarrow> (Exited 0, emit (WriteAll out shown) g)) \<noteq> (Replaced exe argv, h')"
    if "render_isolation_status K h = Some (e, g)" for e g
    using render_isolation_status_not_replaced that by (cases e) auto
  with assms c have r: "run_sandbox E K cfg err h = Some (Replaced exe argv, h')" "\<not> sb_show_help cfg" "\<not> sb_show_status cfg"
    by (auto simp: execute_sandbox_child_def split: if_splits)
  from parse_sandbox_checked [OF c] r(2,3) have valid:
    "hostname cfg \<noteq> [] \<longrightarrow> uts_namespace cfg" "mount_proc cfg \<longrightarrow> pid_namespace cfg \<and> mount_namespace cfg"
    by (auto simp: sandbox_valid_def)
  from run_sandbox_starts [OF r(1) valid] obtain bt where "argv = sb_program_args cfg"
    "h' = bt @ [Execv (c_str exe) (map c_str argv)]" "released_into K cfg h bt" by (auto simp: starts_def)
  with c show ?thesis unfolding released_into_def by auto
qed

text \<open>
  A kernel in the worker of a sandbox: the fork after the pipe answers 0, the probe of the
  namespaces succeeds in its own child, and the program can be executed.
\<close>

definition worker_kernel :: kernel where
  "worker_kernel h c =
     (case c of
        Fork _ \<Rightarrow>
          if h \<noteq> [] \<and> (last h = MkPipe \<or> last h = Isolation (Sethostname ''box'')) then reply_ok else reply_ok\<lparr>ret := 300\<rparr>
      | Waitpid p _ \<Rightarrow> reply_ok\<lparr>ret := p\<rparr>
      | Read _ _ \<Rightarrow> reply_ok\<lparr>ret := 1, bytes := [CHR 0x01]\<rparr>
      | Execv _ _ \<Rightarrow> reply_ok
      | _ \<Rightarrow> scripted_kernel [] h c)"

definition demo_all :: Command where
  "demo_all = empty_command\<lparr>args := [''sandbox'', ''--all'', ''--hostname'', ''box'', ''--'', ''cat'', ''-n'']\<rparr>"

theorem sandbox_program_isolated_witness:
  "\<exists>exe pre rd cs s. execute_sandbox_child (\<lambda>_. demo_environ) worker_kernel demo_all 1 2 [] =
       Some (Replaced exe [''cat'', ''-n''], pre @ [Read rd 1] @ cs @ [Execv (c_str exe) [''cat'', ''-n'']]) \<and>
     s = isolation_run worker_kernel (pre @ [Read rd 1]) cs unconfined \<and>
     own_spaces s \<supseteq> {CLONE_NEWUSER, CLONE_NEWNS, CLONE_NEWNET, CLONE_NEWUTS, CLONE_NEWPID} \<and>
     uts_name s = Some ''box'' \<and> fresh_proc s \<and> root_user s \<and> \<not> host_changed s"
proof -
  have "case execute_sandbox_child (\<lambda>_. demo_environ) worker_kernel demo_all 1 2 [] of
      Some (Replaced exe argv, h') \<Rightarrow> argv = [''cat'', ''-n''] | _ \<Rightarrow> False"
    by code_simp
  then obtain exe h' where x: "execute_sandbox_child (\<lambda>_. demo_environ) worker_kernel demo_all 1 2 [] =
      Some (Replaced exe [''cat'', ''-n''], h')"
    by (auto split: option.splits child_end.splits)
  have o: "case parse_sandbox demo_all of
      Inr cfg \<Rightarrow> user_namespace cfg \<and> mount_namespace cfg \<and> network_namespace cfg \<and> uts_namespace cfg \<and> pid_namespace cfg \<and>
        mount_proc cfg \<and> hostname cfg = ''box'' | Inl _ \<Rightarrow> False"
    by code_simp
  from sandbox_program_isolated [OF x] obtain cfg pre rd cs where b: "parse_sandbox demo_all = Inr cfg"
    "h' = pre @ [Read rd 1] @ cs @ [Execv (c_str exe) (map c_str [''cat'', ''-n''])]"
    "confined cfg (isolation_run worker_kernel (pre @ [Read rd 1]) cs unconfined)" by auto
  have "map c_str [''cat'', ''-n''] = [''cat'', ''-n'']" by code_simp
  with x b o show ?thesis
    by (intro exI [of _ exe] exI [of _ pre] exI [of _ rd] exI [of _ cs]) (simp add: confined_def)
qed

text \<open>
  C21. A sandbox leaves no cgroup behind: whenever the supervisor returns (in a process to which
  \<open>fork\<close> does not answer 0), it has asked the kernel to remove every cgroup directory that it had
  created, on every path: missing controllers, refused limits, a failing \<open>pipe\<close>, \<open>fork\<close>, attachment or
  \<open>waitpid\<close>, and the normal end of the program.
\<close>

theorem sandbox_cgroup_removed:
  assumes "\<forall>g. ret (K g (Fork 0)) \<noteq> 0" "run_sandbox E K cfg err h = Some (Exited code, h')"
  shows "\<exists>cs. h' = h @ cs \<and> dirs_left K h cs [] = []"
proof -
  obtain r h1 where c: "cgroup_create E K cfg h = (r, h1)" by fastforce
  from assms(2) c cgroup_create_cases [of h E K cfg] obtain m path where r: "r = Inr (m, path)"
    by (cases r) (auto simp: run_sandbox_def)
  note d = cgroup_create_dirs [OF c [unfolded r], unfolded snd_conv]
  have d2: "dirs_step K h [] ((h1 @ [MkPipe]) @ [Fork 0]) (scope_dirs path)" "dirs_step K h [] (h1 @ [MkPipe]) (scope_dirs path)"
    using d by (simp_all only: dirs_step_neutral neutral_simps)
  have "dirs_step K h [] h' []"
  proof (cases m)
    case (Some e)
    with assms(2) c r d show ?thesis by (auto simp: run_sandbox_def elim!: leave_scope_dirs)
  next
    case None
    with assms c r d2 show ?thesis
      by (auto simp: run_sandbox_def syscall_def Let_def elim!: leave_scope_dirs supervise_dirs split: if_splits)
  qed
  then show ?thesis by (simp add: dirs_step_def)
qed

text \<open>A kernel with a delegated cgroup in which directories can be made.\<close>

definition cgroup_kernel :: kernel where
  "cgroup_kernel h c =
     (case c of
        Isolation (Statfs _) \<Rightarrow> reply_ok\<lparr>fs_type := 0x63677270\<rparr>
      | Isolation (Read_text _) \<Rightarrow> reply_ok\<lparr>bytes := ''0::/user'' @ [newline]\<rparr>
      | Isolation (Exists _) \<Rightarrow> reply_ok\<lparr>ret := 1\<rparr>
      | Isolation (Remove _) \<Rightarrow> reply_ok\<lparr>ret := 1\<rparr>
      | Write fd _ \<Rightarrow> if fd = 5 then reply_ok\<lparr>ret := -1, errno := 16\<rparr> else reply_ok\<lparr>ret := 1\<rparr>
      | Waitpid p _ \<Rightarrow> reply_ok\<lparr>ret := p\<rparr>
      | _ \<Rightarrow> scripted_kernel [] h c)"

definition demo_limited :: SandboxConfig where
  "demo_limited = new_sandbox_config\<lparr>has_pids_max := True, pids_max := 8, sb_program_args := [''cat'']\<rparr>"

theorem sandbox_cgroup_removed_witness:
  "\<exists>cs. run_sandbox (\<lambda>_. demo_environ) cgroup_kernel demo_limited 2 [] = Some (Exited 0, cs) \<and>
     Isolation (Create_directory ''/sys/fs/cgroup/user/myshell-100-0'') \<in> set cs \<and>
     dirs_left cgroup_kernel [] cs [] = []"
proof -
  have "case run_sandbox (\<lambda>_. demo_environ) cgroup_kernel demo_limited 2 [] of
      Some (Exited n, cs) \<Rightarrow> n = 0 \<and> Isolation (Create_directory ''/sys/fs/cgroup/user/myshell-100-0'') \<in> set cs | _ \<Rightarrow> False"
    by code_simp
  then obtain a cs where a: "run_sandbox (\<lambda>_. demo_environ) cgroup_kernel demo_limited 2 [] = Some (a, cs)"
    "case a of Exited n \<Rightarrow> n = 0 \<and> Isolation (Create_directory ''/sys/fs/cgroup/user/myshell-100-0'') \<in> set cs | _ \<Rightarrow> False"
    by (auto split: option.splits)
  then have x: "run_sandbox (\<lambda>_. demo_environ) cgroup_kernel demo_limited 2 [] = Some (Exited 0, cs)"
    "Isolation (Create_directory ''/sys/fs/cgroup/user/myshell-100-0'') \<in> set cs"
    by (cases a; simp)+
  have "\<forall>g. ret (cgroup_kernel g (Fork 0)) \<noteq> 0" by (simp add: cgroup_kernel_def scripted_kernel_def reply_ok_def)
  from sandbox_cgroup_removed [OF this x(1)] x show ?thesis by simp
qed

text \<open>
  The answers of the writes to cgroup files are not seen: on the kernel above, which refuses to
  attach the worker and to set its limits, the worker is released and the sandbox reports success.
\<close>

lemma refused_limits_unnoticed:
  "case run_sandbox (\<lambda>_. demo_environ) cgroup_kernel demo_limited 2 [] of
     Some (Exited n, cs) \<Rightarrow> n = 0 \<and> Write 11 [CHR 0x01] \<in> set cs \<and> Write 5 ''8'' \<in> set cs \<and> Write 5 ''200'' \<in> set cs
   | _ \<Rightarrow> False"
  by code_simp

text \<open>The argument behind \<open>--status\<close> is skipped: an unknown option there is not reported.\<close>

lemma status_skips_argument:
  "sandbox_options new_sandbox_config [''--status'', ''--bogus''] = Inr (new_sandbox_config\<lparr>sb_show_status := True\<rparr>, False, [])"
  by code_simp

end
