(* ===== verification/Test_Programs.thy ===== *)
theory Test_Programs
  imports Resource_Control Sandbox Trace
begin

text \<open>
  The programs that check the front ends: the fuzz target \<open>fuzz/parser_fuzzer.cpp\<close>, the round of the random
  test \<open>tests/parser_fuzz_smoke.cpp\<close>, and the assertions of the smoke tests \<open>tests/parser_smoke.cpp\<close>,
  \<open>tests/resource_control_smoke.cpp\<close>, \<open>tests/sandbox_smoke.cpp\<close> and \<open>tests/trace_smoke.cpp\<close>. The fuzzed
  programs are shown never to abort, for every input. The smoke tests pass on the model: they compare it
  with what the authors expect of the code.
\<close>

section \<open>Fuzzing\<close>

text \<open>How a test program ends: \<open>std::abort\<close> and a failed \<open>assert\<close> do not return.\<close>

datatype program_end = Returned int | Aborted

definition check_plan :: "ExecutionPlan \<Rightarrow> bool" where
  "check_plan p \<longleftrightarrow> list_all (\<lambda>step. commands (pipeline step) \<noteq> [] \<and>
     list_all (\<lambda>command. args command \<noteq> []) (commands (pipeline step))) (steps p)"

definition LLVMFuzzerTestOneInput :: "string \<Rightarrow> program_end option" where
  "LLVMFuzzerTestOneInput input =
     (if 4096 < length input then Some (Returned 0)
      else let lexed = lex input
        in if \<not> lex_ok lexed then Some (Returned 0)
           else if lex_tokens lexed = [] \<or> tok_type (last (lex_tokens lexed)) \<noteq> End then Some Aborted
           else Option.bind (parse (lex_tokens lexed)) (\<lambda>parsed.
             Some (if parse_ok parsed \<and> \<not> check_plan (plan parsed) then Aborted else Returned 0)))"

text \<open>One iteration of the random test, on the text that it has drawn.\<close>

definition fuzz_iteration :: "string \<Rightarrow> program_end option" where
  "fuzz_iteration input =
     (let lexed = lex input
      in if \<not> lex_ok lexed then Some (Returned 0)
         else if \<not> (lex_tokens lexed \<noteq> [] \<and> tok_type (last (lex_tokens lexed)) = End) then Some Aborted
         else Option.bind (parse (lex_tokens lexed)) (\<lambda>parsed.
           if parse_ok parsed \<and> \<not> check_plan (plan parsed) then Some Aborted
           else Option.bind (parse_line input) (\<lambda>reparsed.
             Some (if parse_ok reparsed \<noteq> parse_ok parsed \<or>
                      parse_ok parsed \<and> length (steps (plan reparsed)) \<noteq> length (steps (plan parsed))
                   then Aborted else Returned 0))))"

lemma check_plan_wf: "plan_wf (steps p) \<Longrightarrow> check_plan p"
  by (simp add: check_plan_def plan_wf_def step_wf_def command_wf_def list_all_iff)

text \<open>
  C24. Fuzzing cannot find a failure: for every input text, of any length and with any bytes, the lexer and the
  parser return, the tokens end in an end token, an accepted plan has no empty pipeline and no empty command, and
  parsing the line gives what parsing its tokens gives. So neither the fuzz target nor the random test
  aborts or loops.
\<close>

theorem fuzz_never_aborts: "LLVMFuzzerTestOneInput input = Some (Returned 0) \<and> fuzz_iteration input = Some (Returned 0)"
proof (cases "lex_ok (lex input)")
  case True
  obtain us e where ue: "lex_tokens (lex input) = us @ [e]" "token_stream us e" using lex_token_stream [OF True] by blast
  obtain r where r: "parse (lex_tokens (lex input)) = Some r" "parse_ok r \<Longrightarrow> check_plan (plan r)"
    using parse_lexed [OF True] check_plan_wf by metis
  have l: "lex_tokens (lex input) \<noteq> []" "tok_type (last (lex_tokens (lex input))) = End"
    using ue by (simp_all add: token_stream_def)
  have "parse_line input = Some r" using True r(1) by (simp add: parse_line_def)
  with True r l show ?thesis by (auto simp: LLVMFuzzerTestOneInput_def fuzz_iteration_def)
qed (simp add: LLVMFuzzerTestOneInput_def fuzz_iteration_def)


section \<open>Smoke tests\<close>

abbreviation command_of :: "string list \<Rightarrow> Command" where
  "command_of xs \<equiv> empty_command\<lparr>args := xs\<rparr>"

definition parser_smoke :: bool where
  "parser_smoke \<longleftrightarrow>
     (let lexed = lex (''echo '' @ [dquote] @ ''hello world'' @ [dquote] @ ''|grep hello>>output.txt''); ts = lex_tokens lexed
      in lex_ok lexed \<and> length ts = 8 \<and> tok_type (ts ! 0) = Word \<and> tok_text (ts ! 0) = ''echo'' \<and>
         tok_type (ts ! 1) = Word \<and> tok_text (ts ! 1) = ''hello world'' \<and> tok_type (ts ! 2) = Pipe \<and>
         tok_type (ts ! 5) = RedirectAppend) \<and>
     (case parse_line ''cat<input.txt|grep foo>out.txt&&echo ok||echo bad;pwd'' of None \<Rightarrow> False | Some parsed \<Rightarrow>
       (let ss = steps (plan parsed); cs = commands (pipeline (ss ! 0))
        in parse_ok parsed \<and> length ss = 4 \<and> length cs = 2 \<and> has_input_redirect (cs ! 0) \<and>
           input_file (cs ! 0) = ''input.txt'' \<and> has_output_redirect (cs ! 1) \<and> output_file (cs ! 1) = ''out.txt'' \<and>
           connector (ss ! 1) = And \<and> connector (ss ! 2) = Or \<and> connector (ss ! 3) = Always)) \<and>
     (case parse_line (''echo '' @ [squote, squote] @ '' '' @ [dquote, dquote]) of None \<Rightarrow> False | Some parsed \<Rightarrow>
       (let as = args (commands (pipeline (steps (plan parsed) ! 0)) ! 0)
        in parse_ok parsed \<and> length as = 3 \<and> as ! 1 = [] \<and> as ! 2 = [])) \<and>
     (case parse_line ''echo foo2>out.txt'' of None \<Rightarrow> False | Some parsed \<Rightarrow>
       (let command = commands (pipeline (steps (plan parsed) ! 0)) ! 0
        in parse_ok parsed \<and> length (args command) = 2 \<and> args command ! 1 = ''foo2'' \<and>
           has_output_redirect command \<and> \<not> has_error_redirect command)) \<and>
     (case parse_line ''echo hi |'' of None \<Rightarrow> False | Some parsed \<Rightarrow> \<not> parse_ok parsed) \<and>
     (case parse_line (''echo '' @ [dquote] @ ''unterminated'') of None \<Rightarrow> False | Some parsed \<Rightarrow> \<not> parse_ok parsed) \<and>
     (let lexed = lex ''sleep 1&echo done''
      in lex_ok lexed \<and> tok_type (lex_tokens lexed ! 2) = Background \<and>
         (case parse (lex_tokens lexed) of None \<Rightarrow> False | Some parsed \<Rightarrow>
           (let ss = steps (plan parsed)
            in parse_ok parsed \<and> length ss = 2 \<and> background (pipeline (ss ! 0)) \<and> \<not> background (pipeline (ss ! 1)) \<and>
               connector (ss ! 1) = Always)))"

definition resource_control_smoke :: bool where
  "resource_control_smoke \<longleftrightarrow>
     (let parsed = parse_resource_run (command_of [''run'', ''--max-memory'', ''64M'', ''--max-fds'', ''32'', ''--cpu-time'', ''2'',
            ''--core-size'', ''0'', ''--nice'', ''10'', ''--'', ''/bin/echo'', ''hello'']); c = run_config parsed
      in run_ok parsed \<and> has_max_memory c \<and> max_memory_bytes c = 64 * 1024 * 1024 \<and> has_max_fds c \<and> max_fds c = 32 \<and>
         has_cpu_time c \<and> cpu_time_seconds c = 2 \<and> has_core_size c \<and> core_size_bytes c = 0 \<and>
         has_nice c \<and> nice_value c = 10 \<and> length (program_args c) = 2 \<and>
         program_args c ! 0 = ''/bin/echo'' \<and> program_args c ! 1 = ''hello'') \<and>
     (let parsed = parse_resource_run (command_of [''run'', ''--max-memory'', ''1GiB'', ''/bin/true''])
      in run_ok parsed \<and> max_memory_bytes (run_config parsed) = 1024 * 1024 * 1024) \<and>
     \<not> run_ok (parse_resource_run (command_of [''run'', ''--max-fds'', ''0'', ''/bin/true''])) \<and>
     \<not> run_ok (parse_resource_run (command_of [''run'', ''--nice'', ''20'', ''/bin/true''])) \<and>
     \<not> run_ok (parse_resource_run (command_of [''run'', ''--''])) \<and>
     (let parsed = parse_resource_run (command_of [''run'', ''--help'']) in run_ok parsed \<and> show_help (run_config parsed))"

definition sandbox_smoke :: bool where
  "sandbox_smoke \<longleftrightarrow>
     (case parse_sandbox (command_of [''sandbox'', ''--user'', ''--pid'', ''--mount'', ''--proc'', ''--hostname'', ''box'', ''--'', ''/bin/true'']) of
        Inl e \<Rightarrow> False
      | Inr c \<Rightarrow> user_namespace c \<and> pid_namespace c \<and> mount_namespace c \<and> mount_proc c \<and> uts_namespace c \<and>
          hostname c = ''box'' \<and> length (sb_program_args c) = 1 \<and> sb_program_args c ! 0 = ''/bin/true'') \<and>
     (case parse_sandbox (command_of [''sandbox'', ''--memory'', ''128M'', ''--pids'', ''32'', ''--cpu-percent'', ''150'', ''--'', ''/bin/true'']) of
        Inl e \<Rightarrow> False
      | Inr c \<Rightarrow> has_memory_max c \<and> memory_max_bytes c = 128 * 1024 * 1024 \<and> has_pids_max c \<and> pids_max c = 32 \<and>
          has_cpu_percent c \<and> cpu_percent c = 150) \<and>
     (case parse_sandbox (command_of [''sandbox'', ''--proc'', ''--'', ''/bin/true'']) of Inl e \<Rightarrow> True | Inr c \<Rightarrow> False) \<and>
     (case parse_sandbox (command_of [''sandbox'', ''--cpu-percent'', ''0'', ''--'', ''/bin/true'']) of Inl e \<Rightarrow> True | Inr c \<Rightarrow> False) \<and>
     (case parse_sandbox (command_of [''sandbox'', ''--all'', ''--'', ''/bin/echo'', ''ok'']) of
        Inl e \<Rightarrow> False
      | Inr c \<Rightarrow> user_namespace c \<and> pid_namespace c \<and> mount_namespace c \<and> network_namespace c \<and> uts_namespace c \<and> mount_proc c)"

definition trace_smoke :: bool where
  "trace_smoke \<longleftrightarrow>
     (case parse_trace (command_of [''trace'', ''--'', ''/bin/echo'', ''hello'']) of
        Inl e \<Rightarrow> False
      | Inr c \<Rightarrow> \<not> tr_summary c \<and> length (tr_program_args c) = 2 \<and> tr_program_args c ! 0 = ''/bin/echo'') \<and>
     (case parse_trace (command_of [''trace'', ''-c'', ''--'', ''/bin/true'']) of Inl e \<Rightarrow> False | Inr c \<Rightarrow> tr_summary c) \<and>
     (case parse_trace (command_of [''trace'', ''/bin/true'']) of Inl e \<Rightarrow> True | Inr c \<Rightarrow> False) \<and>
     (case parse_trace (command_of [''trace'', ''--'']) of Inl e \<Rightarrow> True | Inr c \<Rightarrow> False) \<and>
     (case parse_trace (command_of [''trace'', ''--help'']) of Inl e \<Rightarrow> False | Inr c \<Rightarrow> tr_show_help c)"

lemma smoke_tests_pass: parser_smoke resource_control_smoke sandbox_smoke trace_smoke
  by code_simp+

end
