(* ===== verification/Trace_Theorems.thy ===== *)
theory Trace_Theorems
  imports Trace
begin

text \<open>
  What the tracer promises: its statistics are the completed system calls of the tracee, the signals
  of the tracee are passed on and nothing else is.
\<close>

section \<open>Reading a trace\<close>

text \<open>The answers about system-call stops, the final wait statuses, and the signals of the resumptions.\<close>

fun stop_infos :: "kernel \<Rightarrow> trace \<Rightarrow> trace \<Rightarrow> reply list" where
  "stop_infos K h [] = []"
| "stop_infos K h (c # cs) =
     (case c of
        Ptrace PTRACE_GET_SYSCALL_INFO _ \<Rightarrow> if ret (K h c) = -1 then [] else [K h c]
      | _ \<Rightarrow> []) @ stop_infos K (h @ [c]) cs"

fun wait_statuses :: "kernel \<Rightarrow> trace \<Rightarrow> trace \<Rightarrow> 32 word list" where
  "wait_statuses K h [] = []"
| "wait_statuses K h (c # cs) =
     (case c of
        Waitpid _ _ \<Rightarrow> if ret (K h c) = -1 then [] else [wstatus (K h c)]
      | _ \<Rightarrow> []) @ wait_statuses K (h @ [c]) cs"

fun resumptions :: "trace \<Rightarrow> int list" where
  "resumptions [] = []"
| "resumptions (c # cs) = (case c of Ptrace (PTRACE_SYSCALL sig) _ \<Rightarrow> [sig] | _ \<Rightarrow> []) @ resumptions cs"

lemma trace_append:
  "stop_infos K h (as @ bs) = stop_infos K h as @ stop_infos K (h @ as) bs"
  "wait_statuses K h (as @ bs) = wait_statuses K h as @ wait_statuses K (h @ as) bs"
  "resumptions (as @ bs) = resumptions as @ resumptions bs"
  by (induction "as" arbitrary: h) simp_all

text \<open>The system calls that were entered and left again, with whether they failed.\<close>

fun completed :: "int option \<Rightarrow> reply list \<Rightarrow> (int \<times> bool) list" where
  "completed pending [] = []"
| "completed pending (r # rs) =
     (if info_op r = INFO_ENTRY then completed (Some (sint (info_nr r))) rs
      else case pending of
        Some nr \<Rightarrow>
          if info_op r = INFO_EXIT then (nr, is_error_return (sint (info_rval r))) # completed None rs
          else completed pending rs
      | None \<Rightarrow> completed pending rs)"

text \<open>The signal that a stop asks to be delivered: real signals only.\<close>

definition signal_after :: "32 word \<Rightarrow> int" where
  "signal_after st =
     (if WIFSTOPPED st \<and> WSTOPSIG st \<notin> {SYSCALL_STOP, SIGTRAP, SIGSTOP} then WSTOPSIG st else 0)"

definition count_all :: "syscall_map \<Rightarrow> (int \<times> bool) list \<Rightarrow> syscall_map" where
  "count_all m es = fold (\<lambda>(nr, err). record_call nr err) es m"

definition silent :: "kernel \<Rightarrow> trace \<Rightarrow> trace \<Rightarrow> bool" where
  "silent K h h' \<longleftrightarrow> (\<exists>cs. h' = h @ cs \<and> stop_infos K h cs = [] \<and> wait_statuses K h cs = [] \<and> resumptions cs = [])"

lemma silent_refl [simp]: "silent K h h"
  by (simp add: silent_def)

lemma silent_trans: "silent K a b \<Longrightarrow> silent K b c \<Longrightarrow> silent K a c"
  by (auto simp: silent_def trace_append)

lemma silent_write [simp]: "silent K h h' \<Longrightarrow> silent K h (emit (WriteAll fd s) h')"
  by (auto simp: silent_def emit_def trace_append)

lemma silent_message [simp]: "silent K h h' \<Longrightarrow> silent K h (trace_message fd s h')"
  by (simp add: trace_message_def)

lemma silent_summary [simp]: "silent K h h' \<Longrightarrow> silent K h (write_summary b fd st h')"
  by (simp add: write_summary_def)

lemma silent_peek: "silent K (h @ [Ptrace (PTRACE_PEEKDATA a) pid]) h' \<Longrightarrow> silent K h h'"
  by (rule silent_trans [of K h "h @ [Ptrace (PTRACE_PEEKDATA a) pid]"]) (simp_all add: silent_def)

lemma tracee_string_loop_silent: "silent K h (snd (tracee_string_loop K pid address limit v h))"
proof (induction K pid address limit v h rule: tracee_string_loop.induct)
  case (1 K pid address limit v h)
  let ?c = "Ptrace (PTRACE_PEEKDATA (address + of_nat (length v))) pid"
  obtain b v' where r: "render_bytes limit (word_bytes (peeked (K h ?c))) v = (b, v')" by fastforce
  have now: "silent K h (h @ [?c])" by (rule silent_peek [OF silent_refl])
  show ?case
  proof (cases "limit \<le> length v \<or> peeked (K h ?c) = -1 \<and> errno (K h ?c) \<noteq> 0 \<or> b")
    case True
    with now r show ?thesis by (subst tracee_string_loop.simps) (auto simp: syscall_def)
  next
    case False
    with 1 [OF _ refl, of "K h ?c" "h @ [?c]" b v'] r
    have "silent K (h @ [?c]) (snd (tracee_string_loop K pid address limit v' (h @ [?c])))"
      by (simp add: syscall_def)
    with False r silent_peek show ?thesis by (subst tracee_string_loop.simps) (auto simp: syscall_def)
  qed
qed

lemma format_arguments_silent: "format_arguments K pid nr a h = (s, h') \<Longrightarrow> silent K h h'"
proof -
  have q: "silent K h g" if "quoted_tracee_string K pid x h = (t, g)" for x t g
    using that tracee_string_loop_silent [of K h pid x 160 "[]"]
    by (auto simp: quoted_tracee_string_def read_tracee_string_def Let_def split: prod.splits if_splits)
  assume "format_arguments K pid nr a h = (s, h')"
  then show ?thesis
    by (auto simp: format_arguments_def Let_def split: if_splits prod.splits intro: q)
qed

lemma wait_eintr_statuses:
  assumes "wait_eintr K pid h = Some x"
  shows "\<exists>cs. snd x = h @ cs \<and> stop_infos K h cs = [] \<and> resumptions cs = [] \<and>
    wait_statuses K h cs = (if ret (fst x) = -1 then [] else [wstatus (fst x)])"
proof (rule wait_eintr.raw_induct [where P = "\<lambda>K pid h x. \<exists>cs. snd x = h @ cs \<and> stop_infos K h cs = [] \<and> resumptions cs = [] \<and>
    wait_statuses K h cs = (if ret (fst x) = -1 then [] else [wstatus (fst x)])", OF _ assms])
  fix f K pid h x
  let ?P = "\<lambda>K h x cs. snd x = h @ cs \<and> stop_infos K h cs = [] \<and> resumptions cs = [] \<and>
    wait_statuses K h cs = (if ret (fst x) = -1 then [] else [wstatus (fst x)])"
  assume IH: "\<And>K pid h x. f K pid h = Some x \<Longrightarrow> \<exists>cs. ?P K h x cs"
    and body: "(let (r, h1) = syscall K (Waitpid pid []) h
      in if ret r = -1 \<and> errno r = EINTR then f K pid h1 else Some (r, h1)) = Some x"
  define c where "c = Waitpid pid []"
  have c: "stop_infos K h (c # cs) = stop_infos K (h @ [c]) cs" "resumptions (c # cs) = resumptions cs"
    "wait_statuses K h (c # cs) = (if ret (K h c) = -1 then [] else [wstatus (K h c)]) @ wait_statuses K (h @ [c]) cs" for cs
    by (simp_all add: c_def)
  from body have b: "(if ret (K h c) = -1 \<and> errno (K h c) = EINTR then f K pid (h @ [c]) else Some (K h c, h @ [c])) = Some x"
    unfolding c_def syscall_def Let_def prod.case .
  show "\<exists>cs. ?P K h x cs"
  proof (cases "ret (K h c) = -1 \<and> errno (K h c) = EINTR")
    case True
    from b have "f K pid (h @ [c]) = Some x" unfolding if_P [OF True] .
    from IH [OF this] obtain cs where "?P K (h @ [c]) x cs" ..
    with True c show ?thesis by (intro exI [of _ "c # cs"]) simp
  next
    case False
    from b have "x = (K h c, h @ [c])" unfolding if_not_P [OF False] by simp
    then show ?thesis using c [of "[]"] by (intro exI [of _ "[c]"]) simp
  qed
qed

text \<open>
  What a run of the event loop from \<open>ts\<close> means: the statistics count the completed calls, and the
  resumptions deliver, after \<open>sig\<close>, the signals of the stops; after the last status there is none.
\<close>

definition loop_spec :: "kernel \<Rightarrow> int \<Rightarrow> trace_state \<Rightarrow> trace \<Rightarrow> syscall_map \<Rightarrow> trace \<Rightarrow> bool" where
  "loop_spec K sig ts h stats h' \<longleftrightarrow>
     (\<exists>cs sts lst. h' = h @ cs \<and>
        stats = count_all (ts_stats ts) (completed (map_option se_number (ts_current ts)) (stop_infos K h cs)) \<and>
        resumptions cs = sig # map signal_after sts \<and> wait_statuses K h cs = sts @ lst \<and> length lst \<le> 1)"

text \<open>The ways in which the loop ends in its first round.\<close>

lemma loop_spec_refused:
  assumes "silent K (h @ [Ptrace (PTRACE_SYSCALL sig) child]) h'"
  shows "loop_spec K sig ts h (ts_stats ts) h'"
proof -
  from assms obtain cs where "h' = (h @ [Ptrace (PTRACE_SYSCALL sig) child]) @ cs" "stop_infos K (h @ [Ptrace (PTRACE_SYSCALL sig) child]) cs = []"
    "wait_statuses K (h @ [Ptrace (PTRACE_SYSCALL sig) child]) cs = []" "resumptions cs = []"
    by (auto simp: silent_def)
  then show ?thesis
    unfolding loop_spec_def
    by (intro exI [of _ "Ptrace (PTRACE_SYSCALL sig) child # cs"] exI [of _ "[]"]) (simp add: count_all_def)
qed

text \<open>One round up to the answer of \<open>waitpid\<close>, and what follows it.\<close>

lemma loop_spec_round:
  assumes "wait_eintr K child (h @ [Ptrace (PTRACE_SYSCALL sig) child]) = Some (w, h2)"
  obtains cs where "h2 = h @ cs" "stop_infos K h cs = []" "resumptions cs = [sig]"
    "wait_statuses K h cs = (if ret w = -1 then [] else [wstatus w])"
proof -
  let ?c = "Ptrace (PTRACE_SYSCALL sig) child"
  from wait_eintr_statuses [OF assms] obtain cs where "h2 = (h @ [?c]) @ cs" "stop_infos K (h @ [?c]) cs = []" "resumptions cs = []"
    "wait_statuses K (h @ [?c]) cs = (if ret w = -1 then [] else [wstatus w])" by auto
  then show thesis by (intro that [of "?c # cs"]) simp_all
qed

lemma loop_spec_ended:
  assumes "wait_eintr K child (h @ [Ptrace (PTRACE_SYSCALL sig) child]) = Some (w, h2)" "silent K h2 h'"
  shows "loop_spec K sig ts h (ts_stats ts) h'"
proof -
  from assms(1) obtain cs where cs: "h2 = h @ cs" "stop_infos K h cs = []" "resumptions cs = [sig]"
    "wait_statuses K h cs = (if ret w = -1 then [] else [wstatus w])" by (rule loop_spec_round)
  from assms(2) obtain ds where ds: "h' = h2 @ ds" "stop_infos K h2 ds = []" "wait_statuses K h2 ds = []" "resumptions ds = []"
    by (auto simp: silent_def)
  show ?thesis
    unfolding loop_spec_def using cs ds
    by (intro exI [of _ "cs @ ds"] exI [of _ "[]"] exI [of _ "wait_statuses K h cs"])
      (simp add: trace_append count_all_def)
qed

lemma loop_spec_next:
  assumes "wait_eintr K child (h @ [Ptrace (PTRACE_SYSCALL sig) child]) = Some (w, h2)" "ret w \<noteq> -1"
    and "h3 = h2 @ ds" "wait_statuses K h2 ds = []" "resumptions ds = []"
    and "\<And>rs. count_all (ts_stats ts') (completed (map_option se_number (ts_current ts')) rs) =
      count_all (ts_stats ts) (completed (map_option se_number (ts_current ts)) (stop_infos K h2 ds @ rs))"
    and "loop_spec K (signal_after (wstatus w)) ts' h3 stats h'"
  shows "loop_spec K sig ts h stats h'"
proof -
  from assms(1) obtain cs where cs: "h2 = h @ cs" "stop_infos K h cs = []" "resumptions cs = [sig]"
    "wait_statuses K h cs = (if ret w = -1 then [] else [wstatus w])" by (rule loop_spec_round)
  from assms(7) obtain es sts lst where es: "h' = h3 @ es"
    "stats = count_all (ts_stats ts') (completed (map_option se_number (ts_current ts')) (stop_infos K h3 es))"
    "resumptions es = signal_after (wstatus w) # map signal_after sts" "wait_statuses K h3 es = sts @ lst" "length lst \<le> 1"
    by (auto simp: loop_spec_def)
  show ?thesis
    unfolding loop_spec_def
    using cs es assms(2-6)
    by (intro exI [of _ "cs @ ds @ es"] exI [of _ "wstatus w # sts"] exI [of _ lst]) (simp add: trace_append)
qed

lemma syscall_stop_spec:
  assumes "syscall_stop E K summary child fd (K h2 g) ts (h2 @ [g]) = (ts', h4)"
    and "g = Ptrace PTRACE_GET_SYSCALL_INFO child" "ret (K h2 g) \<noteq> -1"
  obtains ds where "h4 = h2 @ ds" "wait_statuses K h2 ds = []" "resumptions ds = []"
    "\<And>rs. count_all (ts_stats ts') (completed (map_option se_number (ts_current ts')) rs) =
      count_all (ts_stats ts) (completed (map_option se_number (ts_current ts)) (stop_infos K h2 ds @ rs))"
proof -
  define i where "i = K h2 g"
  obtain shown h3 where f: "format_arguments K child (sint (info_nr i)) (info_args i) (h2 @ [g]) = (shown, h3)" by fastforce
  have sil: "silent K (h2 @ [g]) h4"
    using assms(1) f format_arguments_silent [OF f]
    by (auto simp: syscall_stop_def i_def Let_def split: if_splits option.splits)
  then obtain cs where cs: "h4 = (h2 @ [g]) @ cs" "stop_infos K (h2 @ [g]) cs = []" "wait_statuses K (h2 @ [g]) cs = []" "resumptions cs = []"
    by (auto simp: silent_def)
  have infos: "stop_infos K h2 (g # cs) = [i]" using cs assms(2,3) by (simp add: i_def)
  have "count_all (ts_stats ts') (completed (map_option se_number (ts_current ts')) rs) =
      count_all (ts_stats ts) (completed (map_option se_number (ts_current ts)) (i # rs))" for rs
    using assms(1) f
    by (auto simp: syscall_stop_def i_def [symmetric] Let_def count_all_def split: if_splits option.splits)
  then show thesis
    using cs assms(2) infos by (intro that [of "g # cs"]) simp_all
qed

text \<open>What the loop does with a report of the tracee, \<open>f\<close> being the rest of the loop.\<close>

definition trace_event ::
  "((trace \<Rightarrow> environ) \<Rightarrow> kernel \<Rightarrow> bool \<Rightarrow> int \<Rightarrow> int \<Rightarrow> int \<Rightarrow> trace_state \<Rightarrow> trace \<Rightarrow> (int \<times> syscall_map \<times> trace) option) \<Rightarrow>
    (trace \<Rightarrow> environ) \<Rightarrow> kernel \<Rightarrow> bool \<Rightarrow> int \<Rightarrow> int \<Rightarrow> trace_state \<Rightarrow> reply \<Rightarrow> trace \<Rightarrow> (int \<times> syscall_map \<times> trace) option" where
  "trace_event f E K summary child fd ts w h2 =
     (if ret w = -1 then Some (1, ts_stats ts, trace_message fd (''waitpid: '' @ strerror (E h2) (errno w)) h2)
      else if WIFEXITED (wstatus w) \<or> WIFSIGNALED (wstatus w)
      then Some (trace_exit_code (wstatus w), ts_stats ts, write_summary summary fd (ts_stats ts) h2)
      else if \<not> WIFSTOPPED (wstatus w) then f E K summary child fd 0 ts h2
      else if WSTOPSIG (wstatus w) = SYSCALL_STOP then
        (let (i, h3) = syscall K (Ptrace PTRACE_GET_SYSCALL_INFO child) h2
         in if ret i = -1
            then Some (1, ts_stats ts, trace_message fd (''PTRACE_GET_SYSCALL_INFO: '' @ strerror (E h3) (errno i)) h3)
            else let (ts', h4) = syscall_stop E K summary child fd i ts h3
              in f E K summary child fd 0 ts' h4)
      else if WSTOPSIG (wstatus w) = SIGTRAP \<or> WSTOPSIG (wstatus w) = SIGSTOP
      then f E K summary child fd 0 ts h2
      else f E K summary child fd (WSTOPSIG (wstatus w)) ts h2)"

lemma trace_event_spec:
  assumes IH: "\<And>sig ts h. f E K summary child fd sig ts h = Some x \<Longrightarrow> loop_spec K sig ts h (fst (snd x)) (snd (snd x))"
    and w': "wait_eintr K child (h @ [Ptrace (PTRACE_SYSCALL sig) child]) = Some (w, h2)"
    and event: "trace_event f E K summary child fd ts w h2 = Some x"
  shows "loop_spec K sig ts h (fst (snd x)) (snd (snd x))" (is ?spec)
proof -
  note body2 = event [unfolded trace_event_def syscall_def Let_def prod.case]
  define g where "g = Ptrace PTRACE_GET_SYSCALL_INFO child"
  have next0: ?spec if "f E K summary child fd sg ts h2 = Some x" "sg = signal_after (wstatus w)" "ret w \<noteq> -1" for sg
    using IH [OF that(1)] that(2,3) by (intro loop_spec_next [OF w', of h2 "[]" ts]) simp_all
  have fin: ?spec if "fst (snd x) = ts_stats ts" "silent K h2 (snd (snd x))"
    using loop_spec_ended [OF w' that(2), of ts] that(1) by simp
  consider (err) "ret w = -1" | (ended) "ret w \<noteq> -1" "WIFEXITED (wstatus w) \<or> WIFSIGNALED (wstatus w)"
    | (other) "ret w \<noteq> -1" "\<not> (WIFEXITED (wstatus w) \<or> WIFSIGNALED (wstatus w))" "\<not> WIFSTOPPED (wstatus w)"
    | (stop) "ret w \<noteq> -1" "\<not> (WIFEXITED (wstatus w) \<or> WIFSIGNALED (wstatus w))" "WIFSTOPPED (wstatus w)" by blast
  then show ?thesis
  proof cases
    case err
    from body2 [unfolded if_P [OF err]] have "fst (snd x) = ts_stats ts" "silent K h2 (snd (snd x))" by auto
    then show ?thesis by (rule fin)
  next
    case ended
    from body2 [unfolded if_not_P [OF ended(1)] if_P [OF ended(2)]]
    have "fst (snd x) = ts_stats ts" "silent K h2 (snd (snd x))" by auto
    then show ?thesis by (rule fin)
  next
    case other
    from body2 [unfolded if_not_P [OF other(1)] if_not_P [OF other(2)] if_P [OF other(3)]] other
    show ?thesis by (intro next0) (simp_all add: signal_after_def)
  next
    case stop
    note body3 = body2 [unfolded if_not_P [OF stop(1)] if_not_P [OF stop(2)], folded g_def]
    show ?thesis
    proof (cases "WSTOPSIG (wstatus w) = SYSCALL_STOP")
      case False
      with body3 stop show ?thesis
        by (cases "WSTOPSIG (wstatus w) = SIGTRAP \<or> WSTOPSIG (wstatus w) = SIGSTOP")
          (auto simp: signal_after_def intro: next0)
    next
      case True
      show ?thesis
      proof (cases "ret (K h2 g) = -1")
        case err: True
        with True stop body3 have x: "fst (snd x) = ts_stats ts" "silent K (h2 @ [g]) (snd (snd x))" by auto
        have "silent K h2 (h2 @ [g])" using err by (simp add: silent_def g_def)
        from fin [OF x(1) silent_trans [OF this x(2)]] show ?thesis .
      next
        case ok: False
        obtain ts' h4 where s: "syscall_stop E K summary child fd (K h2 g) ts (h2 @ [g]) = (ts', h4)" by fastforce
        with True stop ok body3 have "f E K summary child fd 0 ts' h4 = Some x" by simp
        from IH [OF this] have l: "loop_spec K 0 ts' h4 (fst (snd x)) (snd (snd x))" .
        from s g_def ok obtain ds where ds: "h4 = h2 @ ds" "wait_statuses K h2 ds = []" "resumptions ds = []"
          "\<And>rs. count_all (ts_stats ts') (completed (map_option se_number (ts_current ts')) rs) =
            count_all (ts_stats ts) (completed (map_option se_number (ts_current ts)) (stop_infos K h2 ds @ rs))"
          by (rule syscall_stop_spec) blast
        have "signal_after (wstatus w) = 0" using True by (simp add: signal_after_def)
        with l show ?thesis by (intro loop_spec_next [OF w' stop(1) ds]) simp
      qed
    qed
  qed
qed

lemma trace_loop_spec:
  assumes "trace_loop E K summary child fd sig ts h = Some x"
  shows "loop_spec K sig ts h (fst (snd x)) (snd (snd x))"
proof (rule trace_loop.raw_induct [where P = "\<lambda>E K summary child fd sig ts h x. loop_spec K sig ts h (fst (snd x)) (snd (snd x))", OF _ assms])
  fix f E K summary child fd sig ts h and x :: "int \<times> syscall_map \<times> trace"
  let ?spec = "loop_spec K sig ts h (fst (snd x)) (snd (snd x))"
  assume IH: "\<And>E K summary child fd sig ts h x. f E K summary child fd sig ts h = Some x \<Longrightarrow> loop_spec K sig ts h (fst (snd x)) (snd (snd x))"
    and body: "(let (r, h1) = syscall K (Ptrace (PTRACE_SYSCALL sig) child) h
      in if ret r = -1 then
           (if errno r = ESRCH then Some (1, ts_stats ts, write_summary summary fd (ts_stats ts) h1)
            else Some (1, ts_stats ts, trace_message fd (''PTRACE_SYSCALL: '' @ strerror (E h1) (errno r)) h1))
         else Option.bind (wait_eintr K child h1) (\<lambda>(w, h2).
           if ret w = -1 then Some (1, ts_stats ts, trace_message fd (''waitpid: '' @ strerror (E h2) (errno w)) h2)
           else if WIFEXITED (wstatus w) \<or> WIFSIGNALED (wstatus w)
           then Some (trace_exit_code (wstatus w), ts_stats ts, write_summary summary fd (ts_stats ts) h2)
           else if \<not> WIFSTOPPED (wstatus w) then f E K summary child fd 0 ts h2
           else if WSTOPSIG (wstatus w) = SYSCALL_STOP then
             (let (i, h3) = syscall K (Ptrace PTRACE_GET_SYSCALL_INFO child) h2
              in if ret i = -1
                 then Some (1, ts_stats ts, trace_message fd (''PTRACE_GET_SYSCALL_INFO: '' @ strerror (E h3) (errno i)) h3)
                 else let (ts', h4) = syscall_stop E K summary child fd i ts h3
                   in f E K summary child fd 0 ts' h4)
           else if WSTOPSIG (wstatus w) = SIGTRAP \<or> WSTOPSIG (wstatus w) = SIGSTOP
           then f E K summary child fd 0 ts h2
           else f E K summary child fd (WSTOPSIG (wstatus w)) ts h2)) = Some x"
  define h1 where "h1 = h @ [Ptrace (PTRACE_SYSCALL sig) child]"
  define r where "r = K h (Ptrace (PTRACE_SYSCALL sig) child)"
  note body1 = body [unfolded syscall_def Let_def prod.case, folded h1_def r_def]
  show ?spec
  proof (cases "ret r = -1")
    case True
    from body1 [unfolded if_P [OF True]] have "fst (snd x) = ts_stats ts \<and> silent K h1 (snd (snd x))"
      by (cases "errno r = ESRCH") auto
    with loop_spec_refused [of K h sig child "snd (snd x)" ts] show ?thesis by (simp add: h1_def)
  next
    case False
    from body1 [unfolded if_not_P [OF False]] obtain w h2 where w: "wait_eintr K child h1 = Some (w, h2)"
      by (auto simp: bind_eq_Some_conv)
    from body1 [unfolded if_not_P [OF False] w bind.simps prod.case]
    have "trace_event f E K summary child fd ts w h2 = Some x" by (simp only: trace_event_def syscall_def Let_def prod.case)
    from trace_event_spec [where f = f, OF IH w [unfolded h1_def] this] show ?thesis .
  qed
qed

section \<open>Statistics\<close>

lemma record_call_keys:
  "sorted_wrt (<) (map fst m) \<Longrightarrow> sorted_wrt (<) (map fst (record_call nr e m)) \<and>
     set (map fst (record_call nr e m)) = insert nr (set (map fst m))"
  by (induction nr e m rule: record_call.induct) auto

lemma record_call_lookup:
  "sorted_wrt (<) (map fst m) \<Longrightarrow> map_of (record_call nr e m) k =
     (if k = nr then Some (count_call e (case map_of m nr of Some s \<Rightarrow> s | None \<Rightarrow> no_calls)) else map_of m k)"
proof (induction nr e m rule: record_call.induct)
  case (2 nr e k0 s m)
  have "map_of m nr = None" if "nr < k0"
    using 2(2) that by (auto simp: map_of_eq_None_iff)
  with 2 show ?case by auto
qed simp

text \<open>The calls and errors of one number in a list of completed calls.\<close>

definition tally :: "(int \<times> bool) list \<Rightarrow> int \<Rightarrow> SyscallStats option" where
  "tally es nr =
     (let d = filter (\<lambda>x. fst x = nr) es
      in if d = [] then None else Some \<lparr>stat_calls = of_nat (length d), stat_errors = of_nat (length (filter snd d))\<rparr>)"

lemma count_all_tally:
  "sorted_wrt (<) (map fst (count_all [] es)) \<and> map_of (count_all [] es) = tally es"
proof (induction es rule: rev_induct)
  case Nil
  then show ?case by (simp add: count_all_def tally_def fun_eq_iff)
next
  case (snoc x es)
  obtain nr e where x: "x = (nr, e)" by fastforce
  have c: "count_all [] (es @ [x]) = record_call nr e (count_all [] es)" by (simp add: count_all_def x)
  have "filter (\<lambda>x. fst x = nr \<and> snd x) es = []" if "filter (\<lambda>x. fst x = nr) es = []"
    using that by (auto simp: filter_empty_conv)
  with snoc show ?case
    unfolding c by (auto simp: record_call_keys record_call_lookup fun_eq_iff tally_def count_call_def no_calls_def x Let_def)
qed


section \<open>Properties\<close>

text \<open>
  C11. The statistics of the tracer are exact: when the event loop ends, whatever the tracee did, each
  system call number has exactly the number of calls that were entered and left again between the
  start and the end, and the number of those that returned an error; a call that was never left, an
  exit without an entry and other stops do not count. Counters are 64 bits wide.
\<close>

theorem trace_statistics_exact:
  assumes "trace_loop E K summary child fd 0 \<lparr>ts_current = None, ts_stats = []\<rparr> h = Some (code, stats, h')"
  shows "\<exists>cs. h' = h @ cs \<and> map_of stats = tally (completed None (stop_infos K h cs)) \<and> sorted_wrt (<) (map fst stats)"
proof -
  from trace_loop_spec [OF assms] obtain cs where "h' = h @ cs" "stats = count_all [] (completed None (stop_infos K h cs))"
    by (auto simp: loop_spec_def)
  with count_all_tally show ?thesis by auto
qed

text \<open>
  A tracee that calls \<open>getpid\<close>, fails in \<open>open\<close>, and exits with status 3. Its stops alternate between
  entry and exit.
\<close>

definition traced_kernel :: kernel where
  "traced_kernel h c =
     (let n = length (filter is_waitpid h)
      in case c of
           Waitpid p _ \<Rightarrow> reply_ok\<lparr>ret := p, wstatus := (if n < 4 then stop_status 0x85 else if n < 5 then stop_status 10 else exit_status 3)\<rparr>
         | Ptrace PTRACE_GET_SYSCALL_INFO _ \<Rightarrow>
             reply_ok\<lparr>ret := 1, info_op := (if n = 1 \<or> n = 3 then 1 else 2), info_nr := (if n < 3 then 39 else 3),
               info_rval := (if n < 3 then 7 else -9)\<rparr>
         | _ \<Rightarrow> reply_ok)"

definition demo_environ0 :: environ where
  "demo_environ0 = \<lparr>getenv = (\<lambda>_. None), stat_kind = (\<lambda>_. None), access_x = (\<lambda>_. False), read_dir = (\<lambda>_. None), strerror = (\<lambda>_. ''error'')\<rparr>"

theorem trace_statistics_exact_witness:
  "\<exists>stats cs. trace_loop (\<lambda>_. demo_environ0) traced_kernel True 50 2 0 \<lparr>ts_current = None, ts_stats = []\<rparr> [] = Some (3, stats, cs) \<and>
     map_of stats 39 = Some \<lparr>stat_calls = 1, stat_errors = 0\<rparr> \<and> map_of stats 3 = Some \<lparr>stat_calls = 1, stat_errors = 1\<rparr> \<and>
     map_of stats = tally (completed None (stop_infos traced_kernel [] cs))"
proof -
  have "case trace_loop (\<lambda>_. demo_environ0) traced_kernel True 50 2 0 \<lparr>ts_current = None, ts_stats = []\<rparr> [] of
      Some (code, stats, cs) \<Rightarrow> code = 3 \<and> map_of stats 39 = Some \<lparr>stat_calls = 1, stat_errors = 0\<rparr> \<and>
        map_of stats 3 = Some \<lparr>stat_calls = 1, stat_errors = 1\<rparr>
    | None \<Rightarrow> False"
    by code_simp
  then obtain stats cs where x: "trace_loop (\<lambda>_. demo_environ0) traced_kernel True 50 2 0 \<lparr>ts_current = None, ts_stats = []\<rparr> [] =
      Some (3, stats, cs)" "map_of stats 39 = Some \<lparr>stat_calls = 1, stat_errors = 0\<rparr>"
      "map_of stats 3 = Some \<lparr>stat_calls = 1, stat_errors = 1\<rparr>"
    by (auto split: option.splits)
  from trace_statistics_exact [OF x(1)] x show ?thesis by simp
qed

text \<open>
  C22. The tracer passes on every signal other than \<open>SIGTRAP\<close> and \<open>SIGSTOP\<close>, once and unchanged. The tracee is resumed
  without a signal first; the resumption after a report delivers exactly the signal that stopped the tracee, and no
  signal when the report was a system-call stop, a stop by \<open>SIGTRAP\<close> or \<open>SIGSTOP\<close> (which the tracer takes for stops of
  its own making and discards, also when they were sent by another process), or no stop at all. So no signal is
  invented or repeated; only the last report, which ends the loop, is not answered.
\<close>

theorem trace_signals_forwarded:
  assumes "trace_loop E K summary child fd 0 \<lparr>ts_current = None, ts_stats = []\<rparr> h = Some (code, stats, h')"
  shows "\<exists>cs sts lst. h' = h @ cs \<and> wait_statuses K h cs = sts @ lst \<and> length lst \<le> 1 \<and>
    resumptions cs = 0 # map signal_after sts"
  using trace_loop_spec [OF assms] by (auto simp: loop_spec_def)

theorem trace_signals_forwarded_witness:
  "\<exists>stats cs sts lst. trace_loop (\<lambda>_. demo_environ0) traced_kernel True 50 2 0 \<lparr>ts_current = None, ts_stats = []\<rparr> [] = Some (3, stats, cs) \<and>
     resumptions cs = [0, 0, 0, 0, 0, 10] \<and> wait_statuses traced_kernel [] cs = sts @ lst \<and>
     resumptions cs = 0 # map signal_after sts"
proof -
  have "case trace_loop (\<lambda>_. demo_environ0) traced_kernel True 50 2 0 \<lparr>ts_current = None, ts_stats = []\<rparr> [] of
      Some (code, stats, cs) \<Rightarrow> code = 3 \<and> resumptions cs = [0, 0, 0, 0, 0, 10] | None \<Rightarrow> False"
    by code_simp
  then obtain stats cs where x: "trace_loop (\<lambda>_. demo_environ0) traced_kernel True 50 2 0 \<lparr>ts_current = None, ts_stats = []\<rparr> [] =
      Some (3, stats, cs)" "resumptions cs = [0, 0, 0, 0, 0, 10]"
    by (auto split: option.splits)
  from trace_signals_forwarded [OF x(1)] x show ?thesis by auto
qed

text \<open>A \<open>SIGSTOP\<close> that another process sends to the tracee is discarded: the tracee is resumed as if nothing had happened.\<close>

lemma stop_signal_discarded:
  "case trace_loop (\<lambda>_. demo_environ0) (scripted_kernel [(50, 0x137F), (50, 0)]) True 50 2 0 \<lparr>ts_current = None, ts_stats = []\<rparr> [] of
     Some (code, stats, cs) \<Rightarrow> code = 0 \<and> resumptions cs = [0, 0] | None \<Rightarrow> False"
  "WIFSTOPPED 0x137F" "WSTOPSIG 0x137F = SIGSTOP"
  by code_simp+

text \<open>
  The address of the next word advances by the length of the rendered text: after a first word that
  holds three newlines, the second word is read three bytes too far.
\<close>

lemma tracee_string_address_drift:
  "filter (\<lambda>c. case c of Ptrace (PTRACE_PEEKDATA _) _ \<Rightarrow> True | _ \<Rightarrow> False)
     (snd (read_tracee_string (\<lambda>h c. if h = [] then reply_ok\<lparr>peeked := 0x61610A610A610A61\<rparr> else reply_ok) 50 0x1000 [])) =
   [Ptrace (PTRACE_PEEKDATA 0x1000) 50, Ptrace (PTRACE_PEEKDATA 0x100B) 50]"
  by code_simp

end
