(* ===== verification/Spec2Isabelle.thy ===== *)
theory Spec2Isabelle
  imports Descriptors Display Process_Times Sandbox_Theorems Test_Programs Trace_Theorems
begin

text \<open>
  A verified model of the job-control shell in \<open>src/\<close>.

  \<^bold>\<open>The program.\<close> \<open>main\<close> (\<open>main.cpp\<close>) sets up job control and GNU Readline and repeats: reap background
  jobs, read a line, record it in the history, parse it, execute the plan, until end of input or \<open>exit\<close>. A line is
  turned into tokens (\<open>lexer.cpp\<close>) and then into a plan of pipelines joined by \<open>&&\<close>, \<open>||\<close>, \<open>;\<close> and \<open>&\<close>
  (\<open>parser.cpp\<close>). The executor (\<open>executor.cpp\<close>) runs a plan: a single built-in in the shell process itself,
  everything else in forked children that are connected by pipes, form a process group and are registered
  as a job. Job control (\<open>job_control.cpp\<close>) keeps the job table, gives the terminal away and takes it back,
  and waits. The built-ins (\<open>builtins.cpp\<close>) use the history (\<open>history.cpp\<close>), the search of \<open>PATH\<close> and the
  writing of output (\<open>shell_utils.cpp\<close>), the snapshot of a process (\<open>process_info.cpp\<close>) and, in a child only,
  programs with resource limits (\<open>resource_control.cpp\<close>), in namespaces and a cgroup (\<open>sandbox.cpp\<close>), or under a
  system-call tracer (\<open>trace.cpp\<close>). Descriptors are owned by objects of \<open>include/unique_fd.hpp\<close>.

  \<^bold>\<open>How it is modelled.\<close> Every definition is a function of HOL that follows one function of the source, with its
  early returns and error branches, and has the name of that function where HOL allows it; parts of long functions
  have their own names. Structs and classes are records, enumerations are datatypes, errors are values.
  Integers that can wrap are machine words (\<open>64 word\<close>, the \<open>int32_cast\<close> of a job number); \<open>double\<close> values
  are pairs of mantissa and exponent with rounding to nearest, ties to even.

  The operating system is a parameter. A process issues system calls; the list of its calls is its \<open>trace\<close>, and a
  \<open>kernel\<close> is any function that answers a call after a trace, so every answer, also every failure, every
  interruption and every order of child reports, is covered. \<open>fork\<close> answers in one process: a kernel that answers
  0 shows the run of the child, one that never does (\<open>forks_as_parent\<close>) that of the shell. Environment and
  file system are a function of the trace too. A child that ends is the value \<open>Inl\<close> of an end (\<open>Exited\<close> with a
  code, \<open>Replaced\<close> by a program). GNU Readline is a parameter: the record \<open>readline_api\<close> for its history and
  \<open>editor\<close> for its completion; what the user does at the \<open>n\<close>-th prompt is \<open>session n\<close>, with the signals that
  arrive meanwhile.

  \<^bold>\<open>Loops.\<close> Loops over data are total functions with a termination proof. Loops that the environment may keep
  going (waiting, reaping, reading, writing, tracing, sleeping, the parser's index loops, the main loop) are
  \<open>partial_function (option)\<close>: \<open>None\<close> means that the code does not return. There is no fuel and no bound;
  that a loop does return is a theorem, under a hypothesis on the kernel where one is needed.

  \<^bold>\<open>Theories.\<close>
  \<^item> \<open>Prelude\<close>: characters, the C and C++ library functions on strings and numbers, shared lemmas. \<open>Kernel\<close>: system
    calls, replies, kernels, traces, process ends.
  \<^item> \<open>Lexer\<close>: \<open>lexer.cpp\<close>. The locale \<open>lex_invariant\<close> is the contract of one step of the loop over the input. An
    accepted line gives tokens in order, with the text they have in the input, and one end token; quoting is inverted.
  \<^item> \<open>Parser\<close>: \<open>parser.cpp\<close> and \<open>command.hpp\<close>. An inductive grammar of command lines; the parser accepts
    exactly its sentences with the plan that the grammar assigns, and returns on every input; plans are well formed.
  \<^item> \<open>Job_Control\<close>, \<open>Job_Sessions\<close>, \<open>Job_Theorems\<close>: \<open>job_control.cpp\<close>. The locale \<open>job_table\<close> is what the executor
    relies on. The invariant holds along all sequences of operations (\<open>jc_reach\<close>), with the terminal requested for the
    shell (\<open>terminal_owner\<close> is the process group of the last \<open>tcsetpgrp\<close>, whether or not the kernel granted it); a
    foreground wait returns what the reported events mean; every operation returns when the children end.
  \<^item> \<open>Shell_Utils\<close>, \<open>History\<close>, \<open>Resource_Control\<close>, \<open>Process_Info\<close>, \<open>Process_Times\<close>: the files of these names.
    Search of \<open>PATH\<close> (the first regular executable file of its directories) and completion names, complete writes;
    a history file that receives exactly the typed commands, through \<open>history -a\<close> and \<open>history -w\<close> elsewhere;
    overflow-free sizes, limits that are granted and in force before the program runs, and what each exit status of
    \<open>run\<close> means; parsing of \<open>/proc\<close> files and the error of the display of CPU times, for any clock rate.
  \<^item> \<open>Sandbox\<close>, \<open>Sandbox_Theorems\<close>: \<open>sandbox.cpp\<close>. What the kernel has granted to a process is replayed
    from its calls and their answers (\<open>isolation_run\<close>); a program starts only when every requested namespace option is in
    force (\<open>confined\<close>), and every way out tries to remove the cgroup. Whether the limits of the cgroup and the
    user maps were accepted is not part of it, because the code does not look (\<open>refused_limits_unnoticed\<close>).
  \<^item> \<open>Trace\<close>, \<open>Trace_Theorems\<close>: \<open>trace.cpp\<close>. The statistics refine the sequence of stops of the tracee, and signals
    other than \<open>SIGTRAP\<close> and \<open>SIGSTOP\<close> are passed on unchanged.
  \<^item> \<open>Builtins\<close>: \<open>builtins.cpp\<close>. What built-ins in the shell process never do, when \<open>cd\<close> succeeds, and the samples
    that \<open>pinfo\<close> shows.
  \<^item> \<open>Executor\<close>, \<open>Executor_Theorems\<close>: \<open>executor.cpp\<close>. The locale \<open>plan_runner\<close> is the contract between the loop over
    a plan and the running of a pipeline; it is interpreted for the session invariant, the growth of the history
    and the balance of descriptors. A plan means the left-associative short-circuit evaluation of its
    pipelines, given by rules of its own for \<open>&&\<close>, \<open>||\<close> and \<open>;\<close> (\<open>chain_runs\<close>).
  \<^item> \<open>Display\<close>: the text that \<open>jobs\<close> shows parses back to the commands of its pipeline, unless an unquoted word holds
    a quote character or a backslash (executor, lexer and parser together).
  \<^item> \<open>Plumbing\<close>: the descriptor table of a child, replayed from its trace; the streams of every
    command of a pipeline, built-in or external.
  \<^item> \<open>Unique_Fd\<close>: the class \<open>UniqueFd\<close> with its moves, over a store of objects; every descriptor has one fate.
  \<^item> \<open>Main_Loop\<close>, \<open>Main_Theorems\<close>: \<open>main.cpp\<close>. The locale \<open>session_parts\<close> states what each part of a round must keep; its
    interpretations give what holds at every call of \<open>readline\<close> (\<open>at_readline\<close>; \<open>at_prompt\<close> is the start of an iteration,
    before the signals that arrived are delivered), the recorded lines and, in \<open>Descriptors\<close>, that the
    shell process leaks no descriptor. \<open>main\<close> returns when its input ends.
  \<^item> \<open>Test_Programs\<close>: the fuzz target and the random test, which never abort on any input, and the smoke tests,
    whose assertions are evaluated on the model.

  \<^bold>\<open>Hypotheses.\<close> What theorems assume of code outside the repository has names, and each is met by a concrete kernel
  or editor in a witness: \<open>forks_as_parent\<close> (above), \<open>children_end\<close> (\<open>waitpid\<close> has a bounded number of
  reports and interruptions for each \<open>fork\<close>), \<open>files_end\<close> (reading a file comes to an end), \<open>foreground_start\<close> (the shell is started in the
  foreground), \<open>fresh_descriptors\<close> (a new descriptor is not in use), \<open>readline_laws\<close> and \<open>history_kept\<close> (the
  history list of Readline), \<open>completion_law\<close> (\<open>rl_completion_matches\<close> calls its generator until it answers
  null).

  \<^bold>\<open>Where the code differs from what it means to do.\<close> Lemmas record such places beside the properties, among them
  \<open>parse_job_id_wraps\<close>, \<open>history_read_drops_unsaved\<close>, \<open>history_write_saves_twice\<close>, \<open>stop_signal_discarded\<close>, \<open>display_of_quote_not_parsed\<close>, \<open>status_skips_argument\<close>,
  \<open>refused_limits_unnoticed\<close>, \<open>tracee_string_address_drift\<close> and \<open>closed_stdin_redirect_lost\<close>.

  \<^bold>\<open>Not modelled.\<close> The inside of GNU Readline and of the kernel; failing memory allocation and exceptions of the
  standard library for it; system calls that never return (a kernel answers every call, so a foreground child that
  runs forever is outside); the overflow of the next job number, a C++ \<open>int\<close> that is an unbounded integer here,
  after \<open>2\<^sup>3\<^sup>1\<close> jobs; the branches for systems other than Linux on x86-64 (preprocessor alternatives that only print
  that a feature is missing); the layout of the structures that \<open>ptrace\<close> fills in, of which the reply has the
  fields that the code reads; signal delivery between two arbitrary instructions (a \<open>SIGCHLD\<close> or \<open>SIGINT\<close> arrives while
  the shell waits at its prompt or between job operations); the test scripts, the smoke test on the live
  \<open>/proc\<close>, the documentation and the build files.
\<close>

end
